(* ===== verification/Prelude.thy ===== *)
theory Prelude
  imports Main "HOL-Library.Word" "HOL-Library.Sublist"
begin

text \<open>
  Shared vocabulary of the development: Go errors and results, the parts of the Go string
  library the packages use (\<^verbatim>\<open>strings.TrimSpace\<close>, \<^verbatim>\<open>strings.Split\<close>, \<^verbatim>\<open>strings.Join\<close>,
  \<^verbatim>\<open>strconv.Atoi\<close>), and the generic lemmas on lists and options the components share.

  A Go string is a \<^typ>\<open>string\<close>, one \<^typ>\<open>char\<close> per byte. A \<^verbatim>\<open>time.Time\<close> is the number of
  nanoseconds since the zero time (January 1, year 1, 00:00:00 UTC), so \<^verbatim>\<open>IsZero\<close> is
  equality with 0 and a missing SQL timestamp is \<^term>\<open>None\<close>.
\<close>

named_theorems model_defs \<open>definitions a component proof usually unfolds\<close>
named_theorems frame \<open>what an operation leaves unchanged\<close>
named_theorems keeps \<open>what every operation keeps of a component's invariant\<close>

section \<open>Errors and results\<close>

text \<open>
  A Go error is a sentinel made by \<^verbatim>\<open>errors.New\<close> (identified by its text: no two sentinels
  of the module share one) or a wrapper made by \<^verbatim>\<open>fmt.Errorf\<close> with \<^verbatim>\<open>%w\<close>, of which the
  model keeps the constant part of the format and the wrapped errors.
\<close>

datatype goerror = New string | Wrapf string "goerror list"

text \<open>\<^verbatim>\<open>errors.Is\<close>: the error itself or anything it wraps.\<close>

fun is_error :: "goerror \<Rightarrow> goerror \<Rightarrow> bool" where
  "is_error (New s) t = (New s = t)"
| "is_error (Wrapf m es) t = (Wrapf m es = t \<or> list_ex (\<lambda>e. is_error e t) es)"

type_synonym 'a result = "goerror + 'a"

definition bind_result :: "'a result \<Rightarrow> ('a \<Rightarrow> 'b result) \<Rightarrow> 'b result" where
  "bind_result r f = (case r of Inl e \<Rightarrow> Inl e | Inr x \<Rightarrow> f x)"

lemma bind_result_simps [simp]:
  "bind_result (Inl e) f = Inl e"
  "bind_result (Inr x) f = f x"
  by (simp_all add: bind_result_def)

lemma bind_result_eq_Inr [simp]:
  "bind_result r f = Inr y \<longleftrightarrow> (\<exists>x. r = Inr x \<and> f x = Inr y)"
  by (cases r) auto

type_synonym time = int

section \<open>Strings\<close>

text \<open>
  The UTF-8 encodings of the code points for which \<^verbatim>\<open>unicode.IsSpace\<close> holds. No encoding
  is a prefix or a suffix of another, so stripping a listed prefix or suffix is what
  \<^verbatim>\<open>strings.TrimSpace\<close> does, also on text that is not valid UTF-8.
\<close>

definition space_runes :: "string list" where
  "space_runes =
     [[CHR 0x09], [CHR 0x0A], [CHR 0x0B], [CHR 0x0C], [CHR 0x0D], [CHR 0x20],
      [CHR 0xC2, CHR 0x85], [CHR 0xC2, CHR 0xA0], [CHR 0xE1, CHR 0x9A, CHR 0x80],
      [CHR 0xE2, CHR 0x80, CHR 0x80], [CHR 0xE2, CHR 0x80, CHR 0x81],
      [CHR 0xE2, CHR 0x80, CHR 0x82], [CHR 0xE2, CHR 0x80, CHR 0x83],
      [CHR 0xE2, CHR 0x80, CHR 0x84], [CHR 0xE2, CHR 0x80, CHR 0x85],
      [CHR 0xE2, CHR 0x80, CHR 0x86], [CHR 0xE2, CHR 0x80, CHR 0x87],
      [CHR 0xE2, CHR 0x80, CHR 0x88], [CHR 0xE2, CHR 0x80, CHR 0x89],
      [CHR 0xE2, CHR 0x80, CHR 0x8A], [CHR 0xE2, CHR 0x80, CHR 0xA8],
      [CHR 0xE2, CHR 0x80, CHR 0xA9], [CHR 0xE2, CHR 0x80, CHR 0xAF],
      [CHR 0xE2, CHR 0x81, CHR 0x9F], [CHR 0xE3, CHR 0x80, CHR 0x80]]"

fun strip_one :: "string list \<Rightarrow> string \<Rightarrow> string option" where
  "strip_one [] s = None"
| "strip_one (p # ps) s =
     (if p \<noteq> [] \<and> take (length p) s = p then Some (drop (length p) s) else strip_one ps s)"

lemma strip_one_shorter: "strip_one ps s = Some r \<Longrightarrow> length r < length s"
proof (induction ps)
  case (Cons p ps)
  then show ?case by (cases s) (auto split: if_splits)
qed simp

function trim_prefixes :: "string list \<Rightarrow> string \<Rightarrow> string" where
  "trim_prefixes ps s = (case strip_one ps s of None \<Rightarrow> s | Some r \<Rightarrow> trim_prefixes ps r)"
  by pat_completeness auto
termination
  by (relation "measure (\<lambda>(ps, s). length s)") (auto dest: strip_one_shorter)

declare trim_prefixes.simps [simp del]

definition trim_left :: "string \<Rightarrow> string" where
  "trim_left s = trim_prefixes space_runes s"

definition trim_right :: "string \<Rightarrow> string" where
  "trim_right s = rev (trim_prefixes (map rev space_runes) (rev s))"

definition trim_space :: "string \<Rightarrow> string" where
  "trim_space s = trim_right (trim_left s)"

text \<open>\<^verbatim>\<open>strings.Split\<close> and \<^verbatim>\<open>strings.Join\<close> at a one-byte separator.\<close>

fun split_on :: "'a \<Rightarrow> 'a list \<Rightarrow> 'a list list" where
  "split_on c [] = [[]]"
| "split_on c (x # xs) =
     (if x = c then [] # split_on c xs
      else (case split_on c xs of [] \<Rightarrow> [[x]] | y # ys \<Rightarrow> (x # y) # ys))"

fun join_on :: "'a \<Rightarrow> 'a list list \<Rightarrow> 'a list" where
  "join_on c [] = []"
| "join_on c [x] = x"
| "join_on c (x # y # ys) = x @ c # join_on c (y # ys)"

definition has_prefix :: "string \<Rightarrow> string \<Rightarrow> bool" where
  "has_prefix s p \<longleftrightarrow> take (length p) s = p"

text \<open>
  \<^verbatim>\<open>strconv.Atoi\<close>: an optional sign, at least one decimal digit, nothing else, and a value
  that fits a 64-bit integer.
\<close>

definition is_digit :: "char \<Rightarrow> bool" where
  "is_digit c \<longleftrightarrow> 48 \<le> (of_char c :: nat) \<and> (of_char c :: nat) \<le> 57"

definition digit_val :: "char \<Rightarrow> int" where
  "digit_val c = of_char c - 48"

definition digits_val :: "string \<Rightarrow> int" where
  "digits_val s = foldl (\<lambda>n c. 10 * n + digit_val c) 0 s"

definition atoi :: "string \<Rightarrow> int option" where
  "atoi s =
     (let neg = (case s of [] \<Rightarrow> False | c # _ \<Rightarrow> c = CHR ''-'');
          ds = (case s of [] \<Rightarrow> [] | c # cs \<Rightarrow> if c = CHR ''-'' \<or> c = CHR ''+'' then cs else s);
          n = (if neg then - digits_val ds else digits_val ds)
      in if ds = [] \<or> \<not> list_all is_digit ds then None
         else if - (2 ^ 63) \<le> n \<and> n < 2 ^ 63 then Some n else None)"

text \<open>ASCII lower case.\<close>

definition lower_char :: "char \<Rightarrow> char" where
  "lower_char c = (let n = (of_char c :: nat) in if 65 \<le> n \<and> n \<le> 90 then char_of (n + 32) else c)"

section \<open>Lemmas on the string library\<close>

lemma lower_upper [simp]:
  "lower_char CHR ''A'' = CHR ''a''" "lower_char CHR ''B'' = CHR ''b''" "lower_char CHR ''C'' = CHR ''c''"
  "lower_char CHR ''D'' = CHR ''d''" "lower_char CHR ''E'' = CHR ''e''" "lower_char CHR ''F'' = CHR ''f''"
  "lower_char CHR ''G'' = CHR ''g''" "lower_char CHR ''H'' = CHR ''h''" "lower_char CHR ''I'' = CHR ''i''"
  "lower_char CHR ''J'' = CHR ''j''" "lower_char CHR ''K'' = CHR ''k''" "lower_char CHR ''L'' = CHR ''l''"
  "lower_char CHR ''M'' = CHR ''m''" "lower_char CHR ''N'' = CHR ''n''" "lower_char CHR ''O'' = CHR ''o''"
  "lower_char CHR ''P'' = CHR ''p''" "lower_char CHR ''Q'' = CHR ''q''" "lower_char CHR ''R'' = CHR ''r''"
  "lower_char CHR ''S'' = CHR ''s''" "lower_char CHR ''T'' = CHR ''t''" "lower_char CHR ''U'' = CHR ''u''"
  "lower_char CHR ''V'' = CHR ''v''" "lower_char CHR ''W'' = CHR ''w''" "lower_char CHR ''X'' = CHR ''x''"
  "lower_char CHR ''Y'' = CHR ''y''" "lower_char CHR ''Z'' = CHR ''z''"
  by (simp_all add: lower_char_def char_of_eq_iff)

lemma lower_id [simp]: "\<not> (65 \<le> (of_char c :: nat) \<and> (of_char c :: nat) \<le> 90) \<Longrightarrow> lower_char c = c"
  by (auto simp: lower_char_def Let_def)

lemma trim_prefixes_done: "strip_one ps (trim_prefixes ps s) = None"
proof (induction ps s rule: trim_prefixes.induct)
  case (1 ps s)
  then show ?case by (subst trim_prefixes.simps) (auto split: option.split)
qed

lemma trim_prefixes_fix: "strip_one ps s = None \<Longrightarrow> trim_prefixes ps s = s"
  by (subst trim_prefixes.simps) simp

lemma strip_one_suffix: "strip_one ps s = Some r \<Longrightarrow> suffix r s"
  by (induction ps) (auto split: if_splits intro: suffix_drop)

lemma trim_prefixes_suffix: "suffix (trim_prefixes ps s) s"
proof (induction ps s rule: trim_prefixes.induct)
  case (1 ps s)
  show ?case
  proof (cases "strip_one ps s")
    case None
    then show ?thesis by (simp add: trim_prefixes_fix)
  next
    case (Some r)
    with "1" have "suffix (trim_prefixes ps r) r" by simp
    moreover from Some have "suffix r s" by (rule strip_one_suffix)
    ultimately show ?thesis
      using Some by (subst trim_prefixes.simps) (auto intro: suffix_order.order_trans)
  qed
qed

text \<open>What has no listed prefix has none after cutting its end off.\<close>

lemma strip_one_None_prefix:
  "strip_one ps s = None \<Longrightarrow> prefix t s \<Longrightarrow> strip_one ps t = None"
proof (induction ps)
  case (Cons p ps)
  from Cons.prems(1) have p: "p \<noteq> [] \<longrightarrow> take (length p) s \<noteq> p" and ps: "strip_one ps s = None"
    by (auto split: if_splits)
  obtain z where "s = t @ z" using Cons.prems(2) by (auto simp: prefix_def)
  have "take (length p) t \<noteq> p" if "p \<noteq> []"
  proof
    assume "take (length p) t = p"
    then have "take (length p) s = p"
      using \<open>s = t @ z\<close> by (metis append_eq_conv_conj append_take_drop_id append_assoc)
    with p that show False by simp
  qed
  with Cons.IH[OF ps Cons.prems(2)] show ?case by auto
qed simp

lemma trim_right_prefix: "prefix (trim_right s) s"
  using trim_prefixes_suffix[of "map rev space_runes" "rev s"]
  by (simp add: trim_right_def suffix_to_prefix)

lemma trim_left_fix: "strip_one space_runes s = None \<Longrightarrow> trim_left s = s"
  by (simp add: trim_left_def trim_prefixes_fix)

lemma trim_space_no_left: "strip_one space_runes (trim_space s) = None"
  unfolding trim_space_def
  by (rule strip_one_None_prefix [OF _ trim_right_prefix])
    (simp add: trim_left_def trim_prefixes_done)

lemma trim_space_idem [simp]: "trim_space (trim_space s) = trim_space s"
proof -
  have "trim_left (trim_space s) = trim_space s"
    by (rule trim_left_fix [OF trim_space_no_left])
  moreover have "trim_right (trim_space s) = trim_space s"
    by (simp add: trim_space_def trim_right_def trim_prefixes_done trim_prefixes_fix)
  ultimately show ?thesis by (simp add: trim_space_def)
qed

lemma split_on_nonempty [simp]: "split_on c xs \<noteq> []"
  by (cases xs) (auto split: list.splits)

lemma join_split [simp]: "join_on c (split_on c xs) = xs"
proof (induction xs)
  case (Cons x xs)
  obtain y ys where ys: "split_on c xs = y # ys" by (cases "split_on c xs") auto
  with Cons show ?case by (cases ys) auto
qed simp

lemma split_on_no_sep: "seg \<in> set (split_on c xs) \<Longrightarrow> c \<notin> set seg"
proof (induction xs arbitrary: seg)
  case (Cons x xs)
  obtain y ys where ys: "split_on c xs = y # ys" by (cases "split_on c xs") auto
  with Cons.prems Cons.IH show ?case by (auto split: if_splits)
qed simp

lemma split_on_atom: "c \<notin> set seg \<Longrightarrow> split_on c seg = [seg]"
  by (induction seg) auto

lemma split_on_append: "c \<notin> set seg \<Longrightarrow> split_on c (seg @ c # rest) = seg # split_on c rest"
  by (induction seg) auto

lemma split_join:
  "xss \<noteq> [] \<Longrightarrow> \<forall>seg \<in> set xss. c \<notin> set seg \<Longrightarrow> split_on c (join_on c xss) = xss"
  by (induction c xss rule: join_on.induct) (auto simp: split_on_atom split_on_append)

lemma split_on_middle: "split_on c (a @ c # b) = split_on c a @ split_on c b"
  by (induction a) (auto split: list.split)

lemma join_on_append: "xs \<noteq> [] \<Longrightarrow> ys \<noteq> [] \<Longrightarrow> join_on c (xs @ ys) = join_on c xs @ c # join_on c ys"
proof (induction c xs rule: join_on.induct)
  case (2 c x)
  then show ?case by (cases ys) auto
qed auto

lemma split_on_inj: "split_on c xs = split_on c ys \<Longrightarrow> xs = ys"
  by (metis join_split)

section \<open>Lists and options\<close>

lemma map_filter_id_iff: "map_option f x = None \<longleftrightarrow> x = None"
  by (cases x) auto

lemma sum_list_replicate_le:
  "(\<And>x. x \<in> set xs \<Longrightarrow> f x \<le> (b::nat)) \<Longrightarrow> sum_list (map f xs) \<le> length xs * b"
  by (induction xs) (auto simp: add_mono)

end
