(* ===== verification/Uuid.thy ===== *)
theory Uuid
  imports Prelude
begin

unbundle bit_operations_syntax

text \<open>
  Package \<^verbatim>\<open>id\<close> (\<^verbatim>\<open>src/id/uuidv7.go\<close>): the identifier as sixteen bytes, the process-wide
  generator state \<^verbatim>\<open>lastMS\<close>/\<^verbatim>\<open>sequence\<close>, generation, the canonical text form and the byte
  order. The clock is the list of readings \<^verbatim>\<open>time.Now().UnixMilli()\<close> returns, one per pass of
  the loop in \<^verbatim>\<open>nextSequence\<close>; the random bytes are what \<^verbatim>\<open>rand.Read\<close> returns, or its
  error.
\<close>

section \<open>The identifier and its generator\<close>

type_synonym byte = "8 word"
type_synonym uuid = "byte list"

definition Nil_uuid :: uuid where
  "Nil_uuid = replicate 16 0"

definition wf_uuid :: "uuid \<Rightarrow> bool" where
  "wf_uuid u \<longleftrightarrow> length u = 16"

definition IsNil :: "uuid \<Rightarrow> bool" where
  "IsNil u \<longleftrightarrow> u = Nil_uuid"

definition ErrInvalid :: goerror where
  "ErrInvalid = New ''id: not a canonical UUID''"

definition maxSequence :: "16 word" where
  "maxSequence = 0x0FFF"

record generator =
  lastMS :: "64 word"
  sequence :: "16 word"

definition init_generator :: generator where
  "init_generator = \<lparr>lastMS = 0, sequence = 0\<rparr>"

text \<open>
  One pass of the loop per clock reading. \<^term>\<open>None\<close>: the readings ran out while the loop
  was still waiting for the next millisecond.
\<close>

fun nextSequence ::
  "generator \<Rightarrow> 64 word list \<Rightarrow> (generator \<times> 64 word \<times> 16 word \<times> 64 word list) option" where
  "nextSequence g [] = None"
| "nextSequence g (ms # clock) =
     (if sint ms > sint (lastMS g)
      then Some (g\<lparr>lastMS := ms, sequence := 0\<rparr>, ms, 0, clock)
      else if sequence g < maxSequence
      then Some (g\<lparr>sequence := sequence g + 1\<rparr>, lastMS g, sequence g + 1, clock)
      else nextSequence g clock)"

text \<open>The sixteen bytes of \<^verbatim>\<open>NewV7\<close> from a millisecond, a counter and eight random bytes.\<close>

definition layout_v7 :: "64 word \<Rightarrow> 16 word \<Rightarrow> byte list \<Rightarrow> uuid" where
  "layout_v7 ms sq rnd =
     [ucast (signed_drop_bit 40 ms), ucast (signed_drop_bit 32 ms), ucast (signed_drop_bit 24 ms),
      ucast (signed_drop_bit 16 ms), ucast (signed_drop_bit 8 ms), ucast ms,
      0x70 OR ucast ((drop_bit 8 sq) AND 0x0F), ucast sq]
     @ ((rnd ! 0 AND 0x3F) OR 0x80) # drop 1 rnd"

definition NewV7 ::
  "generator \<Rightarrow> 64 word list \<Rightarrow> byte list result \<Rightarrow>
     (generator \<times> uuid result \<times> 64 word list) option" where
  "NewV7 g clock rnd =
     (case nextSequence g clock of
        None \<Rightarrow> None
      | Some (g', ms, sq, clock') \<Rightarrow>
          (case rnd of
             Inl e \<Rightarrow> Some (g', Inl e, clock')
           | Inr bs \<Rightarrow> Some (g', Inr (layout_v7 ms sq bs), clock')))"

definition Version :: "uuid \<Rightarrow> nat" where
  "Version u = unat (drop_bit 4 (u ! 6))"

definition Variant :: "uuid \<Rightarrow> nat" where
  "Variant u = unat (drop_bit 6 (u ! 8))"

text \<open>The millisecond \<^verbatim>\<open>Timestamp\<close> hands to \<^verbatim>\<open>time.UnixMilli\<close>.\<close>

definition Timestamp_ms :: "uuid \<Rightarrow> 64 word" where
  "Timestamp_ms u =
     push_bit 40 (ucast (u ! 0)) OR push_bit 32 (ucast (u ! 1)) OR push_bit 24 (ucast (u ! 2)) OR
     push_bit 16 (ucast (u ! 3)) OR push_bit 8 (ucast (u ! 4)) OR ucast (u ! 5)"

section \<open>The text form\<close>

definition hex_digit :: "byte \<Rightarrow> char" where
  "hex_digit n = (''0123456789abcdef'') ! unat n"

fun hex_encode :: "byte list \<Rightarrow> string" where
  "hex_encode [] = []"
| "hex_encode (b # bs) = hex_digit (drop_bit 4 b) # hex_digit (b AND 0x0F) # hex_encode bs"

definition from_hex_char :: "char \<Rightarrow> byte option" where
  "from_hex_char c =
     (let n = (of_char c :: byte) in
      if 48 \<le> n \<and> n \<le> 57 then Some (n - 48)
      else if 97 \<le> n \<and> n \<le> 102 then Some (n - 97 + 10)
      else if 65 \<le> n \<and> n \<le> 70 then Some (n - 65 + 10)
      else None)"

text \<open>\<^verbatim>\<open>hex.Decode\<close>: an odd length or a character that is no hex digit is an error.\<close>

fun hex_decode :: "string \<Rightarrow> byte list option" where
  "hex_decode [] = Some []"
| "hex_decode [c] = None"
| "hex_decode (a # b # cs) =
     (case (from_hex_char a, from_hex_char b, hex_decode cs) of
        (Some x, Some y, Some bs) \<Rightarrow> Some ((push_bit 4 x OR y) # bs)
      | _ \<Rightarrow> None)"

definition slice :: "nat \<Rightarrow> nat \<Rightarrow> 'a list \<Rightarrow> 'a list" where
  "slice lo hi xs = take (hi - lo) (drop lo xs)"

definition String :: "uuid \<Rightarrow> string" where
  "String u =
     hex_encode (slice 0 4 u) @ ''-'' @ hex_encode (slice 4 6 u) @ ''-'' @
     hex_encode (slice 6 8 u) @ ''-'' @ hex_encode (slice 8 10 u) @ ''-'' @
     hex_encode (slice 10 16 u)"

text \<open>The five segments \<^verbatim>\<open>{dst, lo, hi}\<close> of \<^verbatim>\<open>Parse\<close>; \<^verbatim>\<open>dst\<close> is where the one before ends.\<close>

definition parse_segments :: "(nat \<times> nat) list" where
  "parse_segments = [(0, 8), (9, 13), (14, 18), (19, 23), (24, 36)]"

fun decode_segments :: "string \<Rightarrow> (nat \<times> nat) list \<Rightarrow> uuid option" where
  "decode_segments s [] = Some []"
| "decode_segments s ((lo, hi) # segs) =
     (case hex_decode (slice lo hi s) of
        None \<Rightarrow> None
      | Some bs \<Rightarrow> (case decode_segments s segs of None \<Rightarrow> None | Some rest \<Rightarrow> Some (bs @ rest)))"

definition Parse :: "string \<Rightarrow> uuid result" where
  "Parse s =
     (if length s \<noteq> 36 \<or> s ! 8 \<noteq> CHR ''-'' \<or> s ! 13 \<noteq> CHR ''-'' \<or> s ! 18 \<noteq> CHR ''-'' \<or> s ! 23 \<noteq> CHR ''-''
      then Inl ErrInvalid
      else case decode_segments s parse_segments of
             None \<Rightarrow> Inl ErrInvalid
           | Some u \<Rightarrow> if IsNil u then Inl ErrInvalid else Inr u)"

text \<open>\<^verbatim>\<open>MustParse\<close> panics where \<^verbatim>\<open>Parse\<close> fails: \<^term>\<open>None\<close> is the panic.\<close>

definition MustParse :: "string \<Rightarrow> uuid option" where
  "MustParse s = (case Parse s of Inl e \<Rightarrow> None | Inr u \<Rightarrow> Some u)"

definition MarshalText :: "uuid \<Rightarrow> string" where
  "MarshalText u = String u"

text \<open>\<^verbatim>\<open>UnmarshalText\<close> leaves the receiver as it is when the text does not parse.\<close>

definition UnmarshalText :: "uuid \<Rightarrow> string \<Rightarrow> uuid \<times> unit result" where
  "UnmarshalText u text =
     (case Parse text of Inl e \<Rightarrow> (u, Inl e) | Inr parsed \<Rightarrow> (parsed, Inr ()))"

text \<open>\<^verbatim>\<open>bytes.Compare\<close> on the two arrays.\<close>

fun bytes_compare :: "byte list \<Rightarrow> byte list \<Rightarrow> int" where
  "bytes_compare [] [] = 0"
| "bytes_compare [] (y # ys) = -1"
| "bytes_compare (x # xs) [] = 1"
| "bytes_compare (x # xs) (y # ys) =
     (if x < y then -1 else if y < x then 1 else bytes_compare xs ys)"

definition Compare :: "uuid \<Rightarrow> uuid \<Rightarrow> int" where
  "Compare a b = bytes_compare a b"

section \<open>Text round trips\<close>

lemma nibble_cases:
  fixes n :: byte
  assumes "n < 16"
  shows "n \<in> {0, 1, 2, 3, 4, 5, 6, 7, 8, 9, 10, 11, 12, 13, 14, 15}"
proof -
  from assms have "unat n < 16" by (simp add: word_less_nat_alt)
  then have "unat n \<in> {0, 1, 2, 3, 4, 5, 6, 7, 8, 9, 10, 11, 12, 13, 14, 15}"
    by (simp only: insert_iff empty_iff) presburger
  then have "(of_nat (unat n) :: byte) \<in> of_nat ` {0, 1, 2, 3, 4, 5, 6, 7, 8, 9, 10, 11, 12, 13, 14, 15}"
    by (rule imageI)
  then show ?thesis by simp
qed

lemma from_hex_digit [simp]: "n < 16 \<Longrightarrow> from_hex_char (hex_digit n) = Some n"
  by (drule nibble_cases) (elim insertE emptyE; simp add: hex_digit_def from_hex_char_def Let_def)

lemma high_nibble: "drop_bit 4 (b :: byte) < 16"
proof -
  have "unat b < 256" using unsigned_less[of b, where ?'a = nat] by simp
  then show ?thesis by (simp add: word_less_nat_alt drop_bit_eq_div unat_div)
qed

lemma low_nibble: "(b :: byte) AND 15 < 16"
  by (rule le_less_trans [OF word_and_le1]) simp

lemma join_nibbles: "push_bit 4 (drop_bit 4 (b :: byte)) OR (b AND 15) = b"
proof -
  have "b AND 15 = take_bit 4 b" by (simp add: take_bit_eq_mask mask_eq_exp_minus_1)
  then show ?thesis by (auto intro!: bit_word_eqI simp: bit_simps)
qed

lemma hex_decode_encode [simp]: "hex_decode (hex_encode bs) = Some bs"
  by (induction bs) (simp_all add: high_nibble low_nibble join_nibbles)

lemma length_hex_encode [simp]: "length (hex_encode bs) = 2 * length bs"
  by (induction bs) auto

lemma hex_char_cases:
  assumes "from_hex_char c = Some x"
  shows "c \<in> set ''0123456789abcdefABCDEF''"
proof -
  let ?n = "of_char c :: nat"
  have w: "unat (of_char c :: byte) = ?n"
    using of_nat_of_char[where ?'a = "8 word", of c, symmetric]
    by (simp add: unat_of_nat del: of_nat_of_char)
  from assms have "(48 \<le> ?n \<and> ?n \<le> 57) \<or> (97 \<le> ?n \<and> ?n \<le> 102) \<or> (65 \<le> ?n \<and> ?n \<le> 70)"
    by (auto simp: from_hex_char_def Let_def word_le_nat_alt w split: if_splits)
  then have "?n \<in> set ([48..<58] @ [97..<103] @ [65..<71])"
    by (simp only: set_append set_upt atLeastLessThan_iff Un_iff) linarith
  then have "?n \<in> of_char ` set ''0123456789abcdefABCDEF''"
    by (simp del: set_upt)
  then show ?thesis by (simp only: inj_image_mem_iff [OF inj_of_char])
qed

lemma from_hex_char_Some:
  "from_hex_char c = Some x \<Longrightarrow> x < 16 \<and> hex_digit x = lower_char c"
  by (frule hex_char_cases)
    (simp only: list.set, elim insertE emptyE;
     simp add: hex_digit_def from_hex_char_def Let_def)

lemma split_nibbles:
  fixes x y :: byte
  assumes "x < 16" "y < 16"
  shows "drop_bit 4 (push_bit 4 x OR y) = x" and "(push_bit 4 x OR y) AND 15 = y"
proof -
  from assms have x: "take_bit 4 x = x" and y: "take_bit 4 y = y"
    by (simp_all add: take_bit_eq_mod word_less_nat_alt mod_word_less)
  have bx: "n < 4" if "bit x n" for n
    using that bit_take_bit_iff[of 4 x n] by (simp add: x)
  have by': "n < 4" if "bit y n" for n
    using that bit_take_bit_iff[of 4 y n] by (simp add: y)
  show "drop_bit 4 (push_bit 4 x OR y) = x"
    by (rule bit_word_eqI) (auto simp: bit_simps dest: bx by')
  have "(push_bit 4 x OR y) AND 15 = take_bit 4 (push_bit 4 x OR y)"
    by (simp add: take_bit_eq_mask mask_eq_exp_minus_1)
  also have "\<dots> = y"
    by (rule bit_word_eqI) (auto simp: bit_simps dest: by')
  finally show "(push_bit 4 x OR y) AND 15 = y" .
qed

lemma hex_encode_decode: "hex_decode s = Some bs \<Longrightarrow> hex_encode bs = map lower_char s"
  by (induction s arbitrary: bs rule: hex_decode.induct)
    (auto simp: split_nibbles simp del: drop_bit_or dest!: from_hex_char_Some split: option.splits)

lemma length_hex_decode: "hex_decode s = Some bs \<Longrightarrow> length s = 2 * length bs"
  by (induction s arbitrary: bs rule: hex_decode.induct) (auto split: option.splits)

lemma length_slice [simp]: "length (slice lo hi xs) = min (hi - lo) (length xs - lo)"
  by (simp add: slice_def)

lemma wf_slices:
  assumes "wf_uuid u"
  shows "slice 0 4 u @ slice 4 6 u @ slice 6 8 u @ slice 8 10 u @ slice 10 16 u = u"
proof -
  have "take 4 u @ take 2 (drop 4 u) @ take 2 (drop 2 (drop 4 u)) @ take 2 (drop 2 (drop 2 (drop 4 u)))
        @ drop 2 (drop 2 (drop 2 (drop 4 u))) = u"
    by (simp only: append_take_drop_id)
  with assms show ?thesis by (simp add: slice_def wf_uuid_def)
qed

lemma hyphenated_slices:
  assumes "length A = 8" "length B = 4" "length C = 4" "length D = 4" "length E = 12"
    and s: "s = A @ ''-'' @ B @ ''-'' @ C @ ''-'' @ D @ ''-'' @ E"
  shows "length s = 36"
    and "s ! 8 = CHR ''-''" "s ! 13 = CHR ''-''" "s ! 18 = CHR ''-''" "s ! 23 = CHR ''-''"
    and "slice 0 8 s = A" "slice 9 13 s = B" "slice 14 18 s = C" "slice 19 23 s = D"
    and "slice 24 36 s = E"
  using assms(1-5) unfolding s by (simp_all add: nth_append slice_def)

lemma String_segments:
  assumes "wf_uuid u"
  shows "length (String u) = 36"
    and "String u ! 8 = CHR ''-''" "String u ! 13 = CHR ''-''" "String u ! 18 = CHR ''-''" "String u ! 23 = CHR ''-''"
    and "slice 0 8 (String u) = hex_encode (slice 0 4 u)"
    and "slice 9 13 (String u) = hex_encode (slice 4 6 u)"
    and "slice 14 18 (String u) = hex_encode (slice 6 8 u)"
    and "slice 19 23 (String u) = hex_encode (slice 8 10 u)"
    and "slice 24 36 (String u) = hex_encode (slice 10 16 u)"
proof -
  from assms have l: "length (hex_encode (slice 0 4 u)) = 8" "length (hex_encode (slice 4 6 u)) = 4"
    "length (hex_encode (slice 6 8 u)) = 4" "length (hex_encode (slice 8 10 u)) = 4"
    "length (hex_encode (slice 10 16 u)) = 12"
    by (simp_all add: wf_uuid_def)
  note seg = hyphenated_slices [OF l String_def]
  show "length (String u) = 36" "String u ! 8 = CHR ''-''" "String u ! 13 = CHR ''-''"
    "String u ! 18 = CHR ''-''" "String u ! 23 = CHR ''-''"
    "slice 0 8 (String u) = hex_encode (slice 0 4 u)" "slice 9 13 (String u) = hex_encode (slice 4 6 u)"
    "slice 14 18 (String u) = hex_encode (slice 6 8 u)" "slice 19 23 (String u) = hex_encode (slice 8 10 u)"
    "slice 24 36 (String u) = hex_encode (slice 10 16 u)"
    by (fact seg)+
qed

lemma Parse_String_wf: "wf_uuid u \<Longrightarrow> \<not> IsNil u \<Longrightarrow> Parse (String u) = Inr u"
  by (simp add: Parse_def String_segments parse_segments_def wf_slices)

lemma drop_step: "n + k \<le> length s \<Longrightarrow> drop n s = slice n (n + k) s @ drop (n + k) s"
  by (simp add: slice_def add.commute flip: drop_drop)

lemma hyphenated_parts:
  assumes "length s = 36"
  shows "s = slice 0 8 s @ [s ! 8] @ slice 9 13 s @ [s ! 13] @ slice 14 18 s @ [s ! 18]
     @ slice 19 23 s @ [s ! 23] @ slice 24 36 s"
proof -
  have c: "drop n s = s ! n # drop (Suc n) s" if "n < 36" for n
    using that assms by (simp add: Cons_nth_drop_Suc)
  have "s = slice 0 8 s @ drop 8 s" using drop_step[of 0 8 s] assms by simp
  also have "drop 8 s = s ! 8 # drop 9 s" using c[of 8] by simp
  also have "drop 9 s = slice 9 13 s @ drop 13 s" using drop_step[of 9 4 s] assms by simp
  also have "drop 13 s = s ! 13 # drop 14 s" using c[of 13] by simp
  also have "drop 14 s = slice 14 18 s @ drop 18 s" using drop_step[of 14 4 s] assms by simp
  also have "drop 18 s = s ! 18 # drop 19 s" using c[of 18] by simp
  also have "drop 19 s = slice 19 23 s @ drop 23 s" using drop_step[of 19 4 s] assms by simp
  also have "drop 23 s = s ! 23 # drop 24 s" using c[of 23] by simp
  also have "drop 24 s = slice 24 36 s @ []" using drop_step[of 24 12 s] assms by simp
  finally show ?thesis by simp
qed

lemma sixteen_slices:
  assumes "length a = 4" "length b = 2" "length c = 2" "length d = 2" "length e = 6"
    and u: "u = a @ b @ c @ d @ e"
  shows "slice 0 4 u = a" "slice 4 6 u = b" "slice 6 8 u = c" "slice 8 10 u = d" "slice 10 16 u = e"
  using assms(1-5) unfolding u by (simp_all add: slice_def)

lemma Parse_InrD:
  assumes "Parse s = Inr u"
  shows "wf_uuid u" "\<not> IsNil u" "String u = map lower_char s"
proof -
  from assms have len: "length s = 36"
    and hy: "s ! 8 = CHR ''-''" "s ! 13 = CHR ''-''" "s ! 18 = CHR ''-''" "s ! 23 = CHR ''-''"
    and nn: "\<not> IsNil u" and dec: "decode_segments s parse_segments = Some u"
    by (auto simp: Parse_def split: if_splits option.splits)
  from dec obtain a b c d e where
    h: "hex_decode (slice 0 8 s) = Some a" "hex_decode (slice 9 13 s) = Some b"
      "hex_decode (slice 14 18 s) = Some c" "hex_decode (slice 19 23 s) = Some d"
      "hex_decode (slice 24 36 s) = Some e"
    and u: "u = a @ b @ c @ d @ e"
    by (auto simp: parse_segments_def split: option.splits)
  have l: "length a = 4" "length b = 2" "length c = 2" "length d = 2" "length e = 6"
    using h[THEN length_hex_decode] len by simp_all
  show "\<not> IsNil u" by (fact nn)
  show "wf_uuid u" using l by (simp add: wf_uuid_def u)
  have "String u = hex_encode a @ ''-'' @ hex_encode b @ ''-'' @ hex_encode c @ ''-'' @ hex_encode d
      @ ''-'' @ hex_encode e"
    unfolding String_def using sixteen_slices [OF l u] by simp
  also have "\<dots> = map lower_char (slice 0 8 s @ ''-'' @ slice 9 13 s @ ''-'' @ slice 14 18 s @ ''-''
      @ slice 19 23 s @ ''-'' @ slice 24 36 s)"
    using h[THEN hex_encode_decode] by simp
  also have "\<dots> = map lower_char s"
    using hyphenated_parts [OF len] by (simp add: hy)
  finally show "String u = map lower_char s" .
qed

section \<open>The byte order\<close>

text \<open>The big-endian number a byte list writes; \<^const>\<open>Compare\<close> compares these numbers.\<close>

fun be_val :: "byte list \<Rightarrow> nat" where
  "be_val [] = 0"
| "be_val (b # bs) = unat b * 256 ^ length bs + be_val bs"

lemma unat_byte_less [simp]: "unat (b :: byte) < 256"
  using unsigned_less[of b, where ?'a = nat] by simp

lemma be_val_less: "be_val bs < 256 ^ length bs"
proof (induction bs)
  case (Cons b bs)
  have "unat b * 256 ^ length bs + be_val bs < (unat b + 1) * 256 ^ length bs"
    using Cons.IH by simp
  also have "\<dots> \<le> 256 * 256 ^ length bs"
    using unat_byte_less[of b] by (intro mult_right_mono) linarith+
  finally show ?case by simp
qed simp

lemma be_val_cons_less:
  "length xs = length ys \<Longrightarrow> x < y \<Longrightarrow> be_val (x # xs) < be_val (y # ys)"
proof -
  assume l: "length xs = length ys" and "x < y"
  then have "unat x + 1 \<le> unat y" by (simp add: word_less_nat_alt)
  then have "(unat x + 1) * 256 ^ length ys \<le> unat y * 256 ^ length ys"
    by (rule mult_right_mono) simp
  moreover have "be_val xs < 256 ^ length ys" using be_val_less[of xs] l by simp
  ultimately show ?thesis using l by (simp add: algebra_simps)
qed

lemma bytes_compare_be_val:
  "length xs = length ys \<Longrightarrow> bytes_compare xs ys = sgn (int (be_val xs) - int (be_val ys))"
proof (induction xs ys rule: bytes_compare.induct)
  case (4 x xs y ys)
  then have l: "length xs = length ys" by simp
  consider "x < y" | "y < x" | "x = y" by (rule linorder_cases)
  then show ?case
  proof cases
    case 1
    then show ?thesis using be_val_cons_less[OF l 1] by (simp del: be_val.simps)
  next
    case 2
    then show ?thesis using be_val_cons_less[OF l[symmetric] 2] by (simp del: be_val.simps)
  next
    case 3
    then show ?thesis using "4.IH" l by simp
  qed
qed simp_all

lemma be_val_inj: "length xs = length ys \<Longrightarrow> be_val xs = be_val ys \<Longrightarrow> xs = ys"
proof (induction xs ys rule: list_induct2)
  case (Cons x xs y ys)
  have "x = y"
    using be_val_cons_less[of xs ys x y] be_val_cons_less[of ys xs y x] Cons.hyps Cons.prems
    by (metis less_irrefl linorder_less_linear)
  with Cons show ?case by simp
qed simp

lemma be_val_append: "be_val (xs @ ys) = be_val xs * 256 ^ length ys + be_val ys"
  by (induction xs) (simp_all add: power_add algebra_simps)

lemma be_val_8:
  "be_val [a, b, c, d, e, f, g, h] =
     ((unat a * 2 ^ 40 + unat b * 2 ^ 32 + unat c * 2 ^ 24 + unat d * 2 ^ 16 + unat e * 2 ^ 8 + unat f) * 2 ^ 16)
     + unat g * 2 ^ 8 + unat h"
  by (simp add: algebra_simps)

section \<open>Generation\<close>

text \<open>
  The millisecond of a generator state is a 48-bit number and the counter stays in 12 bits;
  the clock is assumed to stay below 2^48 ms, the year 10889.
\<close>

definition wf_generator :: "generator \<Rightarrow> bool" where
  "wf_generator g \<longleftrightarrow> lastMS g < 2 ^ 48 \<and> sequence g \<le> maxSequence"

definition clock48 :: "64 word list \<Rightarrow> bool" where
  "clock48 clock \<longleftrightarrow> (\<forall>ms \<in> set clock. sint ms < 2 ^ 48)"

text \<open>The 64 bits that lead the identifier, as a number.\<close>

definition head_val :: "64 word \<Rightarrow> 16 word \<Rightarrow> nat" where
  "head_val ms sq = unat ms * 2 ^ 16 + 0x7000 + unat sq"

lemma or_version: "x < 16 \<Longrightarrow> unat (0x70 OR x :: byte) = 0x70 + unat x"
  by (drule nibble_cases) (elim insertE emptyE; simp)

lemma six_bytes:
  fixes m :: nat
  assumes "m < 2 ^ 48"
  shows "(m div 2 ^ 40 mod 256) * 2 ^ 40 + (m div 2 ^ 32 mod 256) * 2 ^ 32 + (m div 2 ^ 24 mod 256) * 2 ^ 24
    + (m div 2 ^ 16 mod 256) * 2 ^ 16 + (m div 2 ^ 8 mod 256) * 2 ^ 8 + m mod 256 = m"
proof -
  define q1 q2 q3 q4 q5 where "q1 = m div 256" and "q2 = q1 div 256" and "q3 = q2 div 256"
    and "q4 = q3 div 256" and "q5 = q4 div 256"
  have e: "m = 256 * q1 + m mod 256" "q1 = 256 * q2 + q1 mod 256" "q2 = 256 * q3 + q2 mod 256"
    "q3 = 256 * q4 + q3 mod 256" "q4 = 256 * q5 + q4 mod 256"
    by (simp_all add: q1_def q2_def q3_def q4_def q5_def)
  have d: "m div 2 ^ 8 = q1" "m div 2 ^ 16 = q2" "m div 2 ^ 24 = q3" "m div 2 ^ 32 = q4" "m div 2 ^ 40 = q5"
    by (simp_all add: q1_def q2_def q3_def q4_def q5_def div_mult2_eq [symmetric])
  have "q5 < 256" using assms d(5) by (simp add: less_mult_imp_div_less)
  then show ?thesis unfolding d using e by simp
qed

lemma layout_head:
  assumes "ms < 2 ^ 48" "sq \<le> maxSequence"
  shows "be_val (take 8 (layout_v7 ms sq rnd)) = head_val ms sq"
proof -
  let ?m = "unat ms" and ?s = "unat sq"
  have m: "?m < 2 ^ 48" using assms(1) by (simp add: word_less_nat_alt)
  have s: "?s < 2 ^ 12" using assms(2) by (simp add: word_le_nat_alt maxSequence_def)
  have "\<not> bit ?m 63" using m by (simp add: bit_iff_odd)
  then have "\<not> bit ms 63" by (simp add: bit_unsigned_iff)
  then have sd: "signed_drop_bit n ms = drop_bit n ms" for n
    by (intro bit_word_eqI) (auto simp: bit_simps dest: bit_imp_le_length)
  have u: "unat (ucast (drop_bit n ms) :: byte) = ?m div 2 ^ n mod 256" for n
    by (simp only: unsigned_ucast_eq unat_drop_bit_eq) (simp add: drop_bit_eq_div take_bit_eq_mod)
  have u0: "unat (ucast ms :: byte) = ?m mod 256"
    by (simp add: unsigned_ucast_eq take_bit_eq_mod)
  have h: "unat (ucast sq :: byte) = ?s mod 256"
    by (simp add: unsigned_ucast_eq take_bit_eq_mod)
  have g: "unat (0x70 OR ucast ((drop_bit 8 sq) AND 0x0F) :: byte) = 0x70 + ?s div 256"
  proof -
    have d: "unat (drop_bit 8 sq) = ?s div 256" by (simp only: unat_drop_bit_eq) (simp add: drop_bit_eq_div)
    have "?s div 256 < 16" using s by (simp add: less_mult_imp_div_less)
    have "(drop_bit 8 sq) AND 0x0F = take_bit 4 (drop_bit 8 sq)"
      by (simp only: take_bit_eq_mask) (simp add: mask_eq_exp_minus_1)
    also have "unat \<dots> = ?s div 256"
      using \<open>?s div 256 < 16\<close> by (simp only: unsigned_take_bit_eq d) (simp add: take_bit_eq_mod)
    finally have a: "unat ((drop_bit 8 sq) AND 0x0F) = ?s div 256" .
    then have b: "unat (ucast ((drop_bit 8 sq) AND 0x0F) :: byte) = ?s div 256"
      using \<open>?s div 256 < 16\<close> by (simp only: unsigned_ucast_eq) (simp add: take_bit_eq_mod)
    then have "(ucast ((drop_bit 8 sq) AND 0x0F) :: byte) < 16"
      using \<open>?s div 256 < 16\<close> by (simp add: word_less_nat_alt)
    from or_version [OF this] b show ?thesis by simp
  qed
  have "take 8 (layout_v7 ms sq rnd) =
     [ucast (drop_bit 40 ms), ucast (drop_bit 32 ms), ucast (drop_bit 24 ms), ucast (drop_bit 16 ms),
      ucast (drop_bit 8 ms), ucast ms, 0x70 OR ucast ((drop_bit 8 sq) AND 0x0F), ucast sq]"
    unfolding layout_v7_def sd by simp
  then have "be_val (take 8 (layout_v7 ms sq rnd)) =
     ((?m div 2 ^ 40 mod 256) * 2 ^ 40 + (?m div 2 ^ 32 mod 256) * 2 ^ 32 + (?m div 2 ^ 24 mod 256) * 2 ^ 24
      + (?m div 2 ^ 16 mod 256) * 2 ^ 16 + (?m div 2 ^ 8 mod 256) * 2 ^ 8 + ?m mod 256) * 2 ^ 16
     + (0x70 + ?s div 256) * 2 ^ 8 + ?s mod 256"
    by (simp only: be_val_8 u u0 g h)
  also have "\<dots> = ?m * 2 ^ 16 + (0x70 + ?s div 256) * 2 ^ 8 + ?s mod 256"
    by (simp only: six_bytes [OF m])
  also have "\<dots> = head_val ms sq"
    by (simp add: head_val_def)
  finally show ?thesis .
qed

lemma sint_positive:
  assumes "\<not> bit (w :: 64 word) 63"
  shows "sint w = int (unat w)"
proof -
  have "n < 63" if "bit w n" for n
    using that assms bit_imp_le_length[OF that] by (cases "n = 63") auto
  then have "take_bit 63 (uint w) = uint w"
    by (intro bit_eqI) (auto simp: bit_simps)
  moreover have "\<not> bit (uint w) 63" using assms by (simp add: bit_unsigned_iff)
  ultimately show ?thesis by (simp add: sint_uint signed_take_bit_eq_if_positive)
qed

lemma sint_small: "(w :: 64 word) < 2 ^ 48 \<Longrightarrow> sint w = int (unat w)"
proof (rule sint_positive)
  assume "w < 2 ^ 48"
  then have "\<not> bit (unat w) 63" by (simp add: bit_iff_odd word_less_nat_alt)
  then show "\<not> bit w 63" by (simp add: bit_unsigned_iff)
qed

lemma unat_of_sint: "0 \<le> sint (w :: 64 word) \<Longrightarrow> int (unat w) = sint w"
  using sint_positive[of w] bit_last_iff[of w] by simp

lemma nextSequence_step:
  assumes "nextSequence g clock = Some (g', ms, sq, clock')" "wf_generator g" "clock48 clock"
  shows "wf_generator g'" "ms = lastMS g'" "sq = sequence g'" "clock48 clock'"
    and "head_val (lastMS g) (sequence g) < head_val ms sq"
proof -
  have "wf_generator g' \<and> ms = lastMS g' \<and> sq = sequence g' \<and> clock48 clock'
     \<and> head_val (lastMS g) (sequence g) < head_val ms sq"
    using assms
  proof (induction g clock rule: nextSequence.induct)
    case (2 g now clock)
    have c: "clock48 clock" using "2.prems"(3) by (simp add: clock48_def)
    have lm: "sint (lastMS g) = int (unat (lastMS g))"
      using "2.prems"(2) by (simp add: wf_generator_def sint_small)
    have sq: "unat (sequence g) \<le> 0xFFF"
      using "2.prems"(2) by (simp add: wf_generator_def maxSequence_def word_le_nat_alt)
    consider (tick) "sint now > sint (lastMS g)"
      | (count) "\<not> sint now > sint (lastMS g)" "sequence g < maxSequence"
      | (wait) "\<not> sint now > sint (lastMS g)" "\<not> sequence g < maxSequence" by blast
    then show ?case
    proof cases
      case tick
      then have n: "int (unat now) = sint now" using lm by (intro unat_of_sint) linarith
      have "sint now < 2 ^ 48" using "2.prems"(3) by (simp add: clock48_def)
      with n have "int (unat now) < 2 ^ 48" by linarith
      then have "now < 2 ^ 48" by (simp add: word_less_def)
      moreover have "int (unat (lastMS g)) < int (unat now)" using tick n lm by linarith
      then have "unat (lastMS g) < unat now" by (simp only: of_nat_less_iff)
      ultimately show ?thesis
        using tick "2.prems"(1) c sq by (auto simp: wf_generator_def head_val_def maxSequence_def)
    next
      case count
      then have "unat (sequence g) < 0xFFF" by (simp add: maxSequence_def word_less_nat_alt)
      then have "unat (sequence g + 1) = unat (sequence g) + 1" by (simp add: unat_word_ariths)
      with count show ?thesis
        using "2.prems"(1,2) c \<open>unat (sequence g) < 0xFFF\<close>
        by (auto simp: wf_generator_def head_val_def maxSequence_def word_le_nat_alt)
    next
      case wait
      then have "nextSequence g clock = Some (g', ms, sq, clock')" using "2.prems"(1) by simp
      then show ?thesis using "2.IH" wait "2.prems"(2) c by blast
    qed
  qed simp
  then show "wf_generator g'" "ms = lastMS g'" "sq = sequence g'" "clock48 clock'"
    "head_val (lastMS g) (sequence g) < head_val ms sq" by blast+
qed

lemma nextSequence_returns_iff:
  "nextSequence g clock \<noteq> None \<longleftrightarrow>
     clock \<noteq> [] \<and> (sequence g < maxSequence \<or> (\<exists>ms \<in> set clock. sint ms > sint (lastMS g)))"
  by (induction g clock rule: nextSequence.induct) auto

lemma length_layout_v7: "length rnd = 8 \<Longrightarrow> length (layout_v7 ms sq rnd) = 16"
  by (simp add: layout_v7_def)

lemma layout_version:
  assumes "ms < 2 ^ 48" "sq \<le> maxSequence"
  shows "Version (layout_v7 ms sq rnd) = 7"
proof -
  have "(ucast ((drop_bit 8 sq) AND 0x0F) :: byte) = take_bit 4 (ucast (drop_bit 8 sq))"
  proof -
    have "(drop_bit 8 sq) AND 0x0F = take_bit 4 (drop_bit 8 sq)"
      by (simp only: take_bit_eq_mask) (simp add: mask_eq_exp_minus_1)
    then show ?thesis by (auto intro!: bit_word_eqI simp: bit_simps)
  qed
  then have "(ucast ((drop_bit 8 sq) AND 0x0F) :: byte) < 16"
    by (simp add: take_bit_eq_mod word_less_nat_alt unat_mod)
  from or_version [OF this] have "unat (0x70 OR ucast ((drop_bit 8 sq) AND 0x0F) :: byte) div 16 = 7"
    using \<open>_ < 16\<close> by (simp add: word_less_nat_alt)
  then show ?thesis
    unfolding Version_def layout_v7_def by (simp only: unat_drop_bit_eq) (simp add: drop_bit_eq_div)
qed

lemma layout_variant: "Variant (layout_v7 ms sq rnd) = 2"
proof -
  have "drop_bit 6 (((rnd ! 0) AND 0x3F) OR 0x80 :: byte) = 2"
  proof -
    have "(rnd ! 0) AND 0x3F = take_bit 6 (rnd ! 0)"
      by (simp only: take_bit_eq_mask) (simp add: mask_eq_exp_minus_1)
    then have "drop_bit 6 ((rnd ! 0) AND 0x3F) = 0"
      by (auto intro!: bit_word_eqI simp: bit_simps)
    then show ?thesis by simp
  qed
  then show ?thesis by (simp add: Variant_def layout_v7_def)
qed

lemma bit_byte_at:
  fixes ms :: "64 word"
  assumes "\<not> bit ms 63" "k \<le> 40"
  shows "bit (push_bit k (ucast (ucast (signed_drop_bit k ms) :: byte)) :: 64 word) n
     \<longleftrightarrow> k \<le> n \<and> n < k + 8 \<and> bit ms n"
  using assms by (auto simp: bit_simps)

lemma layout_timestamp:
  assumes "ms < 2 ^ 48"
  shows "Timestamp_ms (layout_v7 ms sq rnd) = ms"
proof -
  have b: "n < 48" if "bit ms n" for n
  proof (rule ccontr)
    assume "\<not> n < 48"
    then have "(2::nat) ^ 48 \<le> 2 ^ n" by (intro power_increasing) auto
    then have "\<not> bit (unat ms) n" using assms by (simp add: bit_iff_odd word_less_nat_alt)
    with that show False by (simp add: bit_unsigned_iff)
  qed
  then have n63: "\<not> bit ms 63" by fastforce
  note at = bit_byte_at [OF n63]
  show ?thesis
  proof (rule bit_word_eqI)
    fix n
    have "bit (Timestamp_ms (layout_v7 ms sq rnd)) n \<longleftrightarrow>
      (40 \<le> n \<and> n < 48 \<and> bit ms n) \<or> (32 \<le> n \<and> n < 40 \<and> bit ms n) \<or> (24 \<le> n \<and> n < 32 \<and> bit ms n)
      \<or> (16 \<le> n \<and> n < 24 \<and> bit ms n) \<or> (8 \<le> n \<and> n < 16 \<and> bit ms n) \<or> (n < 8 \<and> bit ms n)"
      using at[of 40 n] at[of 32 n] at[of 24 n] at[of 16 n] at[of 8 n] at[of 0 n]
      by (simp add: Timestamp_ms_def layout_v7_def bit_or_iff)
    also have "\<dots> \<longleftrightarrow> bit ms n" using b[of n] by linarith
    finally show "bit (Timestamp_ms (layout_v7 ms sq rnd)) n = bit ms n" .
  qed
qed

text \<open>
  A run of calls: the identifiers the successful calls return, in order. The readings a call
  does not use are there for the next.
\<close>

fun NewV7_calls :: "generator \<Rightarrow> 64 word list \<Rightarrow> byte list result list \<Rightarrow> uuid list" where
  "NewV7_calls g clock [] = []"
| "NewV7_calls g clock (r # rs) =
     (case NewV7 g clock r of
        None \<Rightarrow> []
      | Some (g', Inl e, clock') \<Rightarrow> NewV7_calls g' clock' rs
      | Some (g', Inr u, clock') \<Rightarrow> u # NewV7_calls g' clock' rs)"

definition eight_bytes :: "byte list result \<Rightarrow> bool" where
  "eight_bytes r = (case r of Inl e \<Rightarrow> True | Inr bs \<Rightarrow> length bs = 8)"

lemma Compare_head_less:
  assumes "length a = 16" "length b = 16" "be_val (take 8 a) < be_val (take 8 b)"
  shows "Compare a b < 0"
proof -
  have "be_val a = be_val (take 8 a) * 256 ^ 8 + be_val (drop 8 a)"
    using be_val_append[of "take 8 a" "drop 8 a"] assms(1) by simp
  moreover have "be_val b = be_val (take 8 b) * 256 ^ 8 + be_val (drop 8 b)"
    using be_val_append[of "take 8 b" "drop 8 b"] assms(2) by simp
  moreover have "be_val (drop 8 a) < 256 ^ 8"
    using be_val_less[of "drop 8 a"] assms(1) by simp
  moreover have "(be_val (take 8 a) + 1) * 256 ^ 8 \<le> be_val (take 8 b) * 256 ^ 8"
    using assms(3) by (intro mult_right_mono) auto
  ultimately have "be_val a < be_val b" by (simp add: algebra_simps)
  with assms(1,2) show ?thesis by (simp add: Compare_def bytes_compare_be_val)
qed

lemma NewV7_Some:
  assumes "NewV7 g clock (Inr bs) = Some (g', Inr u, clock')" "wf_generator g" "clock48 clock" "length bs = 8"
  shows "wf_generator g'" "clock48 clock'" "length u = 16"
    and "be_val (take 8 u) = head_val (lastMS g') (sequence g')"
    and "head_val (lastMS g) (sequence g) < head_val (lastMS g') (sequence g')"
    and "Version u = 7" "Variant u = 2" "Timestamp_ms u = lastMS g'"
proof -
  from assms(1) obtain ms sq where n: "nextSequence g clock = Some (g', ms, sq, clock')"
    and u: "u = layout_v7 ms sq bs"
    by (auto simp: NewV7_def split: option.splits)
  note step = nextSequence_step [OF n assms(2,3)]
  have b: "ms < 2 ^ 48" "sq \<le> maxSequence" using step(1-3) by (simp_all add: wf_generator_def)
  show "wf_generator g'" "clock48 clock'" by (fact step)+
  show "length u = 16" using assms(4) by (simp add: u length_layout_v7)
  show "be_val (take 8 u) = head_val (lastMS g') (sequence g')"
    using layout_head [OF b] step(2,3) by (simp add: u)
  show "head_val (lastMS g) (sequence g) < head_val (lastMS g') (sequence g')" using step by simp
  show "Version u = 7" "Variant u = 2" using layout_version [OF b] by (simp_all add: u layout_variant)
  show "Timestamp_ms u = lastMS g'" using layout_timestamp [OF b(1)] step(2) by (simp add: u)
qed

lemma NewV7_calls_above:
  assumes "wf_generator g" "clock48 clock" "list_all eight_bytes rs" "u \<in> set (NewV7_calls g clock rs)"
  shows "length u = 16 \<and> head_val (lastMS g) (sequence g) < be_val (take 8 u)"
  using assms
proof (induction g clock rs rule: NewV7_calls.induct)
  case (2 g clock r rs)
  from "2.prems"(4) obtain g' x clock' where n: "NewV7 g clock r = Some (g', x, clock')"
    by (cases "NewV7 g clock r") auto
  then obtain ms sq where nx: "nextSequence g clock = Some (g', ms, sq, clock')"
    by (auto simp: NewV7_def split: option.splits sum.splits)
  note step = nextSequence_step [OF nx "2.prems"(1,2)]
  have rest: "length u = 16 \<and> head_val (lastMS g) (sequence g) < be_val (take 8 u)"
    if "u \<in> set (NewV7_calls g' clock' rs)"
    using "2.IH" [OF n] that step "2.prems"(3)
    by (cases x) fastforce+
  show ?case
  proof (cases x)
    case (Inl e)
    then show ?thesis using "2.prems"(4) n rest by simp
  next
    case (Inr v)
    then obtain bs where r: "r = Inr bs" "length bs = 8"
      using n "2.prems"(3) by (auto simp: NewV7_def eight_bytes_def split: option.splits sum.splits)
    have v: "length v = 16 \<and> head_val (lastMS g) (sequence g) < be_val (take 8 v)"
      using NewV7_Some [of g clock bs g' v clock'] n Inr r "2.prems"(1,2) by simp
    show ?thesis using "2.prems"(4) n Inr rest v by auto
  qed
qed simp

section \<open>Case of the text form\<close>

lemma from_hex_char_lower: "from_hex_char (lower_char c) = from_hex_char c"
proof (cases "65 \<le> (of_char c :: nat) \<and> (of_char c :: nat) \<le> 90")
  case True
  then have "(of_char c :: nat) \<in> set [65..<91]"
    by (simp only: set_upt atLeastLessThan_iff) simp
  then have "c \<in> set ''ABCDEFGHIJKLMNOPQRSTUVWXYZ''"
    unfolding inj_image_mem_iff [OF inj_of_char [where ?'a = nat], of c, symmetric]
    by (simp del: set_upt)
  then show ?thesis
    by (simp only: list.set, elim insertE emptyE; simp add: from_hex_char_def Let_def)
next
  case False
  then show ?thesis by simp
qed

lemma hex_decode_lower: "hex_decode (map lower_char s) = hex_decode s"
  by (induction s rule: hex_decode.induct) (simp_all add: from_hex_char_lower)

lemma lower_char_hyphen [simp]: "lower_char c = CHR ''-'' \<longleftrightarrow> c = CHR ''-''"
proof (cases "65 \<le> (of_char c :: nat) \<and> (of_char c :: nat) \<le> 90")
  case True
  then have "(of_char (lower_char c) :: nat) = of_char c + 32" by (simp add: lower_char_def)
  with True show ?thesis by auto
qed simp

lemma slice_map: "slice lo hi (map f xs) = map f (slice lo hi xs)"
  by (simp add: slice_def take_map drop_map)

lemma Parse_lower: "Parse (map lower_char s) = Parse s"
proof -
  have "decode_segments (map lower_char s) segs = decode_segments s segs" for segs
    by (induction segs) (auto simp: slice_map hex_decode_lower split: option.splits)
  then show ?thesis by (auto simp: Parse_def)
qed

section \<open>Properties\<close>

text \<open>
  C39: the text form determines the identifier and nothing else. \<^verbatim>\<open>Parse\<close> accepts exactly
  the canonical texts of the non-nil identifiers, in either case of the hex digits, and returns
  the identifier whose \<^verbatim>\<open>String\<close> is that text in lower case; in particular parsing inverts
  \<^verbatim>\<open>String\<close>, and the nil identifier has no text that parses.
\<close>

theorem Parse_iff_String:
  "Parse s = Inr u \<longleftrightarrow> wf_uuid u \<and> \<not> IsNil u \<and> map lower_char s = String u"
proof
  assume "Parse s = Inr u"
  then show "wf_uuid u \<and> \<not> IsNil u \<and> map lower_char s = String u" by (simp add: Parse_InrD)
next
  assume r: "wf_uuid u \<and> \<not> IsNil u \<and> map lower_char s = String u"
  then have "Parse (map lower_char s) = Inr u" by (simp add: Parse_String_wf)
  then show "Parse s = Inr u" by (simp only: Parse_lower)
qed

text \<open>
  C25: within a process every identifier sorts after all identifiers generated before it, whatever
  the wall clock does between calls (it may stand still or run backwards) and whatever the random
  bytes are, also across calls whose random source failed.
\<close>

theorem NewV7_strictly_ordered:
  assumes "wf_generator g" "clock48 clock" "list_all eight_bytes rs"
  shows "sorted_wrt (\<lambda>a b. Compare a b < 0) (NewV7_calls g clock rs)"
  using assms
proof (induction g clock rs rule: NewV7_calls.induct)
  case (2 g clock r rs)
  show ?case
  proof (cases "NewV7 g clock r")
    case (Some y)
    then obtain g' x clock' where n: "NewV7 g clock r = Some (g', x, clock')" by (cases y) auto
    then obtain ms sq where nx: "nextSequence g clock = Some (g', ms, sq, clock')"
      by (auto simp: NewV7_def split: option.splits sum.splits)
    note step = nextSequence_step [OF nx "2.prems"(1,2)]
    have IH: "sorted_wrt (\<lambda>a b. Compare a b < 0) (NewV7_calls g' clock' rs)"
      using "2.IH" [OF n] step "2.prems"(3) by (cases x) auto
    show ?thesis
    proof (cases x)
      case (Inl e)
      then show ?thesis using n IH by simp
    next
      case (Inr v)
      then obtain bs where r: "r = Inr bs" "length bs = 8"
        using n "2.prems"(3) by (auto simp: NewV7_def eight_bytes_def split: option.splits sum.splits)
      note new = NewV7_Some [OF n [unfolded r Inr] "2.prems"(1,2) r(2)]
      have "Compare v u < 0" if "u \<in> set (NewV7_calls g' clock' rs)" for u
        using NewV7_calls_above [OF new(1,2) _ that] new(3,4) "2.prems"(3)
        by (intro Compare_head_less) auto
      then show ?thesis using n Inr IH by simp
    qed
  qed simp
qed simp

theorem NewV7_strictly_ordered_witness:
  "clock48 [5, 4] \<and>
   sorted_wrt (\<lambda>a b. Compare a b < 0)
     (NewV7_calls init_generator [5, 4] [Inr (replicate 8 255), Inr (replicate 8 0)])"
proof -
  have c: "clock48 [5, 4]" by (simp add: clock48_def)
  have "sorted_wrt (\<lambda>a b. Compare a b < 0)
     (NewV7_calls init_generator [5, 4] [Inr (replicate 8 255), Inr (replicate 8 0)])"
    by (rule NewV7_strictly_ordered [OF _ c])
      (simp_all add: wf_generator_def init_generator_def maxSequence_def eight_bytes_def)
  with c show ?thesis by simp
qed

text \<open>
  C40: generation returns as soon as it can order the new identifier: with counter left it needs
  one look at the clock, and with the counter exhausted it returns exactly when a later reading
  shows a later millisecond.
\<close>

theorem NewV7_returns:
  "NewV7 g clock rnd \<noteq> None \<longleftrightarrow>
     clock \<noteq> [] \<and> (sequence g < maxSequence \<or> (\<exists>ms. ms \<in> set clock \<and> sint ms > sint (lastMS g)))"
proof -
  have "NewV7 g clock rnd \<noteq> None \<longleftrightarrow> nextSequence g clock \<noteq> None"
    by (auto simp: NewV7_def split: option.splits sum.splits)
  then show ?thesis using nextSequence_returns_iff [of g clock] by auto
qed

end
