(* ===== verification/Decimal.thy ===== *)
theory Decimal
  imports Prelude
begin

text \<open>
  Decimal text: \<^verbatim>\<open>strconv.Itoa\<close>/\<^verbatim>\<open>FormatInt\<close> and the zero-padded fields of
  \<^verbatim>\<open>time.Format\<close>, with their inverses for the readers \<^const>\<open>atoi\<close> and
  \<^const>\<open>digits_val\<close>. The interface of a value with a text form is the locale
  \<open>text_codec\<close>, which the identifiers and the timestamps interpret.
\<close>

section \<open>The interface of a text form\<close>

locale text_codec =
  fixes print :: "'a \<Rightarrow> string" and parse :: "string \<Rightarrow> 'a option" and valid :: "'a \<Rightarrow> bool"
  assumes parse_print: "valid x \<Longrightarrow> parse (print x) = Some x"
begin

lemma print_inj: "valid x \<Longrightarrow> valid y \<Longrightarrow> print x = print y \<Longrightarrow> x = y"
  using parse_print by (metis option.inject)

lemma parse_None_not_printed: "parse s = None \<Longrightarrow> valid x \<Longrightarrow> print x \<noteq> s"
  using parse_print by force

end

section \<open>Digits\<close>

definition digit_char :: "nat \<Rightarrow> char" where
  "digit_char n = char_of (48 + n)"

text \<open>The \<open>w\<close> low decimal digits, most significant first: Go's \<^verbatim>\<open>appendInt(b, n, w)\<close> for
  \<^verbatim>\<open>n < 10^w\<close>.\<close>

fun fixed_digits :: "nat \<Rightarrow> nat \<Rightarrow> string" where
  "fixed_digits 0 n = []"
| "fixed_digits (Suc w) n = fixed_digits w (n div 10) @ [digit_char (n mod 10)]"

fun show_nat :: "nat \<Rightarrow> string" where
  "show_nat n = (if n < 10 then [digit_char n] else show_nat (n div 10) @ [digit_char (n mod 10)])"

declare show_nat.simps [simp del]

definition show_int :: "int \<Rightarrow> string" where
  "show_int n = (if n < 0 then CHR ''-'' # show_nat (nat (- n)) else show_nat (nat n))"

lemma of_char_digit: "n < 10 \<Longrightarrow> (of_char (digit_char n) :: nat) = 48 + n"
  by (simp add: digit_char_def)

lemma is_digit_digit_char [simp]: "n < 10 \<Longrightarrow> is_digit (digit_char n)"
  by (simp add: is_digit_def of_char_digit)

lemma of_char_int: "(of_char c :: int) = int (of_char c :: nat)"
  by (simp add: of_nat_of_char)

lemma digit_val_digit_char [simp]: "n < 10 \<Longrightarrow> digit_val (digit_char n) = int n"
  by (simp add: digit_val_def of_char_int of_char_digit)

lemma digits_val_snoc [simp]: "digits_val (s @ [c]) = 10 * digits_val s + digit_val c"
  by (simp add: digits_val_def)

lemma digits_val_Nil [simp]: "digits_val [] = 0"
  by (simp add: digits_val_def)

lemma digit_val_range: "is_digit c \<Longrightarrow> 0 \<le> digit_val c \<and> digit_val c < 10"
  by (auto simp: is_digit_def digit_val_def of_char_int)

lemma digits_val_nonneg: "list_all is_digit s \<Longrightarrow> 0 \<le> digits_val s"
  by (induction s rule: rev_induct) (auto dest: digit_val_range)

lemma tens: "10 * int (n div 10) + int (n mod 10) = int n"
  using mult_div_mod_eq[of 10 n] by linarith

lemma length_fixed_digits [simp]: "length (fixed_digits w n) = w"
  by (induction w arbitrary: n) auto

lemma digits_fixed_digits: "list_all is_digit (fixed_digits w n)"
  by (induction w arbitrary: n) (auto simp: list_all_iff)

lemma val_fixed_digits: "n < 10 ^ w \<Longrightarrow> digits_val (fixed_digits w n) = int n"
proof (induction w arbitrary: n)
  case (Suc w)
  then have "n div 10 < 10 ^ w" by (simp add: less_mult_imp_div_less mult.commute)
  with Suc.IH show ?case by (simp add: tens)
qed simp

lemma show_nat_props:
  "list_all is_digit (show_nat n) \<and> show_nat n \<noteq> [] \<and> digits_val (show_nat n) = int n"
proof (induction n rule: show_nat.induct)
  case (1 n)
  show ?case
  proof (cases "n < 10")
    case True
    then show ?thesis by (subst (1 2 3) show_nat.simps) (simp add: digits_val_def)
  next
    case False
    with 1 have ih: "list_all is_digit (show_nat (n div 10))" "digits_val (show_nat (n div 10)) = int (n div 10)" by auto
    have eq: "show_nat n = show_nat (n div 10) @ [digit_char (n mod 10)]"
      using False by (subst show_nat.simps) simp
    show ?thesis unfolding eq using ih by (simp add: tens)
  qed
qed

lemma digit_not_sign: "is_digit c \<Longrightarrow> c \<noteq> CHR ''-'' \<and> c \<noteq> CHR ''+''"
  by (auto simp: is_digit_def)

lemma atoi_digits:
  assumes "ds \<noteq> []" "list_all is_digit ds" "digits_val ds < 2 ^ 63" "0 \<le> digits_val ds"
  shows "atoi ds = Some (digits_val ds)"
proof -
  obtain c cs where ds: "ds = c # cs" using assms(1) by (cases ds) auto
  with assms(2) have "c \<noteq> CHR ''-'' \<and> c \<noteq> CHR ''+''" by (intro digit_not_sign) simp
  then show ?thesis using assms unfolding atoi_def ds by simp
qed

lemma atoi_show_int: "- (2 ^ 63) \<le> n \<Longrightarrow> n < 2 ^ 63 \<Longrightarrow> atoi (show_int n) = Some n"
proof (cases "n < 0")
  case True
  assume "- (2 ^ 63) \<le> n"
  with True show ?thesis
    using show_nat_props[of "nat (- n)"] by (simp add: show_int_def atoi_def Let_def)
next
  case False
  assume "n < 2 ^ 63"
  with False show ?thesis
    using show_nat_props[of "nat n"] atoi_digits[of "show_nat (nat n)"] by (simp add: show_int_def)
qed

interpretation int64_text: text_codec show_int atoi "\<lambda>n. - (2 ^ 63) \<le> n \<and> n < 2 ^ 63"
  by unfold_locales (simp add: atoi_show_int)

end
