(* ===== verification/EventType.thy ===== *)
theory EventType
  imports Decimal
begin

text \<open>
  \<^verbatim>\<open>src/event/type.go\<close>: the CloudEvents type name
  \<^verbatim>\<open>com.scnehaux.<domain>.<aggregate>.<lifecycle>.<action>[.v<major>]\<close>, its validation and the
  accessors that read its segments. A \<^verbatim>\<open>Type\<close> is the text itself, as in the source, so the
  accessors are defined on any text and the theorems say what they return on a validated one.
  A panic is \<^term>\<open>None\<close>.
\<close>

section \<open>Validation\<close>

type_synonym event_type = string

definition typePrefix :: string where
  "typePrefix = ''com.scnehaux.''"

definition typeSegmentsMin :: nat where
  "typeSegmentsMin = 6"

definition typeSegmentsMax :: nat where
  "typeSegmentsMax = 7"

definition is_lower :: "char \<Rightarrow> bool" where
  "is_lower c \<longleftrightarrow> 97 \<le> (of_char c :: nat) \<and> (of_char c :: nat) \<le> 122"

definition segment_char :: "char \<Rightarrow> bool" where
  "segment_char c \<longleftrightarrow> is_lower c \<or> is_digit c \<or> c = CHR ''-''"

definition validSegment :: "string \<Rightarrow> unit result" where
  "validSegment seg =
     (case seg of
        [] \<Rightarrow> Inl (New ''empty segment'')
      | c # _ \<Rightarrow>
          if \<not> is_lower c then Inl (New ''segment must begin with a lowercase letter'')
          else if list_all segment_char seg then Inr ()
          else Inl (New ''segment contains a character outside a-z, 0-9, and hyphen''))"

definition validVersionSegment :: "string \<Rightarrow> unit result" where
  "validVersionSegment seg =
     (if length seg < 2 \<or> hd seg \<noteq> CHR ''v'' then Inl (New ''segment is not a major version'')
      else case atoi (tl seg) of
             None \<Rightarrow> Inl (New ''segment is not a major version'')
           | Some n \<Rightarrow>
               if n = 1 then Inl (New ''major version 1 is written by omitting the segment'')
               else if n < 1 then Inl (New ''major version is not valid'')
               else Inr ())"

text \<open>The loop over \<^verbatim>\<open>segments[:typeSegmentsMin]\<close>, which stops at the first invalid one.\<close>

fun validSegments :: "string list \<Rightarrow> unit result" where
  "validSegments [] = Inr ()"
| "validSegments (seg # segs) =
     (case validSegment seg of
        Inl e \<Rightarrow> Inl (Wrapf ''event: type segment'' [e])
      | Inr _ \<Rightarrow> validSegments segs)"

definition ParseType :: "string \<Rightarrow> event_type result" where
  "ParseType s =
     (if \<not> has_prefix s typePrefix then Inl (New ''event: type must begin with com.scnehaux.'')
      else let segments = split_on CHR ''.'' s in
        if length segments < typeSegmentsMin \<or> length segments > typeSegmentsMax
        then Inl (New ''event: type has the wrong number of segments'')
        else case validSegments (take typeSegmentsMin segments) of
               Inl e \<Rightarrow> Inl e
             | Inr _ \<Rightarrow>
                 if length segments = typeSegmentsMax
                 then (case validVersionSegment (segments ! (typeSegmentsMax - 1)) of
                         Inl e \<Rightarrow> Inl (Wrapf ''event: type'' [e])
                       | Inr _ \<Rightarrow> Inr s)
                 else Inr s)"

definition MustParseType :: "string \<Rightarrow> event_type option" where
  "MustParseType s = (case ParseType s of Inl e \<Rightarrow> None | Inr t \<Rightarrow> Some t)"

section \<open>Accessors\<close>

definition segment :: "event_type \<Rightarrow> nat \<Rightarrow> string" where
  "segment t i =
     (let segments = split_on CHR ''.'' t
      in if i \<ge> length segments then '''' else segments ! i)"

definition Domain_of :: "event_type \<Rightarrow> string" where
  "Domain_of t = segment t 2"

definition Aggregate :: "event_type \<Rightarrow> string" where
  "Aggregate t = segment t 3"

definition Lifecycle :: "event_type \<Rightarrow> string" where
  "Lifecycle t = segment t 4"

definition Action :: "event_type \<Rightarrow> string" where
  "Action t = segment t 5"

text \<open>The slice \<^verbatim>\<open>segments[6][1:]\<close> panics on an empty last segment.\<close>

definition MajorVersion :: "event_type \<Rightarrow> int option" where
  "MajorVersion t =
     (let segments = split_on CHR ''.'' t in
      if length segments \<noteq> typeSegmentsMax then Some 1
      else case segments ! (typeSegmentsMax - 1) of
             [] \<Rightarrow> None
           | _ # digits \<Rightarrow> (case atoi digits of None \<Rightarrow> Some 1 | Some n \<Rightarrow> Some n))"

definition Base :: "event_type \<Rightarrow> event_type" where
  "Base t =
     (let segments = split_on CHR ''.'' t in
      if length segments \<noteq> typeSegmentsMax then t
      else join_on CHR ''.'' (take (typeSegmentsMax - 1) segments))"

section \<open>The grammar the validation accepts\<close>

definition type_name :: "string \<Rightarrow> string \<Rightarrow> string \<Rightarrow> string \<Rightarrow> string option \<Rightarrow> event_type" where
  "type_name d a l x v =
     join_on CHR ''.'' ([''com'', ''scnehaux'', d, a, l, x] @ (case v of None \<Rightarrow> [] | Some w \<Rightarrow> [w]))"

definition ok :: "unit result \<Rightarrow> bool" where
  "ok r \<longleftrightarrow> r = Inr ()"

lemma validSegments_iff: "validSegments segs = Inr () \<longleftrightarrow> list_all (\<lambda>s. ok (validSegment s)) segs"
  by (induction segs) (auto simp: ok_def split: sum.splits)

lemma valid_no_dot: "ok (validSegment seg) \<Longrightarrow> CHR ''.'' \<notin> set seg"
  by (auto simp: ok_def validSegment_def segment_char_def is_lower_def is_digit_def list_all_iff
      split: list.splits if_splits)

lemma atoi_chars: "atoi s = Some n \<Longrightarrow> c \<in> set s \<Longrightarrow> is_digit c \<or> c = CHR ''-'' \<or> c = CHR ''+''"
proof (cases s)
  case (Cons a cs)
  assume "atoi s = Some n" "c \<in> set s"
  with Cons show ?thesis
    by (cases "a = CHR ''-'' \<or> a = CHR ''+''")
      (auto simp only: atoi_def Let_def list.case list_all_iff if_True if_False list.simps option.distinct
        set_ConsD split: if_splits)
qed simp

lemma atoi_no_dot: "atoi s = Some n \<Longrightarrow> CHR ''.'' \<notin> set s"
  using atoi_chars[of s n "CHR ''.''"] by (auto simp: is_digit_def)

lemma version_valid_iff:
  "ok (validVersionSegment v) \<longleftrightarrow> (\<exists>ds n. v = CHR ''v'' # ds \<and> ds \<noteq> [] \<and> atoi ds = Some n \<and> n \<ge> 2)"
  by (cases v) (auto simp: ok_def validVersionSegment_def split: option.splits)

lemma version_no_dot: "ok (validVersionSegment v) \<Longrightarrow> CHR ''.'' \<notin> set v"
  by (auto simp: version_valid_iff dest: atoi_no_dot)

definition valid_parts :: "string \<Rightarrow> string \<Rightarrow> string \<Rightarrow> string \<Rightarrow> string option \<Rightarrow> bool" where
  "valid_parts d a l x v \<longleftrightarrow>
     ok (validSegment d) \<and> ok (validSegment a) \<and> ok (validSegment l) \<and> ok (validSegment x)
     \<and> (case v of None \<Rightarrow> True | Some w \<Rightarrow> ok (validVersionSegment w))"

lemma split_type_name:
  assumes "valid_parts d a l x v"
  shows "split_on CHR ''.'' (type_name d a l x v) =
     [''com'', ''scnehaux'', d, a, l, x] @ (case v of None \<Rightarrow> [] | Some w \<Rightarrow> [w])"
  unfolding type_name_def
  by (rule split_join) (use assms in \<open>auto simp: valid_parts_def dest: valid_no_dot version_no_dot split: option.splits\<close>)

lemma prefix_type_name: "has_prefix (type_name d a l x v) typePrefix"
  by (cases v) (simp_all add: has_prefix_def type_name_def typePrefix_def)

lemma prefix_segments:
  assumes "has_prefix s typePrefix"
  obtains rest where "split_on CHR ''.'' s = ''com'' # ''scnehaux'' # rest"
proof -
  define r where "r = drop (length typePrefix) s"
  from assms have "s = typePrefix @ r"
    unfolding has_prefix_def r_def by (metis append_take_drop_id)
  also have "\<dots> = ''com'' @ CHR ''.'' # (''scnehaux'' @ CHR ''.'' # r)"
    by (simp add: typePrefix_def)
  finally have "split_on CHR ''.'' s = ''com'' # split_on CHR ''.'' (''scnehaux'' @ CHR ''.'' # r)"
    by (simp only:) (rule split_on_append, simp)
  also have "split_on CHR ''.'' (''scnehaux'' @ CHR ''.'' # r) = ''scnehaux'' # split_on CHR ''.'' r"
    by (rule split_on_append) simp
  finally show ?thesis by (rule that)
qed

lemma list6: "length xs = 6 \<Longrightarrow> \<exists>a b c d e f. xs = [a, b, c, d, e, f]"
  by (auto simp: numeral_eq_Suc length_Suc_conv)

lemma ParseType_Inr:
  "ParseType s = Inr t \<longleftrightarrow>
     t = s \<and> (\<exists>d a l x v. s = type_name d a l x v \<and> valid_parts d a l x v)"
  (is "_ \<longleftrightarrow> ?R")
proof
  assume p: "ParseType s = Inr t"
  then have pre: "has_prefix s typePrefix" by (auto simp: ParseType_def split: if_splits)
  then obtain rest where sp: "split_on CHR ''.'' s = ''com'' # ''scnehaux'' # rest" by (rule prefix_segments)
  from p have len: "length rest = 4 \<or> length rest = 5" and t: "t = s"
    and vs: "list_all (\<lambda>g. ok (validSegment g)) (take 6 (''com'' # ''scnehaux'' # rest))"
    and vv: "length rest = 5 \<Longrightarrow> ok (validVersionSegment (rest ! 4))"
    unfolding ParseType_def
    by (auto simp: sp typeSegmentsMin_def typeSegmentsMax_def Let_def ok_def validSegments_iff
        split: if_splits sum.splits)
  have js: "join_on CHR ''.'' (''com'' # ''scnehaux'' # rest) = s" using join_split[of "CHR ''.''" s] sp by simp
  from len show ?R
  proof
    assume "length rest = 4"
    then obtain d a l x where r: "rest = [d, a, l, x]"
      by (auto simp: numeral_eq_Suc length_Suc_conv)
    show ?R using t js vs unfolding r
      by (intro conjI exI[of _ d] exI[of _ a] exI[of _ l] exI[of _ x] exI[of _ None]) (auto simp: type_name_def valid_parts_def)
  next
    assume five: "length rest = 5"
    then obtain d a l x w where r: "rest = [d, a, l, x, w]"
      by (auto simp: numeral_eq_Suc length_Suc_conv)
    show ?R using t js vs vv[OF five] unfolding r
      by (intro conjI exI[of _ d] exI[of _ a] exI[of _ l] exI[of _ x] exI[of _ "Some w"]) (auto simp: type_name_def valid_parts_def)
  qed
next
  assume ?R
  then obtain d a l x v where t: "t = s" and s: "s = type_name d a l x v" and ok: "valid_parts d a l x v"
    by blast
  have two: "validSegments [''com'', ''scnehaux'', d, a, l, x] = Inr ()"
    using ok by (simp add: validSegments_iff valid_parts_def) (simp add: ok_def validSegment_def segment_char_def is_lower_def)
  show "ParseType s = Inr t"
  proof (cases v)
    case None
    with split_type_name[OF ok] two show ?thesis
      unfolding ParseType_def s t
      by (simp add: prefix_type_name typeSegmentsMin_def typeSegmentsMax_def Let_def del: validSegments.simps)
  next
    case (Some w)
    with split_type_name[OF ok] two ok show ?thesis
      unfolding ParseType_def s t
      by (simp add: prefix_type_name typeSegmentsMin_def typeSegmentsMax_def Let_def ok_def valid_parts_def del: validSegments.simps)
  qed
qed

section \<open>What the accessors return on a validated type\<close>

lemma accessors_type_name:
  assumes "valid_parts d a l x v"
  shows "Domain_of (type_name d a l x v) = d" "Aggregate (type_name d a l x v) = a"
    "Lifecycle (type_name d a l x v) = l" "Action (type_name d a l x v) = x"
  using split_type_name[OF assms]
  by (simp_all add: Domain_of_def Aggregate_def Lifecycle_def Action_def segment_def)

lemma Base_type_name:
  "valid_parts d a l x v \<Longrightarrow> Base (type_name d a l x v) = type_name d a l x None"
  using split_type_name[of d a l x v]
  by (cases v) (simp_all add: Base_def typeSegmentsMax_def type_name_def)

lemma MajorVersion_type_name:
  "valid_parts d a l x v \<Longrightarrow>
     MajorVersion (type_name d a l x v) = (case v of None \<Rightarrow> Some 1 | Some w \<Rightarrow> atoi (tl w))"
  using split_type_name[of d a l x v]
  by (cases v) (auto simp: MajorVersion_def typeSegmentsMax_def version_valid_iff valid_parts_def)

lemma valid_parts_None: "valid_parts d a l x v \<Longrightarrow> valid_parts d a l x None"
  by (simp add: valid_parts_def)

lemma ParseType_type_name:
  "valid_parts d a l x v \<Longrightarrow> ParseType (type_name d a l x v) = Inr (type_name d a l x v)"
  unfolding ParseType_Inr by blast

lemma type_name_versioned: "type_name d a l x (Some w) \<noteq> type_name d a l x None"
  by (simp add: type_name_def)

lemma MajorVersion_parts:
  assumes "valid_parts d a l x v"
  obtains n where "MajorVersion (type_name d a l x v) = Some n" "n \<ge> 1" "n = 1 \<longleftrightarrow> v = None"
  using MajorVersion_type_name[OF assms] assms
  by (cases v) (auto simp: valid_parts_def version_valid_iff)

section \<open>The grammar, letter by letter\<close>

lemma char_range: "b \<le> 256 \<Longrightarrow> a \<le> (of_char c :: nat) \<and> (of_char c :: nat) < b \<longleftrightarrow> c \<in> set (map char_of [a..<b])"
  by (auto simp: image_iff) (metis atLeastLessThan_iff char_of_char of_char_of)

definition letter_chars :: string where
  "letter_chars = ''abcdefghijklmnopqrstuvwxyz''"

definition digit_chars :: string where
  "digit_chars = ''0123456789''"

lemma alphabets: "map char_of [97..<123] = letter_chars" "map char_of [48..<58] = digit_chars"
  by code_simp+

lemma is_lower_letter: "is_lower c \<longleftrightarrow> c \<in> set letter_chars"
  using char_range[of 123 97 c] unfolding alphabets is_lower_def by linarith

lemma is_digit_letter: "is_digit c \<longleftrightarrow> c \<in> set digit_chars"
  using char_range[of 58 48 c] unfolding alphabets is_digit_def by linarith

lemma validSegment_letters:
  "validSegment g = Inr () \<longleftrightarrow> g \<noteq> [] \<and> hd g \<in> set letter_chars \<and> set g \<subseteq> set letter_chars \<union> set digit_chars \<union> {CHR ''-''}"
proof -
  have "list_all segment_char g \<longleftrightarrow> set g \<subseteq> set letter_chars \<union> set digit_chars \<union> {CHR ''-''}"
    unfolding list_all_iff segment_char_def is_lower_letter is_digit_letter by blast
  then show ?thesis using is_lower_letter by (cases g) (auto simp: validSegment_def)
qed

lemma atoi_at_least_two:
  "(\<exists>n. atoi ds = Some n \<and> n \<ge> 2) \<longleftrightarrow>
     (\<exists>sign number. ds = sign @ number \<and> (sign = [] \<or> sign = ''+'') \<and> number \<noteq> [] \<and> set number \<subseteq> set digit_chars
        \<and> 2 \<le> digits_val number \<and> digits_val number < 2 ^ 63)" (is "?L \<longleftrightarrow> ?R")
proof
  assume ?L
  then obtain n where n: "atoi ds = Some n" "n \<ge> 2" by blast
  then obtain c cs where ds: "ds = c # cs" by (cases ds) (auto simp: atoi_def)
  define number where "number = (if c = CHR ''-'' \<or> c = CHR ''+'' then cs else ds)"
  have a: "number \<noteq> []" "list_all is_digit number" "n = (if c = CHR ''-'' then - digits_val number else digits_val number)" "n < 2 ^ 63"
    using n(1) unfolding atoi_def ds number_def by (auto simp: Let_def split: if_splits)
  then have "c \<noteq> CHR ''-''" using digits_val_nonneg[OF a(2)] n(2) by auto
  moreover from this have "ds = (if c = CHR ''+'' then ''+'' else []) @ number" by (simp add: number_def ds)
  moreover have "set number \<subseteq> set digit_chars" using a(2) is_digit_letter by (auto simp: list_all_iff)
  ultimately show ?R using a n(2) by (intro exI[of _ "if c = CHR ''+'' then ''+'' else []"] exI[of _ number]) auto
next
  assume ?R
  then obtain sign number where s: "ds = sign @ number" "sign = [] \<or> sign = ''+''" "number \<noteq> []" "set number \<subseteq> set digit_chars"
    "2 \<le> digits_val number" "digits_val number < 2 ^ 63" by blast
  have d: "list_all is_digit number" using s(4) is_digit_letter by (auto simp: list_all_iff)
  have "atoi ds = Some (digits_val number)"
    using s(2)
  proof
    assume "sign = []"
    then show ?thesis using atoi_digits[OF s(3) d s(6)] s(1,5) by simp
  next
    assume "sign = ''+''"
    then show ?thesis using s d by (simp add: atoi_def)
  qed
  with s(5) show ?L by blast
qed

lemma atoi_empty: "atoi [] = None"
  by (simp add: atoi_def)

definition name_segment :: "string \<Rightarrow> bool" where
  "name_segment g \<longleftrightarrow> g \<noteq> [] \<and> hd g \<in> set letter_chars \<and> set g \<subseteq> set letter_chars \<union> set digit_chars \<union> {CHR ''-''}"

definition version_suffix :: "string \<Rightarrow> bool" where
  "version_suffix v \<longleftrightarrow> v = [] \<or> (\<exists>sign number. v = ''.v'' @ sign @ number \<and> (sign = [] \<or> sign = ''+'') \<and> number \<noteq> [] \<and> set number \<subseteq> set digit_chars
     \<and> 2 \<le> digits_val number \<and> digits_val number < 2 ^ 63)"

definition suffix_text :: "string option \<Rightarrow> string" where
  "suffix_text w = (case w of None \<Rightarrow> [] | Some u \<Rightarrow> CHR ''.'' # u)"

lemma suffix_text_ex: "version_suffix v \<Longrightarrow> \<exists>w. v = suffix_text w"
  by (rule exI[of _ "if v = [] then None else Some (tl v)"]) (auto simp: version_suffix_def suffix_text_def)

lemma version_suffix_iff: "version_suffix (CHR ''.'' # u) \<longleftrightarrow> ok (validVersionSegment u)"
proof -
  have "version_suffix (CHR ''.'' # u) \<longleftrightarrow> (\<exists>ds. u = CHR ''v'' # ds \<and> (\<exists>n. atoi ds = Some n \<and> n \<ge> 2))"
    unfolding version_suffix_def atoi_at_least_two by auto
  also have "\<dots> \<longleftrightarrow> ok (validVersionSegment u)"
    unfolding version_valid_iff using atoi_empty by (metis option.distinct(1))
  finally show ?thesis .
qed

lemma valid_parts_letters:
  "valid_parts d a l x w \<longleftrightarrow> name_segment d \<and> name_segment a \<and> name_segment l \<and> name_segment x \<and> version_suffix (suffix_text w)"
proof -
  have "ok (validSegment g) \<longleftrightarrow> name_segment g" for g unfolding ok_def validSegment_letters name_segment_def ..
  moreover have "version_suffix []" by (simp add: version_suffix_def)
  ultimately show ?thesis by (cases w) (simp_all add: valid_parts_def suffix_text_def version_suffix_iff)
qed

text \<open>
  C34: \<^verbatim>\<open>ParseType\<close> accepts exactly the texts
  \<^verbatim>\<open>com.scnehaux.<domain>.<aggregate>.<lifecycle>.<action>[.v<major>]\<close> whose four name segments begin with a
  lowercase letter and hold lowercase letters, digits and hyphens only, and whose version, if there is one, is \<^verbatim>\<open>v\<close>, an optional plus
  sign and decimal digits, leading zeros included, with a value from 2 up to the largest 64-bit integer; it returns the text unchanged. So the text is not
  determined by its segments and the number of the version: \<^verbatim>\<open>v2\<close>, \<^verbatim>\<open>v02\<close> and \<^verbatim>\<open>v+2\<close> are three accepted names.
\<close>

theorem ParseType_grammar:
  "ParseType s = Inr t \<longleftrightarrow>
     t = s \<and> (\<exists>d a l x v. s = ''com.scnehaux.'' @ d @ ''.'' @ a @ ''.'' @ l @ ''.'' @ x @ v
        \<and> (\<forall>g \<in> {d, a, l, x}. g \<noteq> [] \<and> hd g \<in> set letter_chars \<and> set g \<subseteq> set letter_chars \<union> set digit_chars \<union> {CHR ''-''})
        \<and> (v = [] \<or> (\<exists>sign number. v = ''.v'' @ sign @ number \<and> (sign = [] \<or> sign = ''+'') \<and> number \<noteq> [] \<and> set number \<subseteq> set digit_chars
             \<and> 2 \<le> digits_val number \<and> digits_val number < 2 ^ 63)))"
proof -
  have n: "type_name d a l x w = ''com.scnehaux.'' @ d @ ''.'' @ a @ ''.'' @ l @ ''.'' @ x @ suffix_text w" for d a l x w
    by (cases w) (simp_all add: type_name_def suffix_text_def)
  have e: "(\<exists>d a l x w. s = type_name d a l x w \<and> valid_parts d a l x w) \<longleftrightarrow>
      (\<exists>d a l x v. s = ''com.scnehaux.'' @ d @ ''.'' @ a @ ''.'' @ l @ ''.'' @ x @ v \<and> (\<forall>g \<in> {d, a, l, x}. name_segment g) \<and> version_suffix v)"
    unfolding valid_parts_letters n using suffix_text_ex by blast
  show ?thesis unfolding ParseType_Inr e name_segment_def version_suffix_def ..
qed

theorem ParseType_grammar_witness:
  "ParseType ''com.scnehaux.crm.account.security.locked.v+02'' = Inr ''com.scnehaux.crm.account.security.locked.v+02''"
  unfolding ParseType_grammar
proof (intro conjI refl exI)
  show "''com.scnehaux.crm.account.security.locked.v+02'' =
      ''com.scnehaux.'' @ ''crm'' @ ''.'' @ ''account'' @ ''.'' @ ''security'' @ ''.'' @ ''locked'' @ ''.v+02''" by simp
  show "\<forall>g \<in> {''crm'', ''account'', ''security'', ''locked''}. g \<noteq> [] \<and> hd g \<in> set letter_chars \<and> set g \<subseteq> set letter_chars \<union> set digit_chars \<union> {CHR ''-''}"
    by (simp add: letter_chars_def)
  show "''.v+02'' = [] \<or> (\<exists>sign number. ''.v+02'' = ''.v'' @ sign @ number \<and> (sign = [] \<or> sign = ''+'') \<and> number \<noteq> [] \<and> set number \<subseteq> set digit_chars
      \<and> 2 \<le> digits_val number \<and> digits_val number < 2 ^ 63)"
    by (intro disjI2 exI[of _ "''+''"] exI[of _ "''02''"]) (simp add: digit_chars_def digits_val_def digit_val_def)
qed

text \<open>
  On a validated type the accessors read back the four name segments, \<^verbatim>\<open>MajorVersion\<close> does
  not panic and is at least 1, it is 1 exactly when the type has no version segment, and \<^verbatim>\<open>Base\<close>
  is a valid type of major version 1 with the same four segments.
\<close>

theorem accessors_of_valid:
  assumes "ParseType s = Inr t"
  shows "\<exists>v n. t = type_name (Domain_of t) (Aggregate t) (Lifecycle t) (Action t) v
     \<and> MajorVersion t = Some n \<and> n \<ge> 1 \<and> (n = 1 \<longleftrightarrow> v = None) \<and> (Base t = t \<longleftrightarrow> v = None)
     \<and> Base t = type_name (Domain_of t) (Aggregate t) (Lifecycle t) (Action t) None
     \<and> ParseType (Base t) = Inr (Base t) \<and> MajorVersion (Base t) = Some 1"
proof -
  from assms obtain d a l x v where s: "t = type_name d a l x v" and p: "valid_parts d a l x v"
    by (auto simp: ParseType_Inr)
  obtain n where n: "MajorVersion t = Some n" "n \<ge> 1" "n = 1 \<longleftrightarrow> v = None"
    using MajorVersion_parts[OF p] s by metis
  have b: "Base t = type_name d a l x None" using Base_type_name[OF p] s by simp
  have "Base t = t \<longleftrightarrow> v = None" using s b type_name_versioned[of d a l x] by (cases v) (simp, metis option.distinct(1))
  moreover have "ParseType (Base t) = Inr (Base t)" "MajorVersion (Base t) = Some 1"
    using ParseType_type_name MajorVersion_type_name valid_parts_None[OF p] b by simp_all
  ultimately show ?thesis
    using n b accessors_type_name[OF p] unfolding s
    by (intro exI[of _ v] exI[of _ n]) simp
qed

theorem accessors_of_valid_witness:
  "\<exists>v n. ''com.scnehaux.crm.account.security.locked.v2'' =
       type_name (Domain_of ''com.scnehaux.crm.account.security.locked.v2'')
         (Aggregate ''com.scnehaux.crm.account.security.locked.v2'')
         (Lifecycle ''com.scnehaux.crm.account.security.locked.v2'')
         (Action ''com.scnehaux.crm.account.security.locked.v2'') v
     \<and> MajorVersion ''com.scnehaux.crm.account.security.locked.v2'' = Some n \<and> n \<ge> 1"
proof -
  have "ParseType ''com.scnehaux.crm.account.security.locked.v2'' =
      Inr ''com.scnehaux.crm.account.security.locked.v2''"
    by code_simp
  from accessors_of_valid[OF this] show ?thesis by blast
qed

text \<open>
  \<^verbatim>\<open>strconv.Atoi\<close> accepts leading zeros and a plus sign, so one contract can be written with
  several accepted type names.
\<close>

lemma version_aliases:
  "ParseType ''com.scnehaux.crm.account.security.locked.v2'' \<noteq> ParseType ''com.scnehaux.crm.account.security.locked.v+02''
   \<and> ParseType ''com.scnehaux.crm.account.security.locked.v+02'' = Inr ''com.scnehaux.crm.account.security.locked.v+02''
   \<and> MajorVersion ''com.scnehaux.crm.account.security.locked.v+02'' = MajorVersion ''com.scnehaux.crm.account.security.locked.v2''
   \<and> Base ''com.scnehaux.crm.account.security.locked.v+02'' = Base ''com.scnehaux.crm.account.security.locked.v2''"
  by code_simp

end
