(* ===== verification/GoTime.thy ===== *)
theory GoTime
  imports Decimal
begin

text \<open>
  The civil dates of \<^verbatim>\<open>time.Time\<close> values in UTC. A time is the number of nanoseconds since
  January 1, year 1; a day number splits into year, month and day and back
  (\<open>civil_inverse\<close>).
\<close>

section \<open>Civil dates\<close>

definition second_ns :: int where "second_ns = 1000000000"

definition is_leap :: "int \<Rightarrow> bool" where
  "is_leap y \<longleftrightarrow> y mod 4 = 0 \<and> (y mod 100 \<noteq> 0 \<or> y mod 400 = 0)"

text \<open>Days from January 1, year 1 to January 1 of a year.\<close>

definition days_before :: "int \<Rightarrow> int" where
  "days_before y = 365 * (y - 1) + (y - 1) div 4 - (y - 1) div 100 + (y - 1) div 400"

definition year_of_days :: "int \<Rightarrow> int \<times> int" where
  "year_of_days d =
     (let n400 = d div 146097; d1 = d mod 146097;
          n100 = min 3 (d1 div 36524); d2 = d1 - 36524 * n100;
          n4 = d2 div 1461; d3 = d2 mod 1461;
          n1 = min 3 (d3 div 365)
      in (400 * n400 + 100 * n100 + 4 * n4 + n1 + 1, d3 - 365 * n1))"

definition month_lengths :: "bool \<Rightarrow> int list" where
  "month_lengths leap = [31, if leap then 29 else 28, 31, 30, 31, 30, 31, 31, 30, 31, 30, 31]"

fun month_scan :: "int \<Rightarrow> int list \<Rightarrow> int \<Rightarrow> int \<times> int" where
  "month_scan m [] yd = (m, yd)"
| "month_scan m (l # ls) yd = (if yd < l \<or> ls = [] then (m, yd) else month_scan (m + 1) ls (yd - l))"

text \<open>Year, month and day of a day number.\<close>

definition civil_of_days :: "int \<Rightarrow> int \<times> int \<times> int" where
  "civil_of_days d =
     (let (y, yd) = year_of_days d; (mo, md) = month_scan 1 (month_lengths (is_leap y)) yd
      in (y, mo, md + 1))"

definition days_of_civil :: "int \<Rightarrow> int \<Rightarrow> int \<Rightarrow> int" where
  "days_of_civil y mo d =
     days_before y + sum_list (take (nat (mo - 1)) (month_lengths (is_leap y))) + (d - 1)"

definition days_in :: "int \<Rightarrow> int \<Rightarrow> int" where
  "days_in y mo = month_lengths (is_leap y) ! nat (mo - 1)"

text \<open>The decomposition of a day number into 400, 100 and 4 year cycles.\<close>

lemma min3_div:
  assumes "(0::int) \<le> x" "x \<le> 4 * k" "0 < k" "b = min 3 (x div k)"
  shows "0 \<le> b" "b \<le> 3" "0 \<le> x - k * b" "x - k * b \<le> k" "b < 3 \<Longrightarrow> x - k * b < k"
proof -
  have q: "x = k * (x div k) + x mod k" "0 \<le> x mod k" "x mod k < k" "0 \<le> x div k"
    using assms by (simp_all add: pos_imp_zdiv_nonneg_iff)
  show "0 \<le> b" "b \<le> 3" using assms q by auto
  show "0 \<le> x - k * b" "x - k * b \<le> k" "b < 3 \<Longrightarrow> x - k * b < k"
  proof -
    consider "b = x div k" | "b = 3" "3 \<le> x div k" using assms(4) by linarith
    then have "0 \<le> x - k * b \<and> x - k * b \<le> k \<and> (b < 3 \<longrightarrow> x - k * b < k)"
    proof cases
      case 1
      then have "x - k * b = x mod k" by (simp add: minus_mult_div_eq_mod)
      then show ?thesis using q(2,3) by simp
    next
      case 2
      then have "k * 3 \<le> k * (x div k)" using assms(3) by simp
      then have "k * 3 \<le> x" using q by linarith
      with 2 assms(2) show ?thesis by simp
    qed
    then show "0 \<le> x - k * b" "x - k * b \<le> k" "b < 3 \<Longrightarrow> x - k * b < k" by auto
  qed
qed

lemma year_cycles:
  assumes "year_of_days d = (y, yd)"
  obtains a b c e where
    "y = 400 * a + 100 * b + 4 * c + e + 1" "d = 146097 * a + 36524 * b + 1461 * c + 365 * e + yd"
    "0 \<le> b" "b \<le> 3" "0 \<le> c" "c \<le> 24" "0 \<le> e" "e \<le> 3" "0 \<le> yd" "yd \<le> 365"
    "yd = 365 \<longrightarrow> e = 3 \<and> (c = 24 \<longrightarrow> b = 3)"
proof -
  define a d1 where "a = d div 146097" and "d1 = d mod 146097"
  define b where "b = min 3 (d1 div 36524)"
  define d2 where "d2 = d1 - 36524 * b"
  define c d3 where "c = d2 div 1461" and "d3 = d2 mod 1461"
  define e where "e = min 3 (d3 div 365)"
  have "year_of_days d = (400 * a + 100 * b + 4 * c + e + 1, d3 - 365 * e)"
    by (simp only: year_of_days_def Let_def a_def d1_def b_def d2_def c_def d3_def e_def)
  then have y: "y = 400 * a + 100 * b + 4 * c + e + 1" and yd: "yd = d3 - 365 * e"
    using assms by simp_all
  have d1: "0 \<le> d1" "d1 \<le> 4 * 36524" "d = 146097 * a + d1"
    using pos_mod_bound[of 146097 d] by (simp_all add: d1_def a_def)
  note b = min3_div[OF d1(1,2) _ b_def, simplified, folded d2_def]
  have d3: "0 \<le> d3" "d3 \<le> 4 * 365" "d2 = 1461 * c + d3"
    using pos_mod_bound[of 1461 d2] by (simp_all add: d3_def c_def)
  note e = min3_div[OF d3(1,2) _ e_def, simplified, folded yd]
  have d2: "d2 = d1 - 36524 * b" by (simp add: d2_def)
  have c: "0 \<le> c" "c \<le> 24" using b d3 d2 by simp_all
  have "e = 3 \<and> (c = 24 \<longrightarrow> b = 3)" if "yd = 365"
  proof -
    have e3: "e = 3" using e(2,5) that by fastforce
    then have "d3 = 1460" using that yd by simp
    then have "b = 3" if "c = 24" using that b(2,5) d3(3) by fastforce
    with e3 show ?thesis by simp
  qed
  moreover have "d = 146097 * a + 36524 * b + 1461 * c + 365 * e + yd" using yd d1(3) d2 d3(3) by simp
  ultimately show thesis using that[of a b c e] y b(1,2) c e(1,2) e(3,4) yd by simp
qed

lemma div_cycles:
  assumes "0 \<le> (b::int)" "b \<le> 3" "0 \<le> c" "c \<le> 24" "0 \<le> e" "e \<le> 3"
    "z = 400 * a + 100 * b + 4 * c + e"
  shows "z div 4 = 100 * a + 25 * b + c" "z div 100 = 4 * a + b" "z div 400 = a"
proof -
  show "z div 4 = 100 * a + 25 * b + c"
    by (rule int_div_pos_eq[of z 4 _ e]) (use assms in \<open>simp_all add: algebra_simps\<close>)
  show "z div 100 = 4 * a + b"
    by (rule int_div_pos_eq[of z 100 _ "4 * c + e"]) (use assms in \<open>simp_all add: algebra_simps\<close>)
  show "z div 400 = a"
    by (rule int_div_pos_eq[of z 400 _ "100 * b + 4 * c + e"]) (use assms in \<open>simp_all add: algebra_simps\<close>)
qed

lemma year_of_days_inverse:
  assumes "year_of_days d = (y, yd)"
  shows "days_before y + yd = d" "0 \<le> yd" "yd < (if is_leap y then 366 else 365)" "0 \<le> d \<Longrightarrow> 1 \<le> y"
proof -
  obtain a b c e where y: "y = 400 * a + 100 * b + 4 * c + e + 1"
    and d: "d = 146097 * a + 36524 * b + 1461 * c + 365 * e + yd"
    and b: "0 \<le> b" "b \<le> 3" "0 \<le> c" "c \<le> 24" "0 \<le> e" "e \<le> 3" "0 \<le> yd" "yd \<le> 365"
    and l: "yd = 365 \<longrightarrow> e = 3 \<and> (c = 24 \<longrightarrow> b = 3)"
    using year_cycles[OF assms] .
  have z: "y - 1 = 400 * a + 100 * b + 4 * c + e" using y by simp
  show "days_before y + yd = d"
    unfolding days_before_def div_cycles[OF b(1-6) z] using y d by (simp add: algebra_simps)
  show "0 \<le> yd" by (fact b)
  have "is_leap y" if "yd = 365"
  proof -
    from l that have e: "e = 3" and cb: "c = 24 \<longrightarrow> b = 3" by auto
    have "y mod 4 = 0" by (rule int_mod_pos_eq[of y 4 "100 * a + 25 * b + c + 1"]) (use y e in simp_all)
    moreover have "y mod 100 \<noteq> 0 \<or> y mod 400 = 0"
    proof (cases "c = 24")
      case True
      then have "y mod 400 = 0" by (intro int_mod_pos_eq[of y 400 "a + 1"]) (use y e cb in simp_all)
      then show ?thesis ..
    next
      case False
      then have "y mod 100 = 4 * c + 4" by (intro int_mod_pos_eq[of y 100 "4 * a + b"]) (use y e b in simp_all)
      then show ?thesis using b by simp
    qed
    ultimately show ?thesis by (simp add: is_leap_def)
  qed
  with b(7,8) show "yd < (if is_leap y then 366 else 365)" by force
  show "1 \<le> y" if "0 \<le> d"
  proof -
    have "- 1 < a" using that d b by linarith
    then show ?thesis using y b by linarith
  qed
qed

lemma month_scan_props:
  "month_scan m ls yd = (mo, md) \<Longrightarrow> 0 \<le> yd \<Longrightarrow> yd < sum_list ls \<Longrightarrow>
     m \<le> mo \<and> mo < m + int (length ls) \<and> 0 \<le> md \<and> md < ls ! nat (mo - m)
     \<and> sum_list (take (nat (mo - m)) ls) + md = yd"
proof (induction m ls yd arbitrary: mo md rule: month_scan.induct)
  case (2 m l ls yd)
  show ?case
  proof (cases "yd < l \<or> ls = []")
    case True
    with 2 show ?thesis by auto
  next
    case False
    with 2 have ih: "m + 1 \<le> mo" "mo < m + 1 + int (length ls)" "0 \<le> md" "md < ls ! nat (mo - (m + 1))"
      "sum_list (take (nat (mo - (m + 1))) ls) + md = yd - l" by auto
    have "nat (mo - m) = Suc (nat (mo - (m + 1)))" using ih by simp
    with ih show ?thesis by simp
  qed
qed simp

lemma civil_inverse:
  assumes "civil_of_days d = (y, mo, dd)"
  shows "days_of_civil y mo dd = d" "1 \<le> mo" "mo \<le> 12" "1 \<le> dd" "dd \<le> days_in y mo" "0 \<le> d \<Longrightarrow> 1 \<le> y"
proof -
  obtain yd where y: "year_of_days d = (y, yd)" and m: "month_scan 1 (month_lengths (is_leap y)) yd = (mo, dd - 1)"
    using assms by (auto simp: civil_of_days_def split: prod.splits)
  note yy = year_of_days_inverse[OF y]
  have "sum_list (month_lengths (is_leap y)) = (if is_leap y then 366 else 365)"
    by (simp add: month_lengths_def)
  note mm = month_scan_props[OF m yy(2), unfolded this, OF yy(3)]
  have "length (month_lengths (is_leap y)) = 12" by (simp add: month_lengths_def)
  with mm yy(1) show "days_of_civil y mo dd = d" "1 \<le> mo" "mo \<le> 12" "1 \<le> dd" "dd \<le> days_in y mo"
    by (auto simp: days_of_civil_def days_in_def)
  show "0 \<le> d \<Longrightarrow> 1 \<le> y" by (rule yy(4))
qed

lemma days_in_le: "1 \<le> mo \<Longrightarrow> mo \<le> 12 \<Longrightarrow> days_in y mo \<le> 31"
proof -
  assume "1 \<le> mo" "mo \<le> 12"
  then have "mo \<in> {1,2,3,4,5,6,7,8,9,10,11,12}" by simp presburger
  then show ?thesis unfolding days_in_def by (elim insertE emptyE; simp add: month_lengths_def)
qed

end
