(* ===== verification/Rfc3339.thy ===== *)
theory Rfc3339
  imports GoTime Uuid
begin

text \<open>
  The \<^verbatim>\<open>time.RFC3339Nano\<close> text of a time, as the envelope (\<^verbatim>\<open>src/event/envelope.go\<close>) writes
  and reads it. \<open>parse_rfc3339\<close> is \<^verbatim>\<open>time.Parse\<close> at that layout with what it
  tolerates: a one-digit hour, a comma before the fraction, a fraction of any length, an offset
  instead of \<^verbatim>\<open>Z\<close>.
\<close>

section \<open>The RFC 3339 text with nanoseconds\<close>

definition year_text :: "int \<Rightarrow> string" where
  "year_text y =
     (if y < 0 then CHR ''-'' # fixed_digits (max 4 (length (show_nat (nat (- y))))) (nat (- y))
      else fixed_digits (max 4 (length (show_nat (nat y)))) (nat y))"

text \<open>The fraction without its trailing zeros, and nothing at all for a whole second.\<close>

definition strip_zeros :: "string \<Rightarrow> string" where
  "strip_zeros s = rev (dropWhile (\<lambda>c. c = CHR ''0'') (rev s))"

definition frac_text :: "nat \<Rightarrow> string" where
  "frac_text ns = (if ns = 0 then [] else CHR ''.'' # strip_zeros (fixed_digits 9 ns))"

definition two :: "int \<Rightarrow> string" where
  "two n = fixed_digits 2 (nat n)"

definition format_rfc3339 :: "time \<Rightarrow> string" where
  "format_rfc3339 t =
     (let secs = t div second_ns; ns = t mod second_ns; sod = secs mod 86400;
          (y, mo, d) = civil_of_days (secs div 86400)
      in year_text y @ CHR ''-'' # two mo @ CHR ''-'' # two d @ CHR ''T'' # two (sod div 3600) @
         CHR '':'' # two (sod div 60 mod 60) @ CHR '':'' # two (sod mod 60) @ frac_text (nat ns) @ ''Z'')"

definition getnum :: "bool \<Rightarrow> string \<Rightarrow> (int \<times> string) option" where
  "getnum fixed s =
     (case s of
        [] \<Rightarrow> None
      | a # r \<Rightarrow>
          if \<not> is_digit a then None
          else (case r of
                  b # r' \<Rightarrow> if is_digit b then Some (10 * digit_val a + digit_val b, r')
                            else if fixed then None else Some (digit_val a, r)
                | [] \<Rightarrow> if fixed then None else Some (digit_val a, r)))"

definition getyear :: "string \<Rightarrow> (int \<times> string) option" where
  "getyear s =
     (if length s < 4 \<or> \<not> is_digit (s ! 0) then None
      else map_option (\<lambda>y. (y, drop 4 s)) (atoi (take 4 s)))"

definition expect :: "char \<Rightarrow> string \<Rightarrow> string option" where
  "expect c s = (case s of [] \<Rightarrow> None | x # r \<Rightarrow> if x = c then Some r else None)"

definition in_range :: "int \<Rightarrow> int \<Rightarrow> int \<Rightarrow> bool" where
  "in_range lo hi n \<longleftrightarrow> lo \<le> n \<and> n < hi"

text \<open>\<^verbatim>\<open>parseNanoseconds\<close> on at most nine digits; a longer fraction is cut.\<close>

definition get_frac :: "string \<Rightarrow> int \<times> string" where
  "get_frac s =
     (case s of
        c # r \<Rightarrow>
          let ds = takeWhile is_digit r in
          if (c = CHR ''.'' \<or> c = CHR '','') \<and> ds \<noteq> []
          then (digits_val (take 9 ds) * 10 ^ (9 - length (take 9 ds)), dropWhile is_digit r)
          else (0, s)
      | [] \<Rightarrow> (0, s))"

definition get_zone :: "string \<Rightarrow> (int \<times> string) option" where
  "get_zone s =
     (if length s \<ge> 1 \<and> s ! 0 = CHR ''Z'' then Some (0, drop 1 s)
      else if length s < 6 \<or> s ! 3 \<noteq> CHR '':'' then None
      else case (getnum True (take 2 (drop 1 s)), getnum True (take 2 (drop 4 s))) of
             (Some (hr, _), Some (mm, _)) \<Rightarrow>
               if hr > 24 \<or> mm > 60 then None
               else if s ! 0 = CHR ''+'' then Some ((hr * 60 + mm) * 60, drop 6 s)
               else if s ! 0 = CHR ''-'' then Some (- ((hr * 60 + mm) * 60), drop 6 s)
               else None
           | _ \<Rightarrow> None)"

definition parse_date :: "string \<Rightarrow> ((int \<times> int \<times> int) \<times> string) option" where
  "parse_date s =
     Option.bind (getyear s) (\<lambda>(y, s).
     Option.bind (expect CHR ''-'' s) (\<lambda>s.
     Option.bind (getnum True s) (\<lambda>(mo, s).
     if \<not> in_range 1 13 mo then None else
     Option.bind (expect CHR ''-'' s) (\<lambda>s.
     Option.bind (getnum True s) (\<lambda>(d, s). Some ((y, mo, d), s))))))"

definition parse_clock :: "string \<Rightarrow> (int \<times> string) option" where
  "parse_clock s =
     Option.bind (getnum False s) (\<lambda>(h, s).
     if \<not> in_range 0 24 h then None else
     Option.bind (expect CHR '':'' s) (\<lambda>s.
     Option.bind (getnum True s) (\<lambda>(mi, s).
     if \<not> in_range 0 60 mi then None else
     Option.bind (expect CHR '':'' s) (\<lambda>s.
     Option.bind (getnum True s) (\<lambda>(se, s).
     if \<not> in_range 0 60 se then None else Some (h * 3600 + mi * 60 + se, s))))))"

definition parse_rfc3339 :: "string \<Rightarrow> time option" where
  "parse_rfc3339 s =
     Option.bind (parse_date s) (\<lambda>((y, mo, d), s).
     Option.bind (expect CHR ''T'' s) (\<lambda>s.
     Option.bind (parse_clock s) (\<lambda>(sod, s).
     let (ns, s) = get_frac s in
     Option.bind (get_zone s) (\<lambda>(zone, s).
     if s \<noteq> [] \<or> d < 1 \<or> d > days_in y mo then None
     else Some ((days_of_civil y mo d * 86400 + sod - zone) * second_ns + ns)))))"

text \<open>The times whose year has four digits: from year 1 to year 9999.\<close>

definition representable_time :: "time \<Rightarrow> bool" where
  "representable_time t \<longleftrightarrow> 0 \<le> t \<and> t < days_before 10000 * 86400 * second_ns"

lemma getnum_two:
  assumes "0 \<le> n" "n < 100" shows "getnum b (two n @ r) = Some (n, r)"
proof -
  have d: "two n = [digit_char (nat n div 10), digit_char (nat n mod 10)]"
    unfolding two_def numeral_2_eq_2 fixed_digits.simps using assms by simp
  have "nat n div 10 < 10" using assms by linarith
  then show ?thesis using tens[of "nat n"] assms by (simp add: d getnum_def)
qed

lemma length_show_nat: "n < 10 ^ Suc k \<Longrightarrow> length (show_nat n) \<le> Suc k"
proof (induction k arbitrary: n)
  case 0
  then show ?case by (subst show_nat.simps) simp
next
  case (Suc k)
  then have "n div 10 < 10 ^ Suc k" by (simp add: less_mult_imp_div_less mult.commute)
  with Suc.IH show ?case by (subst show_nat.simps) force
qed

lemma year_text_four: "0 \<le> y \<Longrightarrow> y < 10000 \<Longrightarrow> year_text y = fixed_digits 4 (nat y)"
  using length_show_nat[of "nat y" 3] by (simp add: year_text_def max_absorb1)

lemma getyear_text:
  assumes "0 \<le> y" "y < 10000" shows "getyear (year_text y @ r) = Some (y, r)"
proof -
  define ds where "ds = fixed_digits 4 (nat y)"
  have ds: "length ds = 4" "list_all is_digit ds" "digits_val ds = y"
    using assms by (simp_all add: ds_def digits_fixed_digits val_fixed_digits)
  then have "atoi ds = Some y" using atoi_digits[of ds] assms by fastforce
  moreover have "is_digit (ds ! 0)" using ds by (simp add: list_all_length)
  ultimately show ?thesis
    using ds by (simp add: getyear_def year_text_four[OF assms] ds_def[symmetric] nth_append)
qed

lemma strip_zeros_split: "\<exists>k. s = strip_zeros s @ replicate k CHR ''0''"
proof -
  have "takeWhile (\<lambda>c. c = CHR ''0'') (rev s) = replicate (length (takeWhile (\<lambda>c. c = CHR ''0'') (rev s))) CHR ''0''"
    by (rule replicate_eqI) (auto dest: set_takeWhileD)
  then show ?thesis
    by (metis rev_append rev_replicate rev_rev_ident strip_zeros_def takeWhile_dropWhile_id)
qed

lemma digits_val_zeros: "digits_val (s @ replicate k CHR ''0'') = digits_val s * 10 ^ k"
  by (induction k) (simp_all add: replicate_append_same[symmetric] digit_val_def flip: append_assoc)

lemma get_frac_text:
  assumes "ns < 1000000000" shows "get_frac (frac_text ns @ ''Z'') = (int ns, ''Z'')"
proof (cases "ns = 0")
  case True
  then show ?thesis by (simp add: frac_text_def get_frac_def)
next
  case False
  obtain k where k: "fixed_digits 9 ns = strip_zeros (fixed_digits 9 ns) @ replicate k CHR ''0''"
    using strip_zeros_split by blast
  define s where "s = strip_zeros (fixed_digits 9 ns)"
  have len: "length s + k = 9" using arg_cong[OF k, of length] by (simp add: s_def)
  have val: "digits_val s * 10 ^ k = int ns"
  proof -
    have "digits_val (fixed_digits 9 ns) = int ns" using assms by (simp add: val_fixed_digits)
    then show ?thesis using k by (metis digits_val_zeros s_def)
  qed
  have dig: "list_all is_digit s" using k digits_fixed_digits[of 9 ns] by (metis list_all_append s_def)
  have ne: "s \<noteq> []" using val False by auto
  have "takeWhile is_digit (s @ ''Z'') = s" "dropWhile is_digit (s @ ''Z'') = ''Z''"
    using dig by (simp_all add: list_all_iff takeWhile_append dropWhile_append is_digit_def)
  moreover have "k = 9 - length s" using len by simp
  ultimately show ?thesis
    using False ne len val by (simp add: frac_text_def get_frac_def s_def[symmetric] Let_def)
qed

lemma expect_same [simp]: "expect c (c # r) = Some r"
  by (simp add: expect_def)

lemma parse_date_text:
  assumes "0 \<le> y" "y < 10000" "1 \<le> mo" "mo \<le> 12" "1 \<le> d" "d \<le> 31"
  shows "parse_date (year_text y @ CHR ''-'' # two mo @ CHR ''-'' # two d @ r) = Some ((y, mo, d), r)"
  using assms by (simp add: parse_date_def getyear_text getnum_two in_range_def)

lemma parse_clock_text:
  assumes "0 \<le> s" "s < 86400"
  shows "parse_clock (two (s div 3600) @ CHR '':'' # two (s div 60 mod 60) @ CHR '':'' # two (s mod 60) @ r) = Some (s, r)"
proof -
  obtain h m r where e: "h = s div 3600" "m = s div 60 mod 60" "r = s mod 60" by simp
  have "s div 3600 = s div 60 div 60" using zdiv_zmult2_eq[of 60 s 60] by simp
  then have "s div 60 = h * 60 + m" by (simp add: e)
  then have "s = (h * 60 + m) * 60 + r" by (metis e(3) div_mult_mod_eq)
  then have s: "h * 3600 + m * 60 + r = s" by simp
  have m: "0 \<le> m" "m < 60" "0 \<le> r" "r < 60" by (simp_all add: e)
  have "h < 24" using s m assms(2) by simp
  moreover have "0 \<le> h" using s m assms(1) by simp
  ultimately show ?thesis unfolding e[symmetric] using s m by (simp add: parse_clock_def getnum_two in_range_def)
qed

lemma get_zone_Z: "get_zone ''Z'' = Some (0, [])"
  by (simp add: get_zone_def)

lemma days_before_mono:
  assumes "x \<le> y" shows "days_before x \<le> days_before y"
proof -
  have "(x - 1) div 4 \<le> (y - 1) div 4" "(x - 1) div 400 \<le> (y - 1) div 400"
    using assms by (simp_all add: zdiv_mono1)
  moreover have "(y - 1) div 100 - (x - 1) div 100 \<le> y - x"
  proof -
    have "p - q \<le> y - x" if "y - 1 = p * 100 + r" "x - 1 = q * 100 + s" "0 \<le> r" "s < 100" for p q r s
      using that assms by linarith
    then show ?thesis by (metis div_mult_mod_eq pos_mod_bound pos_mod_sign zero_less_numeral)
  qed
  moreover have "365 * (x - 1) + a - b + c \<le> 365 * (y - 1) + a' - b' + c'"
    if "a \<le> a'" "c \<le> c'" "b' - b \<le> y - x" for a b c a' b' c'
    using that assms by simp
  ultimately show ?thesis unfolding days_before_def by blast
qed

lemma civil_year_bound:
  assumes "civil_of_days d = (y, mo, dd)" "d < days_before z" shows "y < z"
proof (rule ccontr)
  assume "\<not> y < z"
  then have "days_before z \<le> days_before y" by (intro days_before_mono) simp
  moreover have "0 \<le> sum_list (take (nat (mo - 1)) (month_lengths (is_leap y)))"
    by (rule sum_list_nonneg) (auto simp: month_lengths_def dest!: in_set_takeD split: if_splits)
  ultimately show False
    using civil_inverse(1,4)[OF assms(1)] assms(2) by (simp add: days_of_civil_def)
qed

lemma parse_format:
  assumes "representable_time t" shows "parse_rfc3339 (format_rfc3339 t) = Some t"
proof -
  define secs where "secs = t div second_ns"
  obtain y mo d where c: "civil_of_days (secs div 86400) = (y, mo, d)" by (cases "civil_of_days (secs div 86400)")
  note ci = civil_inverse[OF c]
  have t: "secs * second_ns + t mod second_ns = t" by (simp add: secs_def)
  have s: "secs div 86400 * 86400 + secs mod 86400 = secs" by simp
  have ns: "0 \<le> t mod second_ns" "t mod second_ns < 1000000000" by (simp_all add: second_ns_def)
  have sod: "0 \<le> secs mod 86400" "secs mod 86400 < 86400" by simp_all
  have lo: "0 \<le> secs div 86400"
    using assms by (simp add: representable_time_def secs_def second_ns_def pos_imp_zdiv_nonneg_iff)
  have hi: "secs div 86400 < days_before 10000"
  proof -
    have "secs div 86400 * 86400 * second_ns \<le> t"
      using s sod t ns by (simp add: second_ns_def)
    also have "t < days_before 10000 * 86400 * second_ns" using assms by (simp add: representable_time_def)
    finally show ?thesis by (simp add: second_ns_def)
  qed
  have y: "0 \<le> y" "y < 10000" using ci(6)[OF lo] civil_year_bound[OF c hi] by simp_all
  have d: "d \<le> 31" using ci(5) days_in_le[OF ci(2,3), of y] by simp
  have f: "get_frac (frac_text (nat (t mod second_ns)) @ ''Z'') = (t mod second_ns, ''Z'')"
    using get_frac_text[of "nat (t mod second_ns)"] ns by simp
  have "format_rfc3339 t =
      year_text y @ CHR ''-'' # two mo @ CHR ''-'' # two d @ CHR ''T'' # two (secs mod 86400 div 3600) @
      CHR '':'' # two (secs mod 86400 div 60 mod 60) @ CHR '':'' # two (secs mod 86400 mod 60) @
      frac_text (nat (t mod second_ns)) @ ''Z''"
    by (simp only: format_rfc3339_def Let_def secs_def[symmetric] c prod.case)
  moreover have "(days_of_civil y mo d * 86400 + secs mod 86400) * second_ns + t mod second_ns = t"
    using ci(1) s t by simp
  ultimately show ?thesis
    unfolding parse_rfc3339_def
    by (simp only: parse_date_text[OF y ci(2-4) d] parse_clock_text[OF sod] expect_same bind.bind_lunit prod.case
        f get_zone_Z Let_def) (use ci(4,5) in simp)
qed

interpretation time_text: text_codec format_rfc3339 parse_rfc3339 representable_time
  by unfold_locales (rule parse_format)

interpretation uuid_text: text_codec String "\<lambda>s. case Parse s of Inl e \<Rightarrow> None | Inr u \<Rightarrow> Some u"
  "\<lambda>u. wf_uuid u \<and> \<not> IsNil u"
  by unfold_locales (simp add: Parse_String_wf)

end
