(* ===== verification/Json.thy ===== *)
theory Json
  imports Decimal
begin

text \<open>
  What the packages use of \<^verbatim>\<open>encoding/json\<close>: a document as a tree, a string member with the
  UTF-8 coercion the encoder applies, and the matching of a member name to a struct field. A
  \<^verbatim>\<open>json.RawMessage\<close> is carried as the document it holds; white space and escapes, which the
  encoder and the decoder cancel, are not part of the tree. A number keeps its literal text.
\<close>

datatype json =
    JNull
  | JBool bool
  | JNum string
  | JStr string
  | JArr "json list"
  | JObj "(string \<times> json) list"

text \<open>A \<^verbatim>\<open>json.RawMessage\<close>: empty, a document, or bytes that are none.\<close>

datatype raw = Absent | Document json | NotJson string

section \<open>UTF-8\<close>

definition in_byte :: "nat \<Rightarrow> nat \<Rightarrow> char \<Rightarrow> bool" where
  "in_byte lo hi c \<longleftrightarrow> lo \<le> (of_char c :: nat) \<and> (of_char c :: nat) \<le> hi"

text \<open>The length of the well-formed rune a text starts with (\<^verbatim>\<open>utf8.DecodeRune\<close>), 0 for none.\<close>

fun rune_len :: "string \<Rightarrow> nat" where
  "rune_len [] = 0"
| "rune_len (a # s) =
     (if in_byte 0 0x7F a then 1
      else if in_byte 0xC2 0xDF a then
        (case s of b # _ \<Rightarrow> if in_byte 0x80 0xBF b then 2 else 0 | _ \<Rightarrow> 0)
      else if in_byte 0xE0 0xEF a then
        (case s of
           b # c # _ \<Rightarrow>
             if in_byte (if a = CHR 0xE0 then 0xA0 else 0x80) (if a = CHR 0xED then 0x9F else 0xBF) b
                \<and> in_byte 0x80 0xBF c then 3 else 0
         | _ \<Rightarrow> 0)
      else if in_byte 0xF0 0xF4 a then
        (case s of
           b # c # d # _ \<Rightarrow>
             if in_byte (if a = CHR 0xF0 then 0x90 else 0x80) (if a = CHR 0xF4 then 0x8F else 0xBF) b
                \<and> in_byte 0x80 0xBF c \<and> in_byte 0x80 0xBF d then 4 else 0
         | _ \<Rightarrow> 0)
      else 0)"

text \<open>Each byte that starts no well-formed rune becomes U+FFFD.\<close>

function coerce_utf8 :: "string \<Rightarrow> string" where
  "coerce_utf8 s =
     (case s of
        [] \<Rightarrow> []
      | c # r \<Rightarrow>
          let n = rune_len s in
          if n = 0 then [CHR 0xEF, CHR 0xBF, CHR 0xBD] @ coerce_utf8 r
          else take n s @ coerce_utf8 (drop n s))"
  by pat_completeness auto
termination by (relation "measure length") auto

declare coerce_utf8.simps [simp del]

definition valid_utf8 :: "string \<Rightarrow> bool" where
  "valid_utf8 s \<longleftrightarrow> coerce_utf8 s = s"

definition is_ascii :: "char \<Rightarrow> bool" where
  "is_ascii c \<longleftrightarrow> (of_char c :: nat) < 128"

lemma ascii_valid: "list_all is_ascii s \<Longrightarrow> coerce_utf8 s = s"
proof (induction s)
  case Nil
  then show ?case by (subst coerce_utf8.simps) simp
next
  case (Cons c s)
  then have "rune_len (c # s) = 1" by (simp add: is_ascii_def in_byte_def)
  with Cons show ?case by (subst coerce_utf8.simps) simp
qed

definition json_string :: "string \<Rightarrow> json" where
  "json_string s = JStr (coerce_utf8 s)"

section \<open>Struct fields\<close>

text \<open>
  The case folding under which the decoder matches a member name to a field when no field has
  exactly that name: ASCII case, and the two runes that fold to \<^verbatim>\<open>s\<close> and \<^verbatim>\<open>k\<close>.
\<close>

fun fold_key :: "string \<Rightarrow> string" where
  "fold_key [] = []"
| "fold_key (c # s) =
     (if c = CHR 0xC5 \<and> take 1 s = [CHR 0xBF] then CHR ''s'' # fold_key (drop 1 s)
      else if c = CHR 0xE2 \<and> take 2 s = [CHR 0x84, CHR 0xAA] then CHR ''k'' # fold_key (drop 2 s)
      else lower_char c # fold_key s)"

definition match_field :: "string list \<Rightarrow> string \<Rightarrow> string option" where
  "match_field fields k =
     (if k \<in> set fields then Some k else find (\<lambda>f. fold_key f = fold_key k) fields)"

text \<open>Decoding an object into a struct: the members in order, a later one overwriting an earlier.\<close>

fun decode_members ::
  "(string \<Rightarrow> json \<Rightarrow> 'w \<Rightarrow> 'w result) \<Rightarrow> string list \<Rightarrow> (string \<times> json) list \<Rightarrow> 'w \<Rightarrow> 'w result" where
  "decode_members set_field fields [] w = Inr w"
| "decode_members set_field fields ((k, v) # ms) w =
     (case match_field fields k of
        None \<Rightarrow> decode_members set_field fields ms w
      | Some f \<Rightarrow> bind_result (set_field f v w) (decode_members set_field fields ms))"

definition type_error :: goerror where
  "type_error = New ''json: cannot unmarshal value into Go struct field''"

definition decode_struct ::
  "(string \<Rightarrow> json \<Rightarrow> 'w \<Rightarrow> 'w result) \<Rightarrow> string list \<Rightarrow> json \<Rightarrow> 'w \<Rightarrow> 'w result" where
  "decode_struct set_field fields j w =
     (case j of
        JObj ms \<Rightarrow> decode_members set_field fields ms w
      | JNull \<Rightarrow> Inr w
      | _ \<Rightarrow> Inl type_error)"

text \<open>A string and an integer field; \<^verbatim>\<open>null\<close> leaves either as it is.\<close>

definition decode_string :: "json \<Rightarrow> string \<Rightarrow> string result" where
  "decode_string j old = (case j of JStr s \<Rightarrow> Inr s | JNull \<Rightarrow> Inr old | _ \<Rightarrow> Inl type_error)"

definition decode_int64 :: "json \<Rightarrow> int \<Rightarrow> int result" where
  "decode_int64 j old =
     (case j of
        JNum lit \<Rightarrow> (case atoi lit of None \<Rightarrow> Inl type_error | Some n \<Rightarrow> Inr n)
      | JNull \<Rightarrow> Inr old
      | _ \<Rightarrow> Inl type_error)"

lemma match_field_exact [simp]: "k \<in> set fields \<Longrightarrow> match_field fields k = Some k"
  by (simp add: match_field_def)

lemma decode_string_json_string [simp]:
  "decode_string (json_string s) old = Inr (coerce_utf8 s)"
  by (simp add: decode_string_def json_string_def)

lemma decode_int64_show [simp]:
  "- (2 ^ 63) \<le> n \<Longrightarrow> n < 2 ^ 63 \<Longrightarrow> decode_int64 (JNum (show_int n)) old = Inr n"
  using int64_text.parse_print[of n] by (simp add: decode_int64_def)

lemma decode_members_append:
  "decode_members set_field fields (ms @ ns) w =
     bind_result (decode_members set_field fields ms w) (decode_members set_field fields ns)"
  by (induction set_field fields ms w rule: decode_members.induct)
    (auto split: option.split simp: bind_result_def split: sum.split)

end
