(* ===== verification/Jsonb.thy ===== *)
theory Jsonb
  imports Complex_Main Json
begin

text \<open>
  What the packages use of PostgreSQL's \<^verbatim>\<open>jsonb\<close>. A document written to a \<^verbatim>\<open>jsonb\<close> column is not kept as it was
  sent: an object keeps the last of the members with one name, and its members are ordered by the length of the name and then by
  its bytes; a number becomes a \<^verbatim>\<open>numeric\<close>, which has no exponent and no negative zero and keeps the digits after
  the point. Reading the column gives that normal form, \<open>jsonb j\<close>. What a document says is its value \<open>denotes j\<close>: the
  normal form has the value of the document it came from. A document the server refuses, a NUL in a string or a number out of
  \<^verbatim>\<open>numeric\<close>'s range, is an error of the statement that sends it.
\<close>

section \<open>Members in the order of a key\<close>

text \<open>Setting a member of an object whose members are in the order \<open>lt\<close>.\<close>

fun put_by :: "(string \<Rightarrow> string \<Rightarrow> bool) \<Rightarrow> string \<Rightarrow> 'v \<Rightarrow> (string \<times> 'v) list \<Rightarrow> (string \<times> 'v) list" where
  "put_by lt k v [] = [(k, v)]"
| "put_by lt k v ((k', v') # ms) =
     (if k = k' then (k, v) # ms
      else if lt k k' then (k, v) # (k', v') # ms
      else (k', v') # put_by lt k v ms)"

definition put_all :: "(string \<Rightarrow> string \<Rightarrow> bool) \<Rightarrow> (string \<times> 'v) list \<Rightarrow> (string \<times> 'v) list" where
  "put_all lt ms = fold (\<lambda>m acc. put_by lt (fst m) (snd m) acc) ms []"

lemma put_by_set: "fst ` set (put_by lt k v ms) = insert k (fst ` set ms)"
  by (induction lt k v ms rule: put_by.induct) auto

lemma put_by_members: "m \<in> set (put_by lt k v ms) \<Longrightarrow> m = (k, v) \<or> m \<in> set ms"
  by (induction lt k v ms rule: put_by.induct) (auto split: if_splits)

lemma map_of_put_by: "map_of (put_by lt k v ms) = (map_of ms)(k \<mapsto> v)"
  by (induction lt k v ms rule: put_by.induct) (auto simp: fun_eq_iff)

lemma put_by_map: "map (map_prod id f) (put_by lt k v ms) = put_by lt k (f v) (map (map_prod id f) ms)"
  by (induction lt k v ms rule: put_by.induct) auto

lemma put_all_members: "x \<in> set (put_all lt ms) \<Longrightarrow> x \<in> set ms"
proof -
  have "x \<in> set (fold (\<lambda>m acc. put_by lt (fst m) (snd m) acc) ms acc) \<Longrightarrow> x \<in> set acc \<or> x \<in> set ms" for acc
    by (induction ms arbitrary: acc) (auto, metis put_by_members)
  then show "x \<in> set (put_all lt ms) \<Longrightarrow> x \<in> set ms" by (fastforce simp: put_all_def)
qed

lemma put_all_map: "map (map_prod id f) (put_all lt ms) = put_all lt (map (map_prod id f) ms)"
proof -
  have "map (map_prod id f) (fold (\<lambda>m acc. put_by lt (fst m) (snd m) acc) ms acc)
      = fold (\<lambda>m acc. put_by lt (fst m) (snd m) acc) (map (map_prod id f) ms) (map (map_prod id f) acc)" for acc
    by (induction ms arbitrary: acc) (simp_all add: put_by_map)
  from this[of "[]"] show ?thesis by (simp add: put_all_def)
qed

text \<open>The last member of a name is the one that counts.\<close>

lemma map_of_put_all: "map_of (put_all lt ms) = map_of (rev ms)"
proof -
  have "map_of (fold (\<lambda>m acc. put_by lt (fst m) (snd m) acc) ms acc) = map_of acc ++ map_of (rev ms)" for acc
    by (induction ms arbitrary: acc) (auto simp: map_of_put_by)
  from this[of "[]"] show ?thesis by (simp add: put_all_def)
qed

locale key_order =
  fixes lt :: "string \<Rightarrow> string \<Rightarrow> bool"
  assumes lt_irrefl: "\<not> lt a a"
    and lt_trans: "lt a b \<Longrightarrow> lt b c \<Longrightarrow> lt a c"
    and lt_total: "a \<noteq> b \<Longrightarrow> \<not> lt a b \<Longrightarrow> lt b a"
begin

lemma put_sorted: "sorted_wrt lt (map fst ms) \<Longrightarrow> sorted_wrt lt (map fst (put_by lt k v ms))"
proof (induction ms)
  case (Cons m ms)
  have "lt (fst m) x" if "x \<in> fst ` set (put_by lt k v ms)" "k \<noteq> fst m" "\<not> lt k (fst m)" for x
    using that Cons.prems lt_total[of k "fst m"] by (auto simp: put_by_set)
  with Cons show ?case by (cases m) (auto intro: lt_trans)
qed simp

lemma sorted_all: "sorted_wrt lt (map fst (put_all lt ms))"
proof -
  have "sorted_wrt lt (map fst acc) \<Longrightarrow> sorted_wrt lt (map fst (fold (\<lambda>m acc. put_by lt (fst m) (snd m) acc) ms acc))" for acc
    by (induction ms arbitrary: acc) (auto intro: put_sorted)
  then show ?thesis by (simp add: put_all_def)
qed

lemma sorted_distinct: "sorted_wrt lt ks \<Longrightarrow> distinct ks"
  by (induction ks) (auto simp: lt_irrefl)

lemma distinct_all: "distinct (map fst (put_all lt ms))"
  by (rule sorted_distinct[OF sorted_all])

lemma put_last: "sorted_wrt lt (ks @ [k]) \<Longrightarrow> map fst ms = ks \<Longrightarrow> put_by lt k v ms = ms @ [(k, v)]"
  by (induction ms arbitrary: ks) (auto dest: lt_trans simp: lt_irrefl, metis lt_irrefl lt_trans)

lemma fold_sorted:
  "sorted_wrt lt (map fst (acc @ ms)) \<Longrightarrow> fold (\<lambda>m acc. put_by lt (fst m) (snd m) acc) ms acc = acc @ ms"
proof (induction ms arbitrary: acc)
  case (Cons m ms)
  have "put_by lt (fst m) (snd m) acc = acc @ [m]"
    using put_last[OF _ refl, of acc "fst m" "snd m"] Cons.prems by (simp add: sorted_wrt_append)
  with Cons show ?case by simp
qed simp

lemma put_all_sorted: "sorted_wrt lt (map fst ms) \<Longrightarrow> put_all lt ms = ms"
  using fold_sorted[of "[]" ms] by (simp add: put_all_def)

end

text \<open>The order of bytes, which is the order of Go's strings.\<close>

fun str_less :: "string \<Rightarrow> string \<Rightarrow> bool" where
  "str_less s [] = False"
| "str_less [] (d # t) = True"
| "str_less (c # s) (d # t) =
     ((of_char c :: nat) < of_char d \<or> c = d \<and> str_less s t)"

lemma str_less_irrefl: "\<not> str_less s s"
  by (induction s) auto

lemma str_less_trans: "str_less a b \<Longrightarrow> str_less b c \<Longrightarrow> str_less a c"
proof (induction a b arbitrary: c rule: str_less.induct)
  case (2 d t)
  then show ?case by (cases c) auto
next
  case (3 x s d t)
  then show ?case by (cases c) auto
qed simp

lemma str_less_total: "a \<noteq> b \<Longrightarrow> \<not> str_less a b \<Longrightarrow> str_less b a"
proof (induction a b rule: str_less.induct)
  case (1 s)
  then show ?case by (cases s) auto
next
  case (3 c s d t)
  have "(of_char c :: nat) = of_char d \<longleftrightarrow> c = d" by simp
  with 3 show ?case by auto
qed simp

interpretation go_keys: key_order str_less
  by unfold_locales (auto simp: str_less_irrefl str_less_total intro: str_less_trans)

text \<open>The order of \<^verbatim>\<open>jsonb\<close>: a shorter name first.\<close>

definition jsonb_less :: "string \<Rightarrow> string \<Rightarrow> bool" where
  "jsonb_less a b \<longleftrightarrow> length a < length b \<or> length a = length b \<and> str_less a b"

interpretation jsonb_keys: key_order jsonb_less
proof unfold_locales
  show "jsonb_less a c" if "jsonb_less a b" "jsonb_less b c" for a b c
    using that str_less_trans[of a b c] by (auto simp: jsonb_less_def)
  show "jsonb_less b a" if "a \<noteq> b" "\<not> jsonb_less a b" for a b
    using that str_less_total[of a b] by (auto simp: jsonb_less_def)
qed (simp add: jsonb_less_def str_less_irrefl)

section \<open>Numbers\<close>

text \<open>The sign, the digits before and after the point, and the exponent of a number's text.\<close>

definition exponent :: "string \<Rightarrow> int" where
  "exponent r =
     (case r of
        [] \<Rightarrow> 0
      | e # s \<Rightarrow> if take 1 s = ''-'' then - digits_val (takeWhile is_digit (drop 1 s))
                 else if take 1 s = ''+'' then digits_val (takeWhile is_digit (drop 1 s))
                 else digits_val (takeWhile is_digit s))"

definition number_parts :: "string \<Rightarrow> bool \<times> string \<times> string \<times> int" where
  "number_parts lit =
     (let neg = take 1 lit = ''-'';
          r = if neg then drop 1 lit else lit;
          ip = takeWhile is_digit r; r1 = dropWhile is_digit r;
          fraction = take 1 r1 = ''.'';
          fp = if fraction then takeWhile is_digit (drop 1 r1) else [];
          r2 = if fraction then dropWhile is_digit (drop 1 r1) else r1
      in (neg, ip, fp, exponent r2))"

definition number_value :: "string \<Rightarrow> rat" where
  "number_value lit =
     (case number_parts lit of (neg, ip, fp, ex) \<Rightarrow>
        (if neg then - 1 else 1) * of_int (digits_val (ip @ fp)) * 10 powi (ex - int (length fp)))"

text \<open>
  The text of the \<^verbatim>\<open>numeric\<close> a number becomes: as many digits after the point as the number has, after the
  exponent has moved the point.
\<close>

definition numeric_text :: "string \<Rightarrow> string" where
  "numeric_text lit =
     (case number_parts lit of (neg, ip, fp, ex) \<Rightarrow>
        let scale = nat (int (length fp) - ex);
            n = nat (digits_val (ip @ fp)) * 10 ^ nat (ex - int (length fp))
        in (if neg \<and> n \<noteq> 0 then ''-'' else '''') @ show_nat (n div 10 ^ scale)
           @ (if scale = 0 then '''' else CHR ''.'' # fixed_digits scale (n mod 10 ^ scale)))"

section \<open>Documents\<close>

primrec jsonb :: "json \<Rightarrow> json" where
  "jsonb JNull = JNull"
| "jsonb (JBool b) = JBool b"
| "jsonb (JNum lit) = JNum (numeric_text lit)"
| "jsonb (JStr s) = JStr s"
| "jsonb (JArr xs) = JArr (map jsonb xs)"
| "jsonb (JObj ms) = JObj (put_all jsonb_less (map (map_prod id jsonb) ms))"

text \<open>\<^verbatim>\<open>jsonb_set(j, '{k}', v, true)\<close> on an object; its other documents are an error no caller can reach.\<close>

definition jsonb_set :: "json \<Rightarrow> string \<Rightarrow> json \<Rightarrow> json" where
  "jsonb_set j k v = (case j of JObj ms \<Rightarrow> JObj (put_by jsonb_less k v ms) | _ \<Rightarrow> j)"

text \<open>What a document says: the last of the members with one name, and a number's value.\<close>

datatype jvalue =
    VNull
  | VBool bool
  | VNum rat
  | VStr string
  | VArr "jvalue list"
  | VObj "string \<Rightarrow> jvalue option"

primrec denotes :: "json \<Rightarrow> jvalue" where
  "denotes JNull = VNull"
| "denotes (JBool b) = VBool b"
| "denotes (JNum lit) = VNum (number_value lit)"
| "denotes (JStr s) = VStr s"
| "denotes (JArr xs) = VArr (map denotes xs)"
| "denotes (JObj ms) = VObj (map_of (rev (map (map_prod id denotes) ms)))"

fun unique_members :: "json \<Rightarrow> bool" where
  "unique_members (JObj ms) \<longleftrightarrow> distinct (map fst ms) \<and> (\<forall>m \<in> set ms. unique_members (snd m))"
| "unique_members (JArr xs) \<longleftrightarrow> (\<forall>x \<in> set xs. unique_members x)"
| "unique_members j = True"

section \<open>The normal form says the same\<close>

lemma digits_val_append: "digits_val (s @ t) = digits_val s * 10 ^ length t + digits_val t"
  by (induction t rule: rev_induct) (simp_all add: algebra_simps flip: append_assoc)

lemma takeWhile_digits: "list_all is_digit ds \<Longrightarrow> \<not> is_digit c \<Longrightarrow>
    takeWhile is_digit (ds @ c # r) = ds \<and> dropWhile is_digit (ds @ c # r) = c # r"
  by (induction ds) auto

lemma takeWhile_all_digits: "list_all is_digit ds \<Longrightarrow> takeWhile is_digit ds = ds \<and> dropWhile is_digit ds = []"
  by (induction ds) auto

lemma not_digit_point: "\<not> is_digit CHR ''.''"
  by (simp add: is_digit_def)

text \<open>The parts of a text without an exponent.\<close>

lemma parts_decimal:
  assumes "list_all is_digit ip" "ip \<noteq> []" "list_all is_digit fp"
  shows "number_parts ((if neg then ''-'' else '''') @ ip @ (if fp = [] then [] else CHR ''.'' # fp)) = (neg, ip, fp, 0)"
proof -
  obtain c cs where c: "ip = c # cs" "c \<noteq> CHR ''-''" using assms(1,2) digit_not_sign by (cases ip) auto
  show ?thesis
    using takeWhile_digits[OF assms(1) not_digit_point, of fp] takeWhile_all_digits[OF assms(1)] takeWhile_all_digits[OF assms(3)] c
    by (cases neg; cases "fp = []") (simp_all add: number_parts_def Let_def exponent_def not_digit_point del: dropWhile_eq_Nil_conv takeWhile_eq_all_conv)
qed

lemma number_parts_digits:
  assumes "number_parts lit = (neg, ip, fp, ex)"
  shows "list_all is_digit (ip @ fp)"
  using assms by (auto simp: number_parts_def Let_def list_all_iff dest: set_takeWhileD split: if_splits)

lemma numeric_text_parts:
  assumes "number_parts lit = (neg, ip, fp, ex)"
    and "scale = nat (int (length fp) - ex)" "n = nat (digits_val (ip @ fp)) * 10 ^ nat (ex - int (length fp))"
  shows "number_parts (numeric_text lit) = (neg \<and> n \<noteq> 0, show_nat (n div 10 ^ scale), fixed_digits scale (n mod 10 ^ scale), 0)"
proof -
  have "fixed_digits scale (n mod 10 ^ scale) = [] \<longleftrightarrow> scale = 0" by (metis length_0_conv length_fixed_digits)
  moreover have "numeric_text lit = (if neg \<and> n \<noteq> 0 then ''-'' else '''') @ show_nat (n div 10 ^ scale)
      @ (if scale = 0 then '''' else CHR ''.'' # fixed_digits scale (n mod 10 ^ scale))"
    unfolding numeric_text_def assms(1) by (simp add: assms(2,3) Let_def)
  ultimately show ?thesis
    using parts_decimal[of "show_nat (n div 10 ^ scale)" "fixed_digits scale (n mod 10 ^ scale)" "neg \<and> n \<noteq> 0"]
      show_nat_props digits_fixed_digits by simp
qed

lemma number_value_numeric: "number_value (numeric_text lit) = number_value lit"
proof -
  obtain neg ip fp ex where p: "number_parts lit = (neg, ip, fp, ex)" by (cases "number_parts lit") auto
  define scale where "scale = nat (int (length fp) - ex)"
  define d where "d = nat (digits_val (ip @ fp))"
  define n where "n = d * 10 ^ nat (ex - int (length fp))"
  have d: "digits_val (ip @ fp) = int d" using digits_val_nonneg[OF number_parts_digits[OF p]] by (simp add: d_def)
  have v: "digits_val (show_nat (n div 10 ^ scale) @ fixed_digits scale (n mod 10 ^ scale)) = int n"
    using show_nat_props[of "n div 10 ^ scale"] val_fixed_digits[of "n mod 10 ^ scale" scale]
      arg_cong[OF div_mult_mod_eq[of n "10 ^ scale"], of int]
    by (simp only: digits_val_append length_fixed_digits of_nat_add of_nat_mult of_nat_power of_nat_numeral) simp
  have "(of_nat n :: rat) * 10 powi (- int scale) = of_nat d * 10 powi (ex - int (length fp))"
  proof (cases "ex \<le> int (length fp)")
    case True
    then show ?thesis by (simp add: n_def scale_def)
  next
    case False
    then show ?thesis by (simp add: n_def scale_def power_int_def)
  qed
  moreover have "n = 0 \<longleftrightarrow> d = 0" by (simp add: n_def)
  ultimately show ?thesis
    unfolding number_value_def numeric_text_parts[OF p scale_def n_def[unfolded d_def]] p
    by (auto simp: d v mult.assoc)
qed

lemma numeric_text_nat: "numeric_text (show_nat n) = show_nat n"
proof -
  have "number_parts (show_nat n) = (False, show_nat n, [], 0)"
    using parts_decimal[of "show_nat n" "[]" False] show_nat_props[of n] by simp
  then show ?thesis using show_nat_props[of n] by (simp add: numeric_text_def)
qed

lemma numeric_text_int: "0 \<le> n \<Longrightarrow> numeric_text (show_int n) = show_int n"
  by (simp add: show_int_def numeric_text_nat)

lemma jsonb_denotes: "denotes (jsonb j) = denotes j"
proof (induction j)
  case (JObj ms)
  have "map (map_prod id denotes) (put_all jsonb_less (map (map_prod id jsonb) ms))
      = put_all jsonb_less (map (map_prod id (denotes \<circ> jsonb)) ms)"
    by (simp add: put_all_map map_prod.comp)
  also have "map (map_prod id (denotes \<circ> jsonb)) ms = map (map_prod id denotes) ms"
    using JObj by (auto simp: prod_set_defs)
  finally have m: "map (map_prod id denotes) (put_all jsonb_less (map (map_prod id jsonb) ms))
      = put_all jsonb_less (map (map_prod id denotes) ms)" .
  have "map_of (rev (put_all jsonb_less xs)) = map_of (rev xs)" for xs :: "(string \<times> jvalue) list"
    using map_of_inject_set[of "rev (put_all jsonb_less xs)" "put_all jsonb_less xs"] jsonb_keys.distinct_all[of xs]
    by (simp add: map_of_put_all flip: rev_map)
  then show ?case by (simp add: m)
qed (auto simp: number_value_numeric)

lemma jsonb_unique: "unique_members (jsonb j)"
proof (induction j)
  case (JObj ms)
  have "unique_members (snd x)" if "x \<in> set (put_all jsonb_less (map (map_prod id jsonb) ms))" for x
    using put_all_members[OF that] JObj by (auto simp: prod_set_defs)
  then show ?case by (simp add: jsonb_keys.distinct_all)
qed auto

lemma jsonb_sorted: "jsonb (JObj ms) = JObj ns \<Longrightarrow> sorted_wrt jsonb_less (map fst ns)"
  using jsonb_keys.sorted_all[of "map (map_prod id jsonb) ms"] by auto

end
