(* ===== verification/Envelope.thy ===== *)
theory Envelope
  imports EventType Rfc3339 Json
begin

text \<open>
  \<^verbatim>\<open>src/event/envelope.go\<close>: the source reference, the CloudEvents envelope, its construction,
  its validation and its JSON form. \<^verbatim>\<open>json.Marshal\<close> of the payload is the argument
  \<open>payload\<close> of \<open>New_envelope\<close> (the document, or the error). The quoted values the source
  formats into an error text are left out.
\<close>

section \<open>Sources\<close>

type_synonym event_source = string

definition ParseSource :: "string \<Rightarrow> event_source result" where
  "ParseSource s =
     (if s = '''' then Inl (New ''event: source must not be empty'')
      else if \<not> has_prefix s ''/'' then Inl (New ''event: source must be an absolute path reference'')
      else if CHR '' '' \<in> set s then Inl (New ''event: source must not contain a space'')
      else Inr s)"

definition MustParseSource :: "string \<Rightarrow> event_source option" where
  "MustParseSource s = (case ParseSource s of Inl e \<Rightarrow> None | Inr src \<Rightarrow> Some src)"

section \<open>The envelope\<close>

definition SpecVersion :: string where "SpecVersion = ''1.0''"

definition ContentTypeJSON :: string where "ContentTypeJSON = ''application/json''"

record envelope =
  e_SpecVersion :: string
  e_ID :: uuid
  e_Source :: event_source
  e_Type :: event_type
  e_Time :: time
  e_DataContentType :: string
  e_DataSchema :: string
  e_StreamPosition :: int
  e_Data :: raw

definition zero_envelope :: envelope where
  "zero_envelope = \<lparr>e_SpecVersion = '''', e_ID = Nil_uuid, e_Source = '''', e_Type = '''', e_Time = 0,
     e_DataContentType = '''', e_DataSchema = '''', e_StreamPosition = 0, e_Data = Absent\<rparr>"

definition New_envelope ::
  "generator \<Rightarrow> 64 word list \<Rightarrow> byte list result \<Rightarrow> event_source \<Rightarrow> event_type \<Rightarrow> time \<Rightarrow> json result
     \<Rightarrow> (generator \<times> envelope result \<times> 64 word list) option" where
  "New_envelope g clock rnd source typ occurredAt payload =
     (if source = '''' then Some (g, Inl (New ''event: source is required''), clock)
      else if typ = '''' then Some (g, Inl (New ''event: type is required''), clock)
      else if occurredAt = 0 then Some (g, Inl (New ''event: occurredAt is required''), clock)
      else case NewV7 g clock rnd of
             None \<Rightarrow> None
           | Some (g', Inl err, clock') \<Rightarrow>
               Some (g', Inl (Wrapf ''event: generating identifier'' [err]), clock')
           | Some (g', Inr eventID, clock') \<Rightarrow>
               Some (g', case payload of
                   Inl err \<Rightarrow> Inl (Wrapf ''event: marshalling payload'' [err])
                 | Inr data \<Rightarrow> Inr \<lparr>e_SpecVersion = SpecVersion, e_ID = eventID, e_Source = source,
                     e_Type = typ, e_Time = occurredAt, e_DataContentType = ContentTypeJSON,
                     e_DataSchema = '''', e_StreamPosition = 0, e_Data = Document data\<rparr>, clock'))"

definition WithSchema :: "envelope \<Rightarrow> string \<Rightarrow> envelope" where
  "WithSchema e uri = e\<lparr>e_DataSchema := uri\<rparr>"

definition WithStreamPosition :: "envelope \<Rightarrow> int \<Rightarrow> envelope" where
  "WithStreamPosition e position = e\<lparr>e_StreamPosition := position\<rparr>"

section \<open>Validation\<close>

fun error_text :: "goerror \<Rightarrow> string" where
  "error_text (New s) = s"
| "error_text (Wrapf m es) = concat (m # map (\<lambda>e. '': '' @ error_text e) es)"

definition problems :: "envelope \<Rightarrow> string list" where
  "problems e =
     (if e_SpecVersion e \<noteq> SpecVersion then [''specversion is not the supported one''] else [])
     @ (if IsNil (e_ID e) then [''id is absent''] else [])
     @ (if e_Source e = '''' then [''source is absent'']
        else case ParseSource (e_Source e) of Inl err \<Rightarrow> [error_text err] | Inr _ \<Rightarrow> [])
     @ (if e_Type e = '''' then [''type is absent'']
        else case ParseType (e_Type e) of Inl err \<Rightarrow> [error_text err] | Inr _ \<Rightarrow> [])
     @ (if e_Time e = 0 then [''time is absent''] else [])
     @ (if e_DataContentType e \<noteq> ContentTypeJSON then [''datacontenttype is not the supported one''] else [])
     @ (if e_Data e = Absent then [''data is absent''] else [])
     @ (if e_StreamPosition e < 0 then [''streamposition must not be negative''] else [])"

definition Validate :: "envelope \<Rightarrow> unit result" where
  "Validate e =
     (if problems e \<noteq> []
      then Inl (New (''event: invalid envelope: '' @ concat (map (\<lambda>p. p @ ''; '') (butlast (problems e)))
                     @ last (problems e)))
      else Inr ())"

definition ValidatePublished :: "envelope \<Rightarrow> unit result" where
  "ValidatePublished e =
     (case Validate e of
        Inl err \<Rightarrow> Inl err
      | Inr _ \<Rightarrow> if e_StreamPosition e = 0
                 then Inl (New ''event: invalid published envelope: streamposition is absent'')
                 else Inr ())"

section \<open>The JSON form\<close>

record wire =
  w_SpecVersion :: string
  w_ID :: uuid
  w_Source :: string
  w_Type :: string
  w_Time :: string
  w_DataContentType :: string
  w_DataSchema :: string
  w_StreamPosition :: int
  w_Data :: raw

definition zero_wire :: wire where
  "zero_wire = \<lparr>w_SpecVersion = '''', w_ID = Nil_uuid, w_Source = '''', w_Type = '''', w_Time = '''',
     w_DataContentType = '''', w_DataSchema = '''', w_StreamPosition = 0, w_Data = Absent\<rparr>"

definition wire_fields :: "string list" where
  "wire_fields = [''specversion'', ''id'', ''source'', ''type'', ''time'', ''datacontenttype'',
     ''dataschema'', ''streamposition'', ''data'']"

definition encode_wire :: "wire \<Rightarrow> json result" where
  "encode_wire w =
     (case w_Data w of
        NotJson _ \<Rightarrow> Inl (New ''json: error calling MarshalJSON for type json.RawMessage'')
      | d \<Rightarrow> Inr (JObj (
          [(''specversion'', json_string (w_SpecVersion w)),
           (''id'', json_string (MarshalText (w_ID w))),
           (''source'', json_string (w_Source w)),
           (''type'', json_string (w_Type w)),
           (''time'', json_string (w_Time w)),
           (''datacontenttype'', json_string (w_DataContentType w))]
          @ (if w_DataSchema w = '''' then [] else [(''dataschema'', json_string (w_DataSchema w))])
          @ (if w_StreamPosition w = 0 then [] else [(''streamposition'', JNum (show_int (w_StreamPosition w)))])
          @ [(''data'', case d of Document j \<Rightarrow> j | _ \<Rightarrow> JNull)])))"

definition set_wire :: "string \<Rightarrow> json \<Rightarrow> wire \<Rightarrow> wire result" where
  "set_wire f v w =
     (if f = ''specversion'' then map_sum id (\<lambda>s. w\<lparr>w_SpecVersion := s\<rparr>) (decode_string v (w_SpecVersion w))
      else if f = ''id'' then
        (case v of
           JStr s \<Rightarrow> (case UnmarshalText (w_ID w) s of
                       (u, Inl e) \<Rightarrow> Inl e
                     | (u, Inr _) \<Rightarrow> Inr (w\<lparr>w_ID := u\<rparr>))
         | JNull \<Rightarrow> Inr w
         | _ \<Rightarrow> Inl type_error)
      else if f = ''source'' then map_sum id (\<lambda>s. w\<lparr>w_Source := s\<rparr>) (decode_string v (w_Source w))
      else if f = ''type'' then map_sum id (\<lambda>s. w\<lparr>w_Type := s\<rparr>) (decode_string v (w_Type w))
      else if f = ''time'' then map_sum id (\<lambda>s. w\<lparr>w_Time := s\<rparr>) (decode_string v (w_Time w))
      else if f = ''datacontenttype'' then
        map_sum id (\<lambda>s. w\<lparr>w_DataContentType := s\<rparr>) (decode_string v (w_DataContentType w))
      else if f = ''dataschema'' then map_sum id (\<lambda>s. w\<lparr>w_DataSchema := s\<rparr>) (decode_string v (w_DataSchema w))
      else if f = ''streamposition'' then
        map_sum id (\<lambda>n. w\<lparr>w_StreamPosition := n\<rparr>) (decode_int64 v (w_StreamPosition w))
      else Inr (w\<lparr>w_Data := Document v\<rparr>))"

definition decode_wire :: "json \<Rightarrow> wire result" where
  "decode_wire j = decode_struct set_wire wire_fields j zero_wire"

definition wire_of :: "envelope \<Rightarrow> wire" where
  "wire_of e = \<lparr>w_SpecVersion = e_SpecVersion e, w_ID = e_ID e, w_Source = e_Source e, w_Type = e_Type e,
     w_Time = format_rfc3339 (e_Time e), w_DataContentType = e_DataContentType e,
     w_DataSchema = e_DataSchema e, w_StreamPosition = e_StreamPosition e, w_Data = e_Data e\<rparr>"

definition MarshalJSON :: "envelope \<Rightarrow> json result" where
  "MarshalJSON e = (case Validate e of Inl err \<Rightarrow> Inl err | Inr _ \<Rightarrow> encode_wire (wire_of e))"

definition candidate :: "wire \<Rightarrow> time \<Rightarrow> envelope" where
  "candidate w occurred = \<lparr>e_SpecVersion = w_SpecVersion w, e_ID = w_ID w, e_Source = w_Source w,
     e_Type = w_Type w, e_Time = occurred, e_DataContentType = w_DataContentType w,
     e_DataSchema = w_DataSchema w, e_StreamPosition = w_StreamPosition w, e_Data = w_Data w\<rparr>"

text \<open>\<^verbatim>\<open>UnmarshalJSON\<close> writes through its receiver only when it returns no error.\<close>

definition UnmarshalJSON :: "envelope \<Rightarrow> json \<Rightarrow> envelope \<times> unit result" where
  "UnmarshalJSON e b =
     (case decode_wire b of
        Inl err \<Rightarrow> (e, Inl (Wrapf ''event: decoding envelope'' [err]))
      | Inr w \<Rightarrow>
          (case parse_rfc3339 (w_Time w) of
             None \<Rightarrow> (e, Inl (New ''event: decoding time''))
           | Some occurred \<Rightarrow>
               (case Validate (candidate w occurred) of
                  Inl err \<Rightarrow> (e, Inl err)
                | Inr _ \<Rightarrow> (candidate w occurred, Inr ()))))"

definition UnmarshalData :: "envelope \<Rightarrow> (json \<Rightarrow> 'a result) \<Rightarrow> 'a result" where
  "UnmarshalData e target =
     (case e_Data e of
        Absent \<Rightarrow> Inl (New ''event: envelope carries no data'')
      | NotJson _ \<Rightarrow> Inl (Wrapf ''event: decoding data'' [New ''json: syntax error''])
      | Document j \<Rightarrow> (case target j of
            Inl err \<Rightarrow> Inl (Wrapf ''event: decoding data'' [err])
          | Inr x \<Rightarrow> Inr x))"

section \<open>What validation accepts\<close>

lemma ParseSource_Inr [simp]:
  "ParseSource s = Inr t \<longleftrightarrow> t = s \<and> has_prefix s ''/'' \<and> CHR '' '' \<notin> set s"
  by (auto simp: ParseSource_def has_prefix_def)

lemma ParseType_empty: "ParseType '''' \<noteq> Inr t"
  by (simp add: ParseType_def has_prefix_def typePrefix_def)

lemma ParseType_unchanged: "ParseType s = Inr t \<Longrightarrow> t = s"
  by (simp add: ParseType_Inr)

lemma Validate_problems: "Validate e = Inr () \<longleftrightarrow> problems e = []"
  by (simp add: Validate_def)

lemma Validate_Inr:
  "Validate e = Inr () \<longleftrightarrow>
     e_SpecVersion e = SpecVersion \<and> \<not> IsNil (e_ID e)
     \<and> ParseSource (e_Source e) = Inr (e_Source e) \<and> ParseType (e_Type e) = Inr (e_Type e)
     \<and> e_Time e \<noteq> 0 \<and> e_DataContentType e = ContentTypeJSON \<and> e_Data e \<noteq> Absent
     \<and> 0 \<le> e_StreamPosition e"
proof -
  have "(if e_Source e = '''' then [''source is absent'']
      else case ParseSource (e_Source e) of Inl err \<Rightarrow> [error_text err] | Inr _ \<Rightarrow> []) = []
      \<longleftrightarrow> ParseSource (e_Source e) = Inr (e_Source e)"
    by (cases "ParseSource (e_Source e)") (auto simp: ParseSource_def split: if_splits)
  moreover have "(if e_Type e = '''' then [''type is absent'']
      else case ParseType (e_Type e) of Inl err \<Rightarrow> [error_text err] | Inr _ \<Rightarrow> []) = []
      \<longleftrightarrow> ParseType (e_Type e) = Inr (e_Type e)"
    using ParseType_empty by (cases "ParseType (e_Type e)") (auto dest: ParseType_unchanged)
  ultimately show ?thesis
    unfolding Validate_problems problems_def append_is_Nil_conv by (auto simp: not_less)
qed

section \<open>The texts are ASCII\<close>

lemma ascii_digits: "is_digit c \<Longrightarrow> is_ascii c"
  by (simp add: is_digit_def is_ascii_def)

lemma ascii_hex_digit: "n < 16 \<Longrightarrow> is_ascii (hex_digit n)"
  by (drule nibble_cases) (elim insertE emptyE; simp add: hex_digit_def is_ascii_def)

lemma ascii_hex: "list_all is_ascii (hex_encode bs)"
  by (induction bs) (simp_all add: ascii_hex_digit high_nibble low_nibble)

lemma ascii_String: "list_all is_ascii (String u)"
  by (simp add: String_def ascii_hex) (simp add: is_ascii_def)

lemma ascii_fixed: "list_all is_ascii (fixed_digits w n)"
  using digits_fixed_digits[of w n] by (auto simp: list_all_iff ascii_digits)

lemma ascii_frac: "list_all is_ascii (frac_text n)"
proof -
  obtain k where "fixed_digits 9 n = strip_zeros (fixed_digits 9 n) @ replicate k CHR ''0''"
    using strip_zeros_split by blast
  with ascii_fixed[of 9 n] have "list_all is_ascii (strip_zeros (fixed_digits 9 n))" by (metis list_all_append)
  then show ?thesis by (simp add: frac_text_def is_ascii_def)
qed

lemma ascii_time: "list_all is_ascii (format_rfc3339 t)"
  unfolding format_rfc3339_def Let_def year_text_def two_def
  by (simp add: ascii_fixed ascii_frac split: prod.split) (simp add: is_ascii_def)

lemma ascii_segment_char: "segment_char c \<Longrightarrow> is_ascii c"
  by (auto simp: segment_char_def is_lower_def is_ascii_def is_digit_def)

lemma ascii_segment: "validSegment g = Inr () \<Longrightarrow> list_all is_ascii g"
  by (auto simp: validSegment_def list_all_iff ascii_segment_char split: list.splits if_splits)

lemma ascii_atoi: "atoi s = Some n \<Longrightarrow> list_all is_ascii s"
  unfolding list_all_iff by (rule ballI, drule (1) atoi_chars) (auto simp: is_ascii_def is_digit_def)

lemma ascii_version: "validVersionSegment v = Inr () \<Longrightarrow> list_all is_ascii v"
  using version_valid_iff[of v] by (auto simp: ok_def ascii_atoi) (simp add: is_ascii_def)

lemma ascii_type: "ParseType s = Inr t \<Longrightarrow> list_all is_ascii s"
proof -
  assume "ParseType s = Inr t"
  then obtain d a l x v where s: "s = type_name d a l x v" and p: "valid_parts d a l x v"
    by (auto simp: ParseType_Inr)
  have "list_all is_ascii d" "list_all is_ascii a" "list_all is_ascii l" "list_all is_ascii x"
    "case v of None \<Rightarrow> True | Some w \<Rightarrow> list_all is_ascii w"
    using p ascii_segment ascii_version by (auto simp: valid_parts_def ok_def split: option.splits)
  then show ?thesis unfolding s type_name_def
    by (cases v) (simp_all add: is_ascii_def)
qed

section \<open>Round trip and validation on receipt\<close>

definition wf_envelope :: "envelope \<Rightarrow> bool" where
  "wf_envelope e \<longleftrightarrow> wf_uuid (e_ID e) \<and> valid_utf8 (e_Source e) \<and> valid_utf8 (e_DataSchema e)
     \<and> representable_time (e_Time e) \<and> - (2 ^ 63) \<le> e_StreamPosition e \<and> e_StreamPosition e < 2 ^ 63"

lemma set_wire_id:
  assumes "wf_uuid u" "\<not> IsNil u"
  shows "set_wire ''id'' (json_string (MarshalText u)) w = Inr (w\<lparr>w_ID := u\<rparr>)"
  using uuid_text.parse_print[of u] assms
  by (simp add: set_wire_def json_string_def MarshalText_def ascii_valid ascii_String UnmarshalText_def
      split: sum.splits)

lemma set_wire_fields:
  "set_wire ''specversion'' (json_string s) w = Inr (w\<lparr>w_SpecVersion := coerce_utf8 s\<rparr>)"
  "set_wire ''source'' (json_string s) w = Inr (w\<lparr>w_Source := coerce_utf8 s\<rparr>)"
  "set_wire ''type'' (json_string s) w = Inr (w\<lparr>w_Type := coerce_utf8 s\<rparr>)"
  "set_wire ''time'' (json_string s) w = Inr (w\<lparr>w_Time := coerce_utf8 s\<rparr>)"
  "set_wire ''datacontenttype'' (json_string s) w = Inr (w\<lparr>w_DataContentType := coerce_utf8 s\<rparr>)"
  "set_wire ''dataschema'' (json_string s) w = Inr (w\<lparr>w_DataSchema := coerce_utf8 s\<rparr>)"
  "set_wire ''data'' v w = Inr (w\<lparr>w_Data := Document v\<rparr>)"
  "- (2 ^ 63) \<le> n \<Longrightarrow> n < 2 ^ 63 \<Longrightarrow>
     set_wire ''streamposition'' (JNum (show_int n)) w = Inr (w\<lparr>w_StreamPosition := n\<rparr>)"
  by (simp_all add: set_wire_def)

text \<open>A wire struct whose members the decoder reads back one by one.\<close>

definition wf_wire :: "wire \<Rightarrow> bool" where
  "wf_wire w \<longleftrightarrow> wf_uuid (w_ID w) \<and> \<not> IsNil (w_ID w)
     \<and> list_all valid_utf8 [w_SpecVersion w, w_Source w, w_Type w, w_Time w, w_DataContentType w, w_DataSchema w]
     \<and> - (2 ^ 63) \<le> w_StreamPosition w \<and> w_StreamPosition w < 2 ^ 63"

lemma wf_wire_set:
  assumes "wf_wire w"
  shows "set_wire ''specversion'' (json_string (w_SpecVersion w)) v = Inr (v\<lparr>w_SpecVersion := w_SpecVersion w\<rparr>)"
    "set_wire ''id'' (json_string (MarshalText (w_ID w))) v = Inr (v\<lparr>w_ID := w_ID w\<rparr>)"
    "set_wire ''source'' (json_string (w_Source w)) v = Inr (v\<lparr>w_Source := w_Source w\<rparr>)"
    "set_wire ''type'' (json_string (w_Type w)) v = Inr (v\<lparr>w_Type := w_Type w\<rparr>)"
    "set_wire ''time'' (json_string (w_Time w)) v = Inr (v\<lparr>w_Time := w_Time w\<rparr>)"
    "set_wire ''datacontenttype'' (json_string (w_DataContentType w)) v = Inr (v\<lparr>w_DataContentType := w_DataContentType w\<rparr>)"
    "set_wire ''dataschema'' (json_string (w_DataSchema w)) v = Inr (v\<lparr>w_DataSchema := w_DataSchema w\<rparr>)"
    "set_wire ''streamposition'' (JNum (show_int (w_StreamPosition w))) v = Inr (v\<lparr>w_StreamPosition := w_StreamPosition w\<rparr>)"
    "set_wire ''data'' d v = Inr (v\<lparr>w_Data := Document d\<rparr>)"
  using assms set_wire_id by (simp_all add: wf_wire_def set_wire_fields valid_utf8_def)

lemma decode_encode_wire:
  assumes "wf_wire w" "w_Data w = Document d" "encode_wire w = Inr j"
  shows "decode_wire j = Inr w"
proof -
  note [simp] = wf_wire_set[OF assms(1)] decode_members_append match_field_def wire_fields_def
  have "decode_wire j = Inr (zero_wire\<lparr>w_SpecVersion := w_SpecVersion w, w_ID := w_ID w, w_Source := w_Source w,
      w_Type := w_Type w, w_Time := w_Time w, w_DataContentType := w_DataContentType w,
      w_DataSchema := w_DataSchema w, w_StreamPosition := w_StreamPosition w, w_Data := Document d\<rparr>)"
    using assms(3) unfolding encode_wire_def assms(2) decode_wire_def decode_struct_def
    by (auto simp: zero_wire_def split: if_splits)
  also have "\<dots> = Inr w" using assms(2) by (simp add: zero_wire_def)
  finally show ?thesis .
qed

lemma MarshalJSON_Inr:
  "MarshalJSON e = Inr j \<longleftrightarrow> Validate e = Inr () \<and> encode_wire (wire_of e) = Inr j"
  by (cases "Validate e") (auto simp: MarshalJSON_def)

lemma encode_wire_Inr: "encode_wire w = Inr j \<Longrightarrow> w_Data w \<noteq> Absent \<Longrightarrow> \<exists>d. w_Data w = Document d"
  by (cases "w_Data w") (auto simp: encode_wire_def)

lemma UnmarshalJSON_ok:
  "decode_wire j = Inr w \<Longrightarrow> parse_rfc3339 (w_Time w) = Some t \<Longrightarrow> Validate (candidate w t) = Inr () \<Longrightarrow>
     UnmarshalJSON e0 j = (candidate w t, Inr ())"
  by (simp add: UnmarshalJSON_def)

lemma candidate_wire_of: "candidate (wire_of e) (e_Time e) = e"
  by (simp add: candidate_def wire_of_def)

lemma wf_wire_of:
  assumes "wf_envelope e" "Validate e = Inr ()"
  shows "wf_wire (wire_of e)"
proof -
  from assms(2) have f: "e_SpecVersion e = ''1.0''" "\<not> IsNil (e_ID e)" "ParseType (e_Type e) = Inr (e_Type e)"
    "e_DataContentType e = ''application/json''"
    unfolding Validate_Inr by (simp_all add: SpecVersion_def ContentTypeJSON_def)
  have "valid_utf8 (w_SpecVersion (wire_of e))" "valid_utf8 (w_DataContentType (wire_of e))"
    "valid_utf8 (w_Type (wire_of e))" "valid_utf8 (w_Time (wire_of e))"
    using f by (simp_all add: wire_of_def valid_utf8_def ascii_valid is_ascii_def ascii_type ascii_time)
  with assms(1) f show ?thesis by (simp add: wf_wire_def wf_envelope_def wire_of_def)
qed

lemma marshalled_data: "MarshalJSON e = Inr j \<Longrightarrow> \<exists>d. e_Data e = Document d"
  using encode_wire_Inr[of "wire_of e" j] by (auto simp: MarshalJSON_Inr Validate_Inr wire_of_def)

lemma decode_marshalled:
  assumes "wf_envelope e" "MarshalJSON e = Inr j"
  shows "decode_wire j = Inr (wire_of e)"
proof -
  obtain d where "e_Data e = Document d" using marshalled_data[OF assms(2)] by blast
  then show ?thesis
    using assms(2) decode_encode_wire[OF wf_wire_of[OF assms(1)], of d j] by (simp add: MarshalJSON_Inr wire_of_def)
qed

lemma parse_wire_time: "wf_envelope e \<Longrightarrow> parse_rfc3339 (w_Time (wire_of e)) = Some (e_Time e)"
  using time_text.parse_print by (simp add: wire_of_def wf_envelope_def)

text \<open>
  C31: An envelope that marshals is read back unchanged: \<^verbatim>\<open>UnmarshalJSON\<close> inverts
  \<^verbatim>\<open>MarshalJSON\<close> on every envelope whose time has a four-digit year and whose source and
  schema location are valid UTF-8.
\<close>

theorem MarshalJSON_roundtrip:
  assumes "wf_envelope e" "MarshalJSON e = Inr j"
  shows "UnmarshalJSON e0 j = (e, Inr ())"
  using UnmarshalJSON_ok[of j "wire_of e" "e_Time e" e0] decode_marshalled[OF assms] parse_wire_time[OF assms(1)] assms(2)
  by (simp add: candidate_wire_of MarshalJSON_Inr)

definition sample_envelope :: envelope where
  "sample_envelope = \<lparr>e_SpecVersion = ''1.0'', e_ID = replicate 16 1, e_Source = ''/systems/crm'',
     e_Type = ''com.scnehaux.crm.account.security.locked'', e_Time = 63900000000 * second_ns + 120000000,
     e_DataContentType = ''application/json'', e_DataSchema = '''', e_StreamPosition = 7,
     e_Data = Document (JObj [(''version'', JNum ''1'')])\<rparr>"

lemma sample_wf: "wf_envelope sample_envelope"
  by (simp add: wf_envelope_def sample_envelope_def wf_uuid_def valid_utf8_def ascii_valid is_ascii_def
      representable_time_def second_ns_def days_before_def)

lemma sample_valid: "Validate sample_envelope = Inr ()"
proof -
  have "ParseType ''com.scnehaux.crm.account.security.locked'' = Inr ''com.scnehaux.crm.account.security.locked''"
    by code_simp
  then show ?thesis
    unfolding Validate_Inr
    by (simp add: sample_envelope_def SpecVersion_def ContentTypeJSON_def IsNil_def Nil_uuid_def has_prefix_def
        second_ns_def)
qed

theorem MarshalJSON_roundtrip_witness:
  "\<exists>j. MarshalJSON sample_envelope = Inr j \<and> UnmarshalJSON zero_envelope j = (sample_envelope, Inr ())"
proof -
  have "\<exists>j. encode_wire (wire_of sample_envelope) = Inr j"
    by (simp add: encode_wire_def wire_of_def sample_envelope_def)
  then obtain j where j: "MarshalJSON sample_envelope = Inr j" using sample_valid by (auto simp: MarshalJSON_Inr)
  from MarshalJSON_roundtrip[OF sample_wf j] j show ?thesis by blast
qed

text \<open>
  Nothing gets past receipt that does not conform: when \<^verbatim>\<open>UnmarshalJSON\<close> returns no error
  the envelope it wrote has the supported version and content type, an identifier, a valid source
  and type, a time, data, and no negative stream position; when it returns an error it has not
  written its receiver.
\<close>

theorem UnmarshalJSON_validates:
  "case UnmarshalJSON e0 j of
     (e, Inr _) \<Rightarrow> e_SpecVersion e = SpecVersion \<and> \<not> IsNil (e_ID e)
       \<and> ParseSource (e_Source e) = Inr (e_Source e) \<and> ParseType (e_Type e) = Inr (e_Type e)
       \<and> e_Time e \<noteq> 0 \<and> e_DataContentType e = ContentTypeJSON \<and> e_Data e \<noteq> Absent
       \<and> 0 \<le> e_StreamPosition e
   | (e, Inl _) \<Rightarrow> e = e0"
proof (cases "decode_wire j")
  case (Inr w)
  show ?thesis
  proof (cases "parse_rfc3339 (w_Time w)")
    case (Some t)
    with Inr show ?thesis
      using Validate_Inr[of "candidate w t"] by (cases "Validate (candidate w t)") (simp_all add: UnmarshalJSON_def)
  qed (use Inr in \<open>simp add: UnmarshalJSON_def\<close>)
qed (simp add: UnmarshalJSON_def)

end
