(* ===== verification/Float64.thy ===== *)
theory Float64
  imports Complex_Main Prelude "HOL-Library.Log_Nat" "HOL-Library.Signed_Division"
begin

text \<open>
  The \<^verbatim>\<open>float64\<close> arithmetic the dispatcher uses on durations: conversion of an integer, product,
  sum, division and truncation. A value is the rational it stands for and every operation rounds to
  53 significant bits, half to even. Overflow, infinities and NaN do not occur for these operands,
  and a result below the normal range truncates to 0 whether or not it is rounded as a subnormal.
\<close>

section \<open>Rounding\<close>

definition round_half_even :: "rat \<Rightarrow> int" where
  "round_half_even x =
     (let f = \<lfloor>x\<rfloor>; r = x - of_int f in
      if r < 1 / 2 then f else if r > 1 / 2 then f + 1 else if even f then f else f + 1)"

definition pow2 :: "int \<Rightarrow> rat" where
  "pow2 e = (if 0 \<le> e then 2 ^ nat e else 1 / 2 ^ nat (- e))"

text \<open>The exponent of a positive value: \<^verbatim>\<open>2^e <= x < 2^(e+1)\<close>.\<close>

definition exponent_guess :: "rat \<Rightarrow> int" where
  "exponent_guess x = (let (n, d) = quotient_of x in int (floorlog 2 (nat n)) - int (floorlog 2 (nat d)))"

definition exponent :: "rat \<Rightarrow> int" where
  "exponent x = (let e = exponent_guess x in if pow2 e \<le> x then e else e - 1)"

definition f64_round :: "rat \<Rightarrow> rat" where
  "f64_round x =
     (if x = 0 then 0
      else let u = pow2 (exponent \<bar>x\<bar> - 52) in sgn x * (of_int (round_half_even (\<bar>x\<bar> / u)) * u))"

definition f64_of_int :: "int \<Rightarrow> rat" where
  "f64_of_int n = f64_round (of_int n)"

definition f64_mult :: "rat \<Rightarrow> rat \<Rightarrow> rat" where
  "f64_mult x y = f64_round (x * y)"

definition f64_trunc :: "rat \<Rightarrow> int" where
  "f64_trunc x = (if 0 \<le> x then \<lfloor>x\<rfloor> else - \<lfloor>- x\<rfloor>)"

section \<open>Bounds\<close>

lemma round_half_even_le: "x \<le> of_int m \<Longrightarrow> round_half_even x \<le> m"
proof -
  assume "x \<le> of_int m"
  then have "\<lfloor>x\<rfloor> \<le> m" by linarith
  show ?thesis
  proof (cases "\<lfloor>x\<rfloor> = m")
    case True
    with \<open>x \<le> of_int m\<close> have "x = of_int m" by linarith
    then show ?thesis by (simp add: round_half_even_def)
  next
    case False
    with \<open>\<lfloor>x\<rfloor> \<le> m\<close> show ?thesis by (simp add: round_half_even_def Let_def)
  qed
qed

lemma round_half_even_ge: "of_int m \<le> x \<Longrightarrow> m \<le> round_half_even x"
  by (simp add: round_half_even_def Let_def le_floor_iff) linarith

lemma round_half_even_int [simp]: "round_half_even (of_int m) = m"
  by (simp add: round_half_even_def)

lemma pow2_pos [simp]: "0 < pow2 e"
  by (simp add: pow2_def)

lemma pow2_add: "pow2 (a + b) = pow2 a * pow2 b"
proof -
  have "pow2 a = (2::rat) powi a" for a by (simp add: pow2_def power_int_def field_simps)
  then show ?thesis by (simp add: power_int_add)
qed

lemma pow2_0 [simp]: "pow2 0 = 1"
  by (simp add: pow2_def)

lemma pow2_less_mono: "a < b \<Longrightarrow> pow2 a < pow2 b"
proof -
  assume "a < b"
  then have "1 < pow2 (b - a)" by (simp add: pow2_def)
  then have "pow2 a * 1 < pow2 a * pow2 (b - a)" by (simp only: mult_less_cancel_left_pos[OF pow2_pos])
  then show ?thesis by (simp add: pow2_add[symmetric])
qed

lemma pow2_less_iff: "pow2 a < pow2 b \<longleftrightarrow> a < b"
  using pow2_less_mono by (metis linorder_neqE_linordered_idom order_less_asym order_less_irrefl)

lemma floorlog_bounds:
  assumes "0 < n"
  shows "(2::rat) ^ (floorlog 2 n - 1) \<le> of_nat n" "of_nat n < (2::rat) ^ floorlog 2 n" "0 < floorlog 2 n"
proof -
  have "2 ^ (floorlog 2 n - 1) \<le> n \<and> n < 2 ^ floorlog 2 n" using floorlog_bounds[of n 2] assms by simp
  then have "of_nat (2 ^ (floorlog 2 n - 1)) \<le> (of_nat n :: rat)" "(of_nat n :: rat) < of_nat (2 ^ floorlog 2 n)"
    by (simp_all only: of_nat_le_iff of_nat_less_iff)
  then show "(2::rat) ^ (floorlog 2 n - 1) \<le> of_nat n" "of_nat n < (2::rat) ^ floorlog 2 n" by simp_all
  show "0 < floorlog 2 n" using assms by (simp add: floorlog_def)
qed

lemma exponent_guess_bounds:
  assumes "0 < x" shows "pow2 (exponent_guess x - 1) < x" "x < pow2 (exponent_guess x + 1)"
proof -
  obtain n d where q: "quotient_of x = (n, d)" by (cases "quotient_of x")
  have d: "0 < d" using quotient_of_denom_pos[OF q] .
  have x: "x = of_int n / of_int d" using quotient_of_div[OF q] .
  with assms d have n: "0 < n" by (simp add: zero_less_divide_iff)
  define a b where "a = floorlog 2 (nat n)" and "b = floorlog 2 (nat d)"
  have A: "(2::rat) ^ (a - 1) \<le> of_int n" "of_int n < (2::rat) ^ a" "0 < a"
    using floorlog_bounds[of "nat n"] n by (simp_all add: a_def)
  have B: "(2::rat) ^ (b - 1) \<le> of_int d" "of_int d < (2::rat) ^ b" "0 < b"
    using floorlog_bounds[of "nat d"] d by (simp_all add: b_def)
  have e: "exponent_guess x = int a - int b" by (simp add: exponent_guess_def q a_def b_def)
  have p: "pow2 (int k) = 2 ^ k" for k by (simp add: pow2_def)
  have dd: "(0::rat) < of_int d" using d by simp
  have "pow2 (exponent_guess x - 1) * of_int d < pow2 (exponent_guess x - 1) * 2 ^ b" using B by simp
  also have "\<dots> = pow2 (int (a - 1))" using A(3) by (simp add: e p[symmetric] pow2_add[symmetric])
  also have "\<dots> \<le> of_int n" using A(1) by (simp add: p)
  finally show "pow2 (exponent_guess x - 1) < x" using dd by (simp add: x pos_less_divide_eq)
  have "of_int n < pow2 (int a)" using A(2) by (simp add: p)
  also have "\<dots> = pow2 (exponent_guess x + 1) * 2 ^ (b - 1)"
    using B(3) by (simp add: e p[symmetric] pow2_add[symmetric])
  also have "\<dots> \<le> pow2 (exponent_guess x + 1) * of_int d" using B(1) by simp
  finally show "x < pow2 (exponent_guess x + 1)" using dd by (simp add: x pos_divide_less_eq)
qed

lemma exponent_bounds: "0 < x \<Longrightarrow> pow2 (exponent x) \<le> x \<and> x < pow2 (exponent x + 1)"
  using exponent_guess_bounds[of x] by (auto simp: exponent_def Let_def)

lemma exponent_unique: "pow2 e \<le> x \<Longrightarrow> x < pow2 (e + 1) \<Longrightarrow> exponent x = e"
proof -
  assume "pow2 e \<le> x" "x < pow2 (e + 1)"
  moreover from this have "0 < x" using pow2_pos[of e] by linarith
  ultimately have "pow2 e < pow2 (exponent x + 1)" "pow2 (exponent x) < pow2 (e + 1)"
    using exponent_bounds[of x] by linarith+
  then show ?thesis by (simp add: pow2_less_iff)
qed

lemma f64_round_pos:
  "0 < x \<Longrightarrow> f64_round x = of_int (round_half_even (x / pow2 (exponent x - 52))) * pow2 (exponent x - 52)"
  by (simp add: f64_round_def Let_def)

text \<open>An integer of at most 53 bits is a multiple of the unit of any smaller value.\<close>

lemma integer_multiple:
  assumes "0 < x" "x \<le> of_int n" "n \<le> 2 ^ 53"
  obtains m where "of_int n = of_int m * pow2 (exponent x - 52)"
proof -
  have n53: "(of_int n :: rat) \<le> 2 ^ 53"
    using assms(3) by (metis of_int_le_iff of_int_numeral of_int_power)
  have p53: "pow2 53 = 2 ^ 53" by (simp add: pow2_def)
  have "pow2 (exponent x) \<le> pow2 53"
    using exponent_bounds[OF assms(1)] assms(2) n53 unfolding p53 by linarith
  then have e: "exponent x \<le> 53" using pow2_less_iff by (metis linorder_not_less)
  show thesis
  proof (cases "exponent x \<le> 52")
    case True
    then have q: "(2 ^ nat (52 - exponent x) :: rat) = pow2 (52 - exponent x)" by (simp add: pow2_def)
    have "(2 ^ nat (52 - exponent x) :: rat) * pow2 (exponent x - 52) = 1"
      unfolding q pow2_add[symmetric] by simp
    then have "of_int n = of_int (n * 2 ^ nat (52 - exponent x)) * pow2 (exponent x - 52)"
      by (simp add: mult.assoc)
    then show thesis by (rule that)
  next
    case False
    with e have e53: "exponent x = 53" by simp
    then have "2 ^ 53 \<le> x" using exponent_bounds[OF assms(1)] by (simp only: p53)
    with assms(2) n53 have "(of_int n :: rat) = 2 ^ 53" by linarith
    then have "of_int n = of_int (2 ^ 52) * pow2 (exponent x - 52)" by (simp add: e53 pow2_def)
    then show thesis by (rule that)
  qed
qed

lemma f64_round_le_int:
  assumes "0 \<le> x" "x \<le> of_int n" "n \<le> 2 ^ 53" shows "f64_round x \<le> of_int n"
proof (cases "x = 0")
  case True
  with assms show ?thesis by (simp add: f64_round_def)
next
  case False
  with assms have x: "0 < x" by simp
  obtain m where m: "of_int n = of_int m * pow2 (exponent x - 52)" using integer_multiple[OF x assms(2,3)] .
  have "x / pow2 (exponent x - 52) \<le> of_int m" using assms(2) m by (simp add: pos_divide_le_eq)
  then have "round_half_even (x / pow2 (exponent x - 52)) \<le> m" by (rule round_half_even_le)
  then show ?thesis unfolding f64_round_pos[OF x] m by simp
qed

lemma f64_round_nonneg: "0 \<le> x \<Longrightarrow> 0 \<le> f64_round x"
proof (cases "x = 0")
  case False
  assume "0 \<le> x"
  with False have x: "0 < x" by simp
  have "0 \<le> round_half_even (x / pow2 (exponent x - 52))"
    by (rule round_half_even_ge) (use x in \<open>simp add: less_imp_le\<close>)
  then show ?thesis unfolding f64_round_pos[OF x] by (simp add: less_imp_le)
qed (simp add: f64_round_def)

lemma f64_of_int_exact:
  assumes "0 \<le> n" "n \<le> 2 ^ 53" shows "f64_of_int n = of_int n"
proof (cases "n = 0")
  case False
  with assms have x: "(0::rat) < of_int n" by simp
  obtain m where m: "of_int n = of_int m * pow2 (exponent (of_int n) - 52)"
    using integer_multiple[OF x order_refl assms(2)] .
  have "of_int n / pow2 (exponent (of_int n) - 52) = of_int m"
    by (subst m) (simp add: less_imp_neq[symmetric] pow2_pos)
  then show ?thesis unfolding f64_of_int_def f64_round_pos[OF x] using m by simp
qed (simp add: f64_of_int_def f64_round_def)

end
