(* ===== verification/Dispatch.thy ===== *)
theory Dispatch
  imports Float64
begin

text \<open>
  \<^verbatim>\<open>src/outbox/dispatch.go\<close>: what a publication establishes, how its failure is classified, what
  happens to the row, and the two delay schedules. A \<^verbatim>\<open>time.Duration\<close> is a 64-bit word, so the
  shifts wrap as in the source; a \<^verbatim>\<open>float64\<close> is the rational it stands for
  (\<open>Float64\<close>).
\<close>

section \<open>Evidence and receipts\<close>

type_synonym evidence = string

definition EvidenceConsumerApplied :: evidence where
  "EvidenceConsumerApplied = ''consumer_applied''"

definition EvidenceTransportAccepted :: evidence where
  "EvidenceTransportAccepted = ''transport_accepted''"

definition ApplicationReceiptHeader :: string where
  "ApplicationReceiptHeader = ''X-Application-Receipt''"

definition ApplicationReceiptApplied :: string where
  "ApplicationReceiptApplied = ''applied''"

record receipt =
  r_evidence :: evidence

text \<open>The zero value, what a publisher returns that says nothing.\<close>

definition zero_receipt :: receipt where
  "zero_receipt = \<lparr>r_evidence = ''''\<rparr>"

definition Evidence :: "receipt \<Rightarrow> evidence" where
  "Evidence r = (if r_evidence r = EvidenceConsumerApplied then EvidenceConsumerApplied else EvidenceTransportAccepted)"

definition ReceiptFromMarker :: "string \<Rightarrow> receipt" where
  "ReceiptFromMarker marker =
     (if marker = ApplicationReceiptApplied then \<lparr>r_evidence = EvidenceConsumerApplied\<rparr>
      else \<lparr>r_evidence = EvidenceTransportAccepted\<rparr>)"

definition TransportReceipt :: receipt where
  "TransportReceipt = \<lparr>r_evidence = EvidenceTransportAccepted\<rparr>"

text \<open>
  The receipts code outside the package can hold: the field is not exported, so there is the zero
  value and what the two constructors return.
\<close>

inductive obtainable :: "receipt \<Rightarrow> bool" where
  obtain_zero: "obtainable zero_receipt"
| obtain_transport: "obtainable TransportReceipt"
| obtain_marker: "obtainable (ReceiptFromMarker marker)"

section \<open>Failures\<close>

definition ErrPoison :: goerror where
  "ErrPoison = New ''outbox: poison''"

datatype failure_class = FailurePoison | FailureUnavailable | FailureAbandoned

fun class_text :: "failure_class \<Rightarrow> string" where
  "class_text FailurePoison = ''poison''"
| "class_text FailureUnavailable = ''unavailable''"
| "class_text FailureAbandoned = ''abandoned''"

definition classify :: "goerror \<Rightarrow> failure_class" where
  "classify err = (if is_error err ErrPoison then FailurePoison else FailureUnavailable)"

datatype disposition = DispositionRetry | DispositionDeadLetter | DispositionRelease

fun disposition_text :: "disposition \<Rightarrow> string" where
  "disposition_text DispositionRetry = ''retry''"
| "disposition_text DispositionDeadLetter = ''dead-letter''"
| "disposition_text DispositionRelease = ''release''"

definition decide :: "failure_class \<Rightarrow> int \<Rightarrow> int \<Rightarrow> int \<Rightarrow> disposition" where
  "decide class priority attempts maxAttempts =
     (if class = FailurePoison then DispositionDeadLetter
      else if attempts < maxAttempts then DispositionRetry
      else DispositionRelease)"

section \<open>Delays\<close>

type_synonym duration = "64 word"

definition backoffFor :: "duration \<Rightarrow> int \<Rightarrow> duration \<Rightarrow> rat \<Rightarrow> duration" where
  "backoffFor base attempts0 cap jitter0 =
     (if sint base \<le> 0 then 0
      else
        let attempts = (if attempts0 < 1 then 1 else attempts0);
            maxShift = 30;
            shift = (if attempts - 1 > maxShift then maxShift else attempts - 1);
            shifted = push_bit (nat shift) base;
            interval = (if sint shifted \<le> 0 \<or> (sint cap > 0 \<and> sint shifted > sint cap)
                        then cap else shifted);
            jitter1 = (if jitter0 < 0 then 0 else jitter0);
            jitter = (if jitter1 \<ge> 1 then f64_round (999999 / 1000000) else jitter1);
            half = word_of_int (sint interval sdiv 2) :: duration
        in half + word_of_int (f64_trunc (f64_mult jitter (f64_of_int (sint half)))))"

definition emptyPollDelay :: "duration \<Rightarrow> int \<Rightarrow> duration \<Rightarrow> duration" where
  "emptyPollDelay interval consecutiveEmpty cap =
     (if sint interval \<le> 0 then 0
      else if consecutiveEmpty < 1 then interval
      else
        let maxShift = 10;
            shift = (if consecutiveEmpty - 1 > maxShift then maxShift else consecutiveEmpty - 1);
            delay = push_bit (nat shift) interval
        in if sint delay \<le> 0 \<or> (sint cap > 0 \<and> sint delay > sint cap) then cap else delay)"

text \<open>
  \<^verbatim>\<open>wait\<close>: with a positive delay the timer and the cancellation race, and
  \<open>timer_first\<close> says which the \<^verbatim>\<open>select\<close> took.
\<close>

definition wait :: "bool \<Rightarrow> bool \<Rightarrow> duration \<Rightarrow> bool" where
  "wait cancelled timer_first d = (if sint d \<le> 0 then \<not> cancelled else timer_first)"

section \<open>Words that do not wrap\<close>

lemma sint_word_of_int_small: "- (2 ^ 63) \<le> k \<Longrightarrow> k < 2 ^ 63 \<Longrightarrow> sint (word_of_int k :: duration) = k"
  by (simp add: sint_sbintrunc' signed_take_bit_int_eq_self)

lemma push_bit_word_of_int: "push_bit n (w :: duration) = word_of_int (sint w * 2 ^ n)"
  by (simp only: push_bit_eq_mult of_int_mult of_int_power of_int_numeral of_int_sint scast_id)

lemma sint_push_bit_small:
  "0 \<le> sint (w :: duration) \<Longrightarrow> sint w * 2 ^ n < 2 ^ 63 \<Longrightarrow> sint (push_bit n w) = sint w * 2 ^ n"
  unfolding push_bit_word_of_int
  by (rule sint_word_of_int_small) (auto intro: order_trans[of _ 0])

lemma half_of_nonneg: "0 \<le> i \<Longrightarrow> i sdiv 2 = i div (2::int)"
  by (simp add: signed_divide_int_def sgn_if)

text \<open>A share below one of a duration is at most the duration.\<close>

lemma jitter_share:
  assumes "0 \<le> j" "j < 1" "0 \<le> h" "h \<le> 2 ^ 53"
  shows "0 \<le> f64_trunc (f64_mult j (f64_of_int h))" "f64_trunc (f64_mult j (f64_of_int h)) \<le> h"
proof -
  have e: "f64_of_int h = of_int h" by (rule f64_of_int_exact[OF assms(3,4)])
  have n: "0 \<le> j * of_int h" using assms by simp
  have "j * of_int h \<le> 1 * of_int h" using assms by (intro mult_right_mono) simp_all
  then have le: "f64_round (j * of_int h) \<le> of_int h" by (intro f64_round_le_int[OF n _ assms(4)]) simp
  have ge: "0 \<le> f64_round (j * of_int h)" by (rule f64_round_nonneg[OF n])
  show "0 \<le> f64_trunc (f64_mult j (f64_of_int h))" "f64_trunc (f64_mult j (f64_of_int h)) \<le> h"
    using le ge by (simp_all add: f64_trunc_def f64_mult_def e floor_le_iff) linarith?
qed

lemma clamped_jitter:
  "0 \<le> (if (if j < 0 then 0 else j) \<ge> 1 then f64_round (999999 / 1000000) else (if j < 0 then 0 else (j::rat)))
   \<and> (if (if j < 0 then 0 else j) \<ge> 1 then f64_round (999999 / 1000000) else (if j < 0 then 0 else j)) < 1"
proof -
  have e: "exponent (999999 / 1000000) = - 1" by (rule exponent_unique) (simp_all add: pow2_def)
  have "f64_round (999999 / 1000000) = of_int (round_half_even (999999 / 1000000 / pow2 (- 53))) * pow2 (- 53)"
    by (simp add: f64_round_pos e)
  also have "\<dots> = 9007190247541737 / 9007199254740992"
  proof -
    have "\<lfloor>140737347617839644672 / 15625 :: rat\<rfloor> = 9007190247541737" by (rule floor_unique) simp_all
    then show ?thesis by (simp add: round_half_even_def pow2_def)
  qed
  finally have "0 \<le> f64_round (999999 / 1000000) \<and> f64_round (999999 / 1000000) < 1" by simp
  then show ?thesis by auto
qed

section \<open>The schedules\<close>

text \<open>The interval before the jitter, in mathematical integers.\<close>

definition backoff_interval :: "int \<Rightarrow> int \<Rightarrow> int \<Rightarrow> int" where
  "backoff_interval base attempts cap = min (base * 2 ^ nat (min 30 (max 1 attempts - 1))) cap"

lemma backoff_interval_props:
  assumes "0 < base" "0 < cap" shows "0 < backoff_interval base attempts cap" "backoff_interval base attempts cap \<le> cap"
  using assms by (simp_all add: backoff_interval_def)

lemma shift_below:
  assumes "0 < b" "b < 2 ^ 33" "k \<le> 30" shows "(b :: int) * 2 ^ nat k < 2 ^ 63"
proof -
  have "(2::int) ^ nat k \<le> 2 ^ 30" using assms(3) by (intro power_increasing) auto
  then have "b * 2 ^ nat k \<le> b * 2 ^ 30" using assms(1) by (intro mult_left_mono) auto
  also have "\<dots> < 2 ^ 33 * 2 ^ 30" using assms(2) by simp
  finally show ?thesis by simp
qed

lemma capped_shift:
  assumes "0 < sint b" "0 < sint c" "sint b * 2 ^ n < 2 ^ 63"
  shows "sint (if sint (push_bit n b) \<le> 0 \<or> (sint c > 0 \<and> sint (push_bit n b) > sint c) then c else push_bit n (b :: duration))
    = min (sint b * 2 ^ n) (sint c)"
proof -
  have "sint (push_bit n b) = sint b * 2 ^ n" using assms by (simp add: sint_push_bit_small)
  moreover have "0 < sint b * 2 ^ n" using assms(1) by simp
  ultimately show ?thesis using assms(2) by (simp add: min_def)
qed

lemma backoff_value:
  assumes "0 < sint base" "sint base < 2 ^ 33" "0 < sint cap" "sint cap \<le> 2 ^ 53"
  obtains share where "sint (backoffFor base attempts cap jitter) = backoff_interval (sint base) attempts (sint cap) div 2 + share"
    "0 \<le> share" "share \<le> backoff_interval (sint base) attempts (sint cap) div 2"
proof -
  define k where "k = min 30 (max 1 attempts - 1)"
  define i where "i = backoff_interval (sint base) attempts (sint cap)"
  define j where "j = (if (if jitter < 0 then 0 else jitter) \<ge> 1 then f64_round (999999 / 1000000)
    else (if jitter < 0 then 0 else jitter))"
  define share where "share = f64_trunc (f64_mult j (f64_of_int (i div 2)))"
  have k: "(if (if attempts < 1 then 1 else attempts) - 1 > 30 then 30 else (if attempts < 1 then 1 else attempts) - 1) = k"
    by (simp add: k_def)
  have b: "sint base * 2 ^ nat k < 2 ^ 63" by (rule shift_below[OF assms(1,2)]) (simp add: k_def)
  have i: "0 < i" "i \<le> sint cap" "min (sint base * 2 ^ nat k) (sint cap) = i"
    using backoff_interval_props[OF assms(1,3)] by (simp_all add: i_def k_def backoff_interval_def)
  have h: "0 \<le> i div 2" "i div 2 \<le> 2 ^ 52" using i assms(4) by simp_all
  then have h53: "i div 2 \<le> 2 ^ 53" by simp
  have hs: "sint (word_of_int (i div 2) :: duration) = i div 2" using h by (intro sint_word_of_int_small) simp_all
  have s: "0 \<le> share" "share \<le> i div 2"
    using jitter_share[OF _ _ h(1) h53, of j] clamped_jitter[of jitter] unfolding share_def j_def by blast+
  have "backoffFor base attempts cap jitter = word_of_int (i div 2) + word_of_int share"
    unfolding backoffFor_def Let_def k
    using assms(1) capped_shift[OF assms(1,3) b] i hs half_of_nonneg[of i]
    by (simp add: share_def j_def[symmetric])
  also have "\<dots> = word_of_int (i div 2 + share)" by simp
  finally have "sint (backoffFor base attempts cap jitter) = i div 2 + share"
    by (simp only:) (rule sint_word_of_int_small; use h s in simp)
  with s that show thesis unfolding i_def by blast
qed

text \<open>
  For a base below 2^33 ns (8.6 s) and a ceiling of at most 2^53 ns the backoff never wraps
  and never reads as an immediate retry: it lies between half the escalated interval and the whole of it,
  and the interval doubles per attempt from the base until the ceiling stops it, whatever the
  jitter source returns.
\<close>

theorem backoffFor_bounds:
  assumes "0 < sint base" "sint base < 2 ^ 33" "0 < sint cap" "sint cap \<le> 2 ^ 53"
  shows "backoff_interval (sint base) attempts (sint cap) div 2 \<le> sint (backoffFor base attempts cap jitter)
     \<and> sint (backoffFor base attempts cap jitter) \<le> backoff_interval (sint base) attempts (sint cap)
     \<and> backoff_interval (sint base) attempts (sint cap) \<le> sint cap
     \<and> backoff_interval (sint base) attempts (sint cap) \<le> backoff_interval (sint base) (attempts + 1) (sint cap)"
proof -
  obtain share where "sint (backoffFor base attempts cap jitter) = backoff_interval (sint base) attempts (sint cap) div 2 + share"
    "0 \<le> share" "share \<le> backoff_interval (sint base) attempts (sint cap) div 2"
    using backoff_value[OF assms] .
  moreover have "backoff_interval (sint base) attempts (sint cap) \<le> backoff_interval (sint base) (attempts + 1) (sint cap)"
    unfolding backoff_interval_def using assms(1)
    by (intro min.mono mult_left_mono power_increasing) auto
  ultimately show ?thesis using backoff_interval_props[OF assms(1,3)] by simp
qed

theorem backoffFor_bounds_witness:
  "backoff_interval 250000000 4 30000000000 div 2 \<le> sint (backoffFor 250000000 4 30000000000 (1 / 4))
   \<and> sint (backoffFor 250000000 4 30000000000 (1 / 4)) \<le> backoff_interval 250000000 4 30000000000"
  using backoffFor_bounds[of 250000000 30000000000 4 "1 / 4"] by simp

lemma delay_value:
  assumes "0 < sint interval" "sint interval < 2 ^ 53" "0 < sint cap"
  shows "sint (emptyPollDelay interval n cap) =
     (if n < 1 then sint interval else min (sint interval * 2 ^ nat (min 10 (n - 1))) (sint cap))"
proof (cases "n < 1")
  case False
  define k where "k = min 10 (n - 1)"
  have "(2::int) ^ nat k \<le> 2 ^ 10" by (intro power_increasing) (simp_all add: k_def)
  then have "sint interval * 2 ^ nat k \<le> sint interval * 2 ^ 10" using assms(1) by (intro mult_left_mono) auto
  then have "sint interval * 2 ^ nat k < 2 ^ 63" using assms(2) by simp
  moreover have "(if n - 1 > 10 then 10 else n - 1) = k" by (simp add: k_def)
  ultimately show ?thesis
    unfolding emptyPollDelay_def Let_def using capped_shift[OF assms(1,3)] False assms(1)
    by (simp only: if_False k_def[symmetric]) simp
qed (use assms in \<open>simp add: emptyPollDelay_def\<close>)

text \<open>
  After \<open>n\<close> consecutive empty polls a worker waits the poll interval doubled
  \<open>min(n-1, 10)\<close> times, capped at the idle ceiling, with no wrap for intervals below 2^53 ns;
  a worker that claimed something waits the plain interval.
\<close>

theorem emptyPollDelay_value:
  assumes "0 < sint interval" "sint interval < 2 ^ 53" "0 < sint cap"
  shows "sint (emptyPollDelay interval n cap) =
     (if n < 1 then sint interval else min (sint interval * 2 ^ nat (min 10 (n - 1))) (sint cap))"
  by (rule delay_value[OF assms])

theorem emptyPollDelay_value_witness:
  "sint (emptyPollDelay 500000000 3 5000000000) = 2000000000"
  using emptyPollDelay_value[of 500000000 5000000000 3] by simp

text \<open>
  The stronger evidence cannot be made up: whatever receipt a publisher returns, it reads as
  \<^verbatim>\<open>consumer_applied\<close> only if it was derived from a consumer's own \<^verbatim>\<open>applied\<close>
  marker, and every other one reads as \<^verbatim>\<open>transport_accepted\<close>.
\<close>

theorem evidence_needs_marker:
  assumes "obtainable r"
  shows "Evidence r =
     (if r = ReceiptFromMarker ApplicationReceiptApplied then EvidenceConsumerApplied else EvidenceTransportAccepted)"
  using assms
proof cases
  case (obtain_marker marker)
  then show ?thesis
    by (auto simp: Evidence_def ReceiptFromMarker_def EvidenceConsumerApplied_def EvidenceTransportAccepted_def)
qed (simp_all add: Evidence_def ReceiptFromMarker_def zero_receipt_def TransportReceipt_def
    EvidenceConsumerApplied_def EvidenceTransportAccepted_def)

theorem evidence_needs_marker_witness:
  "obtainable TransportReceipt \<and> Evidence TransportReceipt = EvidenceTransportAccepted"
  using evidence_needs_marker[OF obtain_transport] obtain_transport
  by (simp add: TransportReceipt_def ReceiptFromMarker_def EvidenceConsumerApplied_def
      EvidenceTransportAccepted_def)

text \<open>
  The shift bound does not keep every base from wrapping: 17.18 s escalates to 1.07 s at the
  thirty-first attempt, although the ceiling is 30 s.
\<close>

lemma backoff_wraps:
  "sint (push_bit 30 (17179869185 :: duration)) = 1073741824 \<and>
   sint (backoffFor 17179869185 31 30000000000 0) = 536870912"
proof -
  have "sint (push_bit 30 (17179869185 :: duration)) = 1073741824" by simp
  moreover from this have "sint (backoffFor 17179869185 31 30000000000 0) = 536870912"
    by (simp add: backoffFor_def Let_def f64_mult_def f64_round_def f64_trunc_def half_of_nonneg)
  ultimately show ?thesis by simp
qed

lemma classify_poison_iff: "classify err = FailurePoison \<longleftrightarrow> is_error err ErrPoison"
  by (simp add: classify_def)

lemma classify_cases: "classify err = FailurePoison \<or> classify err = FailureUnavailable"
  by (simp add: classify_def)

lemma decide_dead_letter_iff: "decide class priority attempts maxAttempts = DispositionDeadLetter \<longleftrightarrow> class = FailurePoison"
  by (simp add: decide_def)

end
