(* ===== verification/Db.thy ===== *)
theory Db
  imports Prelude
begin

text \<open>
  \<^verbatim>\<open>src/db/db.go\<close>: the pool, its configuration and \<open>InTx\<close>, the one function that yields a
  transaction handle. The database is an abstract state \<open>'db\<close>; what the driver answers (the error of
  \<^verbatim>\<open>Begin\<close>, the answer to \<^verbatim>\<open>Commit\<close>) is the argument \<open>drv\<close>, and
  \<open>discard db db'\<close> is the state after a rollback that started at \<open>db\<close> and had reached
  \<open>db'\<close> (a sequence keeps its value). A commit whose answer was lost has committed although
  the caller sees an error. A function that panics is an outcome of its own.
\<close>

section \<open>Handles, contexts and configuration\<close>

datatype kind = Chan | Func | Interface | Map | Pointer | Slice | OtherKind

datatype tx_value = NilInterface | TxValue kind bool

text \<open>\<^verbatim>\<open>TxValue k n\<close>: an interface holding a value of kind \<open>k\<close>; \<open>n\<close> says whether that value is
  nil, which only the first six kinds can be.\<close>

definition IsNilTx :: "tx_value \<Rightarrow> bool" where
  "IsNilTx tx =
     (case tx of
        NilInterface \<Rightarrow> True
      | TxValue k nil \<Rightarrow>
          if k \<in> {Chan, Func, Interface, Map, Pointer, Slice} then nil else False)"

definition ErrNestedTransaction :: goerror where
  "ErrNestedTransaction = New ''db: transaction already open on this call path''"

definition ErrClosed :: goerror where
  "ErrClosed = New ''db: pool is closed''"

record ctx =
  tx_marker :: bool

definition withinTx :: "ctx \<Rightarrow> bool" where
  "withinTx c = tx_marker c"

definition withTxMarker :: "ctx \<Rightarrow> ctx" where
  "withTxMarker c = c\<lparr>tx_marker := True\<rparr>"

datatype 'a outcome = Returned 'a | Panicked string

type_synonym ('db, 'a) body = "ctx \<Rightarrow> 'db \<Rightarrow> 'a result outcome \<times> 'db"

record 'db config =
  cfg_Name :: string
  cfg_DSN :: string
  cfg_MaxConns :: int
  cfg_MaxConnLifetime :: int
  cfg_MaxConnIdleTime :: int
  cfg_AcquireTimeout :: int
  cfg_Binder :: "('db, unit) body option"

definition applyDefaults :: "'db config \<Rightarrow> 'db config" where
  "applyDefaults c = c\<lparr>
     cfg_Name := (if cfg_Name c = '''' then ''default'' else cfg_Name c),
     cfg_MaxConns := (if cfg_MaxConns c \<le> 0 then 20 else cfg_MaxConns c),
     cfg_MaxConnLifetime := (if cfg_MaxConnLifetime c \<le> 0 then 30 * 60 * 1000000000 else cfg_MaxConnLifetime c),
     cfg_MaxConnIdleTime := (if cfg_MaxConnIdleTime c \<le> 0 then 5 * 60 * 1000000000 else cfg_MaxConnIdleTime c),
     cfg_AcquireTimeout := (if cfg_AcquireTimeout c \<le> 0 then 3 * 1000000000 else cfg_AcquireTimeout c)\<rparr>"

definition validate :: "'db config \<Rightarrow> unit result" where
  "validate c = (if cfg_DSN c = '''' then Inl (New ''db: DSN is required'') else Inr ())"

text \<open>A pool: \<open>p_open\<close> says that \<^verbatim>\<open>src\<close> and \<^verbatim>\<open>pool\<close> are not nil.\<close>

record 'db pool =
  p_name :: string
  p_open :: bool
  p_binder :: "('db, unit) body option"

text \<open>What pgxpool answers while a pool is opened, and how the connection source was configured.\<close>

record pgx =
  parse_config :: "string \<Rightarrow> unit result"
  new_with_config :: "int \<times> int \<times> int \<Rightarrow> unit result"
  pool_ping :: "unit result"

definition Open_pool :: "pgx \<Rightarrow> 'db config \<Rightarrow> 'db pool result" where
  "Open_pool pg cfg0 =
     (let cfg = applyDefaults cfg0 in
      case validate cfg of
        Inl e \<Rightarrow> Inl e
      | Inr _ \<Rightarrow>
          (case parse_config pg (cfg_DSN cfg) of
             Inl e \<Rightarrow> Inl (Wrapf ''db: parsing DSN'' [e])
           | Inr _ \<Rightarrow>
               (case new_with_config pg (cfg_MaxConns cfg, cfg_MaxConnLifetime cfg, cfg_MaxConnIdleTime cfg) of
                  Inl e \<Rightarrow> Inl (Wrapf ''db: opening pool'' [e])
                | Inr _ \<Rightarrow>
                    (case pool_ping pg of
                       Inl e \<Rightarrow> Inl (Wrapf ''db: pool cannot reach the database'' [e])
                     | Inr _ \<Rightarrow> Inr \<lparr>p_name = cfg_Name cfg, p_open = True, p_binder = cfg_Binder cfg\<rparr>))))"

definition Ping :: "pgx \<Rightarrow> 'db pool \<Rightarrow> unit result" where
  "Ping pg p = (if \<not> p_open p then Inl ErrClosed else pool_ping pg)"

definition Close :: "'db pool \<Rightarrow> 'db pool" where
  "Close p = (if p_open p then p\<lparr>p_open := False\<rparr> else p)"

section \<open>Transactions\<close>

datatype tx_event = EvBegin | EvBind | EvRun | EvCommit | EvRollback

datatype commit_ack = CommitOk | CommitFailed goerror | CommitLost goerror

record driver =
  begin_err :: "goerror option"
  commit_ack :: commit_ack

text \<open>The session binder, if the pool has one.\<close>

definition bind_session :: "'db pool \<Rightarrow> ctx \<Rightarrow> 'db \<Rightarrow> unit result outcome \<times> 'db \<times> tx_event list" where
  "bind_session p c db =
     (case p_binder p of
        None \<Rightarrow> (Returned (Inr ()), db, [])
      | Some bind \<Rightarrow> (let (r, db') = bind c db in (r, db', [EvBind])))"

definition InTx ::
  "('db \<Rightarrow> 'db \<Rightarrow> 'db) \<Rightarrow> 'db pool \<Rightarrow> driver \<Rightarrow> ctx \<Rightarrow> ('db, 'a) body \<Rightarrow> 'db
     \<Rightarrow> 'a result outcome \<times> 'db \<times> tx_event list" where
  "InTx discard p drv c fn db =
     (if \<not> p_open p then (Returned (Inl ErrClosed), db, [])
      else if withinTx c then (Returned (Inl ErrNestedTransaction), db, [])
      else case begin_err drv of
        Some e \<Rightarrow> (Returned (Inl (Wrapf ''db: beginning transaction'' [e])), db, [])
      | None \<Rightarrow>
          (let (b, db1, bound) = bind_session p c db in
           case b of
             Panicked m \<Rightarrow> (Panicked m, discard db db1, EvBegin # bound @ [EvRollback])
           | Returned (Inl e) \<Rightarrow>
               (Returned (Inl (Wrapf ''db: binding session'' [e])), discard db db1, EvBegin # bound @ [EvRollback])
           | Returned (Inr _) \<Rightarrow>
               (let (r, db2) = fn (withTxMarker c) db1 in
                case r of
                  Panicked m \<Rightarrow> (Panicked m, discard db db2, EvBegin # bound @ [EvRun, EvRollback])
                | Returned (Inl e) \<Rightarrow> (Returned (Inl e), discard db db2, EvBegin # bound @ [EvRun, EvRollback])
                | Returned (Inr x) \<Rightarrow>
                    (case commit_ack drv of
                       CommitOk \<Rightarrow> (Returned (Inr x), db2, EvBegin # bound @ [EvRun, EvCommit])
                     | CommitFailed e \<Rightarrow>
                         (Returned (Inl (Wrapf ''db: committing'' [e])), discard db db2,
                          EvBegin # bound @ [EvRun, EvCommit, EvRollback])
                     | CommitLost e \<Rightarrow>
                         (Returned (Inl (Wrapf ''db: committing'' [e])), db2,
                          EvBegin # bound @ [EvRun, EvCommit, EvRollback])))))"

section \<open>What a transaction promises\<close>

lemma InTx_cases:
  assumes "InTx discard p drv c fn db = (r, db', tr)"
  obtains
    (refused) e where "r = Returned (Inl e)" "db' = db" "tr = []"
  | (unbound) db1 bound where "tr = EvBegin # bound @ [EvRollback]" "db' = discard db db1"
      "set bound \<subseteq> {EvBind}" "\<forall>x. r \<noteq> Returned (Inr x)"
  | (failed) db1 db2 bound where "bind_session p c db = (Returned (Inr ()), db1, bound)"
      "fn (withTxMarker c) db1 = (r, db2)" "\<forall>x. r \<noteq> Returned (Inr x)"
      "tr = EvBegin # bound @ [EvRun, EvRollback]" "db' = discard db db2"
  | (committed) db1 bound x where "bind_session p c db = (Returned (Inr ()), db1, bound)"
      "fn (withTxMarker c) db1 = (Returned (Inr x), db')" "r = Returned (Inr x)" "commit_ack drv = CommitOk"
      "tr = EvBegin # bound @ [EvRun, EvCommit]"
  | (uncommitted) db1 db2 bound x e where "bind_session p c db = (Returned (Inr ()), db1, bound)"
      "fn (withTxMarker c) db1 = (Returned (Inr x), db2)" "r = Returned (Inl (Wrapf ''db: committing'' [e]))"
      "tr = EvBegin # bound @ [EvRun, EvCommit, EvRollback]"
      "db' = discard db db2 \<and> commit_ack drv = CommitFailed e \<or> db' = db2 \<and> commit_ack drv = CommitLost e"
proof -
  obtain b db1 bound where b: "bind_session p c db = (b, db1, bound)" by (cases "bind_session p c db")
  have bound: "set bound \<subseteq> {EvBind}"
    using b by (auto simp: bind_session_def split: option.splits prod.splits)
  obtain s db2 where f: "fn (withTxMarker c) db1 = (s, db2)" by (cases "fn (withTxMarker c) db1")
  note d = assms[unfolded InTx_def b f Let_def prod.case]
  consider "\<not> p_open p \<or> withinTx c \<or> begin_err drv \<noteq> None"
    | "p_open p" "\<not> withinTx c" "begin_err drv = None" "\<forall>u. b \<noteq> Returned (Inr u)"
    | "p_open p" "\<not> withinTx c" "begin_err drv = None" "b = Returned (Inr ())" "\<forall>x. s \<noteq> Returned (Inr x)"
    | x where "p_open p" "\<not> withinTx c" "begin_err drv = None" "b = Returned (Inr ())" "s = Returned (Inr x)"
    by (metis old.unit.exhaust)
  then show thesis
  proof cases
    case 1
    with d have "\<exists>e. r = Returned (Inl e)" "db' = db" "tr = []" by (auto split: if_splits option.splits)
    then show thesis using refused by blast
  next
    case 2
    with d have "tr = EvBegin # bound @ [EvRollback]" "db' = discard db db1" "\<forall>x. r \<noteq> Returned (Inr x)"
      by (auto split: outcome.splits sum.splits)
    with bound show thesis by (intro unbound)
  next
    case 3
    with d have "r = s" "tr = EvBegin # bound @ [EvRun, EvRollback]" "db' = discard db db2"
      by (auto split: outcome.splits sum.splits)
    with 3 b f show thesis by (intro failed) simp_all
  next
    case 4
    show thesis
    proof (cases "commit_ack drv")
      case CommitOk
      with 4 d b f show thesis by (intro committed[of db1 bound x]) simp_all
    next
      case (CommitFailed e)
      with 4 d b f show thesis by (intro uncommitted[of db1 bound x db2 e]) simp_all
    next
      case (CommitLost e)
      with 4 d b f show thesis by (intro uncommitted[of db1 bound x db2 e]) simp_all
    qed
  qed
qed

text \<open>
  The interface the dispatcher declares for a pool: a function runs in a transaction, and its
  effects are there exactly if it returned no error and the commit went through.
\<close>

locale transactor =
  fixes in_tx :: "('db \<Rightarrow> 'a result \<times> 'db) \<Rightarrow> 'db \<Rightarrow> 'a result \<times> 'db"
    and discard :: "'db \<Rightarrow> 'db \<Rightarrow> 'db"
  assumes committed: "in_tx fn db = (Inr x, db') \<Longrightarrow> fn db = (Inr x, db')"
    and aborted: "in_tx fn db = (Inl e, db') \<Longrightarrow>
      db' = db \<or> db' = discard db (snd (fn db)) \<or> (\<exists>x. fn db = (Inr x, db'))"
begin

lemma keeps_invariant:
  assumes "I db" "I (discard db (snd (fn db)))" "\<And>x db'. fn db = (Inr x, db') \<Longrightarrow> I db'"
  shows "I (snd (in_tx fn db))"
proof (cases "in_tx fn db")
  case (Pair r db')
  with assms committed[of fn db _ db'] aborted[of fn db _ db'] show ?thesis by (cases r) auto
qed

lemma effects:
  "in_tx fn db = (r, db') \<Longrightarrow> db' = db \<or> db' = discard db (snd (fn db)) \<or> (\<exists>x. fn db = (Inr x, db'))"
  using committed[of fn db _ db'] aborted[of fn db _ db'] by (cases r) auto

lemma failing_body_aborts:
  "fn db = (Inl e, db2) \<Longrightarrow> in_tx fn db = (r, db') \<Longrightarrow> (\<exists>e'. r = Inl e') \<and> (db' = db \<or> db' = discard db db2)"
  using committed[of fn db _ db'] aborted[of fn db _ db'] by (cases r) auto

end

text \<open>A pool whose binder only sets session variables, as a function on results.\<close>

definition session_pool :: "bool \<Rightarrow> unit result \<Rightarrow> 'db pool" where
  "session_pool opened bound = \<lparr>p_name = ''outbox'', p_open = opened, p_binder = Some (\<lambda>c db. (Returned bound, db))\<rparr>"

definition run_in_tx ::
  "('db \<Rightarrow> 'db \<Rightarrow> 'db) \<Rightarrow> bool \<Rightarrow> unit result \<Rightarrow> driver \<Rightarrow> ctx \<Rightarrow> ('db \<Rightarrow> 'a result \<times> 'db) \<Rightarrow> 'db \<Rightarrow> 'a result \<times> 'db" where
  "run_in_tx discard opened bound drv c fn db =
     (case InTx discard (session_pool opened bound) drv c (\<lambda>_ db. map_prod Returned id (fn db)) db of
        (Returned r, db', _) \<Rightarrow> (r, db')
      | (Panicked m, db', _) \<Rightarrow> (Inl (New m), db'))"

lemma bind_session_pool: "bind_session (session_pool opened bound) c db = (Returned bound, db, [EvBind])"
  by (simp add: bind_session_def session_pool_def)

lemma run_in_tx_unfold:
  "run_in_tx discard opened bound drv c fn db =
     (if \<not> opened then (Inl ErrClosed, db)
      else if withinTx c then (Inl ErrNestedTransaction, db)
      else case begin_err drv of
        Some e \<Rightarrow> (Inl (Wrapf ''db: beginning transaction'' [e]), db)
      | None \<Rightarrow>
          (case bound of
             Inl e \<Rightarrow> (Inl (Wrapf ''db: binding session'' [e]), discard db db)
           | Inr _ \<Rightarrow>
               (case fn db of
                  (Inl e, db2) \<Rightarrow> (Inl e, discard db db2)
                | (Inr x, db2) \<Rightarrow>
                    (case commit_ack drv of
                       CommitOk \<Rightarrow> (Inr x, db2)
                     | CommitFailed e \<Rightarrow> (Inl (Wrapf ''db: committing'' [e]), discard db db2)
                     | CommitLost e \<Rightarrow> (Inl (Wrapf ''db: committing'' [e]), db2)))))"
  unfolding run_in_tx_def InTx_def bind_session_pool
  by (cases "fn db")
    (simp add: session_pool_def Let_def map_prod_def split: option.split sum.split commit_ack.split)

text \<open>
  C24: A transaction is all or nothing and is always closed. Whatever the session binder, the
  function, the driver and the commit do: a result means that the function ran on the bound session
  and its state was committed; an error or a panic leaves the state the transaction started from (up to
  what a rollback cannot undo), except when the answer to a commit was lost; the function runs at most once, with
  the nesting marker set and never before a binder that the pool has; whatever was begun ends in a commit
  or a rollback; and a call from inside a transaction is refused and touches nothing.
\<close>

theorem InTx_atomic:
  assumes "InTx discard p drv c fn db = (r, db', tr)"
  shows "(\<forall>x. r = Returned (Inr x) \<longrightarrow> (\<exists>db1 bound. bind_session p c db = (Returned (Inr ()), db1, bound)
            \<and> fn (withTxMarker c) db1 = (Returned (Inr x), db') \<and> tr = EvBegin # bound @ [EvRun, EvCommit]))
    \<and> ((\<forall>x. r \<noteq> Returned (Inr x)) \<longrightarrow> db' = db \<or> (\<exists>db2. db' = discard db db2) \<or> (\<exists>e. commit_ack drv = CommitLost e))
    \<and> (tr = [] \<or> hd tr = EvBegin \<and> (last tr = EvCommit \<or> last tr = EvRollback))
    \<and> count_list tr EvRun \<le> 1
    \<and> (EvRun \<in> set tr \<and> p_binder p \<noteq> None \<longrightarrow> take 3 tr = [EvBegin, EvBind, EvRun])
    \<and> (p_open p \<longrightarrow> InTx discard p drv (withTxMarker c) fn db = (Returned (Inl ErrNestedTransaction), db, []))"
proof -
  have nested: "p_open p \<longrightarrow> InTx discard p drv (withTxMarker c) fn db = (Returned (Inl ErrNestedTransaction), db, [])"
    by (simp add: InTx_def withinTx_def withTxMarker_def)
  have bound: "count_list bound EvRun = 0 \<and> (p_binder p \<noteq> None \<longrightarrow> bound = [EvBind])"
    if "bind_session p c db = (b, db1, bound)" for b db1 bound
    using that by (auto simp: bind_session_def split: option.splits prod.splits)
  from assms show ?thesis
  proof (cases rule: InTx_cases)
    case (unbound db1 bound)
    then have "EvRun \<notin> set tr" by auto
    with unbound nested show ?thesis by (auto simp: count_list_0_iff)
  qed (use nested in \<open>auto dest: bound\<close>)
qed

theorem InTx_atomic_witness:
  "let c = \<lparr>tx_marker = False\<rparr>; fn = (\<lambda>_ n. (Returned (Inl (New ''no stock'')), n + 1)) :: (nat, unit) body;
       drv = \<lparr>begin_err = None, commit_ack = CommitOk\<rparr>;
       (r, db', tr) = InTx (\<lambda>db _. db) (session_pool True (Inr ())) drv c fn 7
   in db' = 7 \<and> last tr = EvRollback \<and> r = Returned (Inl (New ''no stock''))"
proof -
  define fn :: "(nat, unit) body" where "fn = (\<lambda>_ n. (Returned (Inl (New ''no stock'')), n + 1))"
  have e: "InTx (\<lambda>db _. db) (session_pool True (Inr ())) \<lparr>begin_err = None, commit_ack = CommitOk\<rparr>
      \<lparr>tx_marker = False\<rparr> fn 7 = (Returned (Inl (New ''no stock'')), 7, [EvBegin, EvBind, EvRun, EvRollback])"
    by (simp add: InTx_def bind_session_pool) (simp add: session_pool_def withinTx_def fn_def)
  show ?thesis using InTx_atomic[OF e] e unfolding fn_def by simp
qed

lemma run_in_tx_committed: "run_in_tx discard opened bound drv c fn db = (Inr x, db') \<Longrightarrow> fn db = (Inr x, db')"
  by (auto simp: run_in_tx_unfold split: if_splits option.splits sum.splits prod.splits commit_ack.splits)

text \<open>Rolling back a transaction that did nothing changes nothing.\<close>

lemma run_in_tx_aborted:
  assumes "run_in_tx discard opened bound drv c fn db = (Inl e, db')" "discard db db = db"
  shows "db' = db \<or> db' = discard db (snd (fn db)) \<or> (\<exists>x. fn db = (Inr x, db'))"
  using assms by (auto simp: run_in_tx_unfold split: if_splits option.splits sum.splits prod.splits commit_ack.splits)

end
