(* ===== verification/Redact.thy ===== *)
theory Redact
  imports Prelude
begin

text \<open>
  \<^verbatim>\<open>src/redact/redact.go\<close>: the patterns, the text redaction and the log handler. A regular
  expression denotes, at a position, the list of positions where a match of it can end, in the order
  of preference of \<^verbatim>\<open>regexp\<close> (leftmost first, greedy), so the first element is the match
  the library takes. Positions count bytes: every class of the patterns is a set of ASCII characters
  or the complement of one, so splitting a rune into its bytes changes no match.
\<close>

section \<open>Regular expressions\<close>

datatype re =
    Cls "char \<Rightarrow> bool"
  | Eps
  | Cat re re
  | Alt re re
  | Star re
  | WordBoundary

text \<open>A position: the character before it and the text after it.\<close>

type_synonym pos = "char option \<times> string"

definition word_char :: "char \<Rightarrow> bool" where
  "word_char c \<longleftrightarrow> is_digit c \<or> (65 \<le> (of_char c :: nat) \<and> (of_char c :: nat) \<le> 90)
     \<or> (97 \<le> (of_char c :: nat) \<and> (of_char c :: nat) \<le> 122) \<or> c = CHR ''_''"

definition is_word :: "char option \<Rightarrow> bool" where
  "is_word c \<longleftrightarrow> (case c of None \<Rightarrow> False | Some x \<Rightarrow> word_char x)"

definition next_char :: "string \<Rightarrow> char option" where
  "next_char s = (case s of [] \<Rightarrow> None | c # _ \<Rightarrow> Some c)"

text \<open>
  A greedy repetition takes one more round where it can and stops where it must; a round that
  consumes nothing is not taken.
\<close>

function (sequential) ends :: "re \<Rightarrow> pos \<Rightarrow> pos list" where
  "ends (Cls f) x = (case snd x of [] \<Rightarrow> [] | c # r \<Rightarrow> if f c then [(Some c, r)] else [])"
| "ends Eps x = [x]"
| "ends (Cat a b) x = concat (map (ends b) (ends a x))"
| "ends (Alt a b) x = ends a x @ ends b x"
| "ends (Star r) x =
     concat (map (\<lambda>y. if length (snd y) < length (snd x) then ends (Star r) y else []) (ends r x)) @ [x]"
| "ends WordBoundary x = (if is_word (fst x) \<noteq> is_word (next_char (snd x)) then [x] else [])"
  by pat_completeness auto
termination
  by (relation "measure size <*lex*> measure (\<lambda>x. length (snd x))") auto

declare ends.simps(5) [simp del]

lemma ends_Star_Cls [simp]:
  "ends (Star (Cls f)) (p, []) = [(p, [])]"
  "ends (Star (Cls f)) (p, c # s) =
     (if f c then ends (Star (Cls f)) (Some c, s) @ [(p, c # s)] else [(p, c # s)])"
  by (simp_all add: ends.simps(5)[of "Cls f"])

definition Plus :: "re \<Rightarrow> re" where
  "Plus r = Cat r (Star r)"

definition Opt :: "re \<Rightarrow> re" where
  "Opt r = Alt r Eps"

fun Cats :: "re list \<Rightarrow> re" where
  "Cats [] = Eps"
| "Cats (r # rs) = Cat r (Cats rs)"

fun Alts :: "re \<Rightarrow> re list \<Rightarrow> re" where
  "Alts r [] = r"
| "Alts r (q # qs) = Alt r (Alts q qs)"

text \<open>Literal text, and literal text under \<^verbatim>\<open>(?i)\<close>, where U+017F folds to \<^verbatim>\<open>s\<close> and U+212A to \<^verbatim>\<open>k\<close>.\<close>

definition lit :: "string \<Rightarrow> re" where
  "lit s = Cats (map (\<lambda>c. Cls (\<lambda>x. x = c)) s)"

definition fold_char :: "char \<Rightarrow> re" where
  "fold_char c =
     (let plain = Cls (\<lambda>x. lower_char x = c) in
      if c = CHR ''s'' then Alt plain (lit [CHR 0xC5, CHR 0xBF])
      else if c = CHR ''k'' then Alt plain (lit [CHR 0xE2, CHR 0x84, CHR 0xAA])
      else plain)"

definition fold_lit :: "string \<Rightarrow> re" where
  "fold_lit s = Cats (map fold_char s)"

section \<open>The patterns\<close>

definition Replacement :: string where
  "Replacement = ''[REDACTED]''"

definition re_space :: "char \<Rightarrow> bool" where
  "re_space c \<longleftrightarrow> c \<in> set [CHR 0x09, CHR 0x0A, CHR 0x0C, CHR 0x0D, CHR '' '']"

definition alnum :: "char \<Rightarrow> bool" where
  "alnum c \<longleftrightarrow> word_char c \<and> c \<noteq> CHR ''_''"

text \<open>A class that holds the letters, under \<^verbatim>\<open>(?i)\<close>.\<close>

definition fold_class :: "(char \<Rightarrow> bool) \<Rightarrow> re" where
  "fold_class f = Alts (Cls f) [lit [CHR 0xC5, CHR 0xBF], lit [CHR 0xE2, CHR 0x84, CHR 0xAA]]"

text \<open>A pattern with its two groups: what is kept before, what is replaced, what is kept after.\<close>

type_synonym pattern = "re \<times> re \<times> re"

definition bearer_pattern :: pattern where
  "bearer_pattern =
     (Cat (fold_lit ''bearer'') (Plus (Cls re_space)),
      Plus (fold_class (\<lambda>c. alnum c \<or> c \<in> set ''._~+/=-'')), Eps)"

definition sensitive_words :: re where
  "sensitive_words =
     (let sep = Opt (Cls (\<lambda>c. c \<in> set ''_-'')) in
      Alts (fold_lit ''password'')
        [fold_lit ''passwd'', fold_lit ''secret'', fold_lit ''token'',
         Cats [fold_lit ''api'', sep, fold_lit ''key''],
         fold_lit ''authorization'', fold_lit ''cookie'', fold_lit ''credential'',
         Cats [fold_lit ''client'', sep, fold_lit ''secret'']])"

definition assignment_pattern :: pattern where
  "assignment_pattern =
     (Cats [sensitive_words, Star (Cls re_space), Cls (\<lambda>c. c = CHR ''='' \<or> c = CHR '':''), Star (Cls re_space)],
      Alts (Cats [lit [CHR 0x22], Star (Cls (\<lambda>c. c \<noteq> CHR 0x22)), lit [CHR 0x22]])
        [Cats [lit [CHR 0x27], Star (Cls (\<lambda>c. c \<noteq> CHR 0x27)), lit [CHR 0x27]],
         Plus (Cls (\<lambda>c. \<not> re_space c \<and> c \<notin> set '',;&''))],
      Eps)"

definition userinfo_pattern :: pattern where
  "userinfo_pattern =
     (Cats [fold_class (\<lambda>c. alnum c \<and> \<not> is_digit c),
            Star (fold_class (\<lambda>c. alnum c \<or> c \<in> set ''+.-'')), lit ''://'',
            Plus (Cls (\<lambda>c. \<not> re_space c \<and> c \<notin> set '':/@'')), lit '':''],
      Plus (Cls (\<lambda>c. \<not> re_space c \<and> c \<notin> set ''/@'')), lit ''@'')"

definition jwt_pattern :: pattern where
  "jwt_pattern =
     (let seg = Plus (Cls (\<lambda>c. alnum c \<or> c \<in> set ''_-'')) in
      (Eps, Cats [WordBoundary, lit ''eyJ'', seg, lit ''.'', seg, lit ''.'', seg, WordBoundary], Eps))"

definition patterns :: "pattern list" where
  "patterns = [bearer_pattern, assignment_pattern, userinfo_pattern, jwt_pattern]"

definition sensitiveKey :: re where
  "sensitiveKey = sensitive_words"

section \<open>Replacing\<close>

text \<open>The match at a position: where the first group, the replaced part and the whole match end.\<close>

definition match_at :: "pattern \<Rightarrow> pos \<Rightarrow> (pos \<times> pos \<times> pos) option" where
  "match_at pat x =
     (case pat of (g, mid, h) \<Rightarrow>
        (case [(y, z, w). y \<leftarrow> ends g x, z \<leftarrow> ends mid y, w \<leftarrow> ends h z] of
           [] \<Rightarrow> None | t # _ \<Rightarrow> Some t))"

definition between :: "pos \<Rightarrow> pos \<Rightarrow> string" where
  "between x y = take (length (snd x) - length (snd y)) (snd x)"

text \<open>\<^verbatim>\<open>ReplaceAllString\<close> with \<^verbatim>\<open>${1}[REDACTED]${2}\<close>: the matches from left to right, none
  overlapping the one before. No pattern matches the empty text.\<close>

function replace_all :: "pattern \<Rightarrow> pos \<Rightarrow> string" where
  "replace_all pat x =
     (case snd x of
        [] \<Rightarrow> []
      | c # r \<Rightarrow>
          (case match_at pat x of
             Some (y, z, w) \<Rightarrow>
               if length (snd w) < length (snd x)
               then between x y @ Replacement @ between z w @ replace_all pat w
               else c # replace_all pat (Some c, r)
           | None \<Rightarrow> c # replace_all pat (Some c, r)))"
  by pat_completeness auto
termination by (relation "measure (\<lambda>(pat, x). length (snd x))") auto

declare replace_all.simps [simp del]

definition redact_string :: "string \<Rightarrow> string" where
  "redact_string s = fold (\<lambda>pat s. replace_all pat (None, s)) patterns s"

fun matches_somewhere :: "re \<Rightarrow> char option \<Rightarrow> string \<Rightarrow> bool" where
  "matches_somewhere r p s =
     (ends r (p, s) \<noteq> [] \<or> (case s of [] \<Rightarrow> False | c # s' \<Rightarrow> matches_somewhere r (Some c) s'))"

definition SensitiveKey :: "string \<Rightarrow> bool" where
  "SensitiveKey key = matches_somewhere sensitiveKey None key"

declare matches_somewhere.simps [simp del]

section \<open>The log handler\<close>

text \<open>
  A \<^verbatim>\<open>slog.Value\<close>: text, a group, a value that computes another, or one of the remaining kinds (numbers,
  times, any Go value), which the handler passes on as it is.
\<close>

datatype slog_value = VString string | VGroup "(string \<times> slog_value) list" | VLogValuer slog_value | VOther string

type_synonym attr = "string \<times> slog_value"

text \<open>\<^verbatim>\<open>Value.Resolve\<close> follows at most a hundred \<^verbatim>\<open>LogValuer\<close>s.\<close>

fun resolve_n :: "nat \<Rightarrow> slog_value \<Rightarrow> slog_value" where
  "resolve_n 0 v = VOther ''slog: LogValue called too many times''"
| "resolve_n (Suc n) v = (case v of VLogValuer w \<Rightarrow> resolve_n n w | _ \<Rightarrow> v)"

definition Resolve :: "slog_value \<Rightarrow> slog_value" where
  "Resolve v = resolve_n 100 v"

text \<open>\<^verbatim>\<open>slog.Group\<close> leaves out members that are empty groups.\<close>

definition slog_group :: "attr list \<Rightarrow> slog_value" where
  "slog_group as = VGroup (filter (\<lambda>a. snd a \<noteq> VGroup []) as)"

lemma size_resolve_n: "size (resolve_n n v) \<le> size v"
  by (induction n v rule: resolve_n.induct) (auto split: slog_value.split)

lemma size_resolve: "size (Resolve v) \<le> size v"
  by (simp add: Resolve_def size_resolve_n)

lemma size_group_member: "a \<in> set as \<Longrightarrow> size (snd a) < size (VGroup as)"
  by (induction as) (auto simp: less_Suc_eq_le)

function redactAttr :: "string \<Rightarrow> slog_value \<Rightarrow> attr" where
  "redactAttr key v =
     (if SensitiveKey key then (key, VString Replacement)
      else (case Resolve v of
              VString s \<Rightarrow> (key, VString (redact_string s))
            | VGroup as \<Rightarrow> (key, slog_group (map (\<lambda>a. redactAttr (fst a) (snd a)) as))
            | w \<Rightarrow> (key, w)))"
  by pat_completeness auto
termination
proof (relation "measure (\<lambda>(k, v). size v)", goal_cases)
  case (2 key v as a)
  then show ?case using size_group_member[of a as] size_resolve[of v] by (cases a) simp
qed simp

declare redactAttr.simps [simp del]

record log_record =
  log_message :: string
  log_attrs :: "attr list"

record handler =
  sensitiveGroup :: bool

definition NewHandler :: "bool \<Rightarrow> handler option" where
  "NewHandler next_nil = (if next_nil then None else Some \<lparr>sensitiveGroup = False\<rparr>)"

definition clean_attrs :: "handler \<Rightarrow> attr list \<Rightarrow> attr list" where
  "clean_attrs h as =
     map (\<lambda>a. if sensitiveGroup h then (fst a, VString Replacement) else redactAttr (fst a) (snd a)) as"

text \<open>
  The record, the attributes and the group that go to the wrapped handler. \<^verbatim>\<open>Record.AddAttrs\<close> leaves out empty groups.
\<close>

definition Handle :: "handler \<Rightarrow> log_record \<Rightarrow> log_record" where
  "Handle h r = \<lparr>log_message = redact_string (log_message r),
     log_attrs = filter (\<lambda>a. snd a \<noteq> VGroup []) (clean_attrs h (log_attrs r))\<rparr>"

definition WithAttrs :: "handler \<Rightarrow> attr list \<Rightarrow> attr list \<times> handler" where
  "WithAttrs h as = (clean_attrs h as, \<lparr>sensitiveGroup = sensitiveGroup h\<rparr>)"

definition WithGroup :: "handler \<Rightarrow> string \<Rightarrow> string \<times> handler" where
  "WithGroup h name = (name, \<lparr>sensitiveGroup = sensitiveGroup h \<or> SensitiveKey name\<rparr>)"

section \<open>What is forwarded\<close>

text \<open>A value that may be forwarded: under a sensitive name only the replacement, a text only redacted.\<close>

inductive clean :: "string \<Rightarrow> slog_value \<Rightarrow> bool" where
  clean_sensitive: "clean k (VString Replacement)"
| clean_string: "\<not> SensitiveKey k \<Longrightarrow> clean k (VString (redact_string s))"
| clean_group: "\<not> SensitiveKey k \<Longrightarrow> (\<forall>a \<in> set as. clean (fst a) (snd a)) \<Longrightarrow> clean k (VGroup as)"
| clean_other: "\<not> SensitiveKey k \<Longrightarrow> clean k (VOther x)"

inductive_cases clean_sensitiveE: "clean k v"

lemma resolve_n_shape: "resolve_n n v \<noteq> VLogValuer w"
  by (induction n v rule: resolve_n.induct) (auto split: slog_value.splits)

lemma redactAttr_clean: "fst (redactAttr k v) = k \<and> clean k (snd (redactAttr k v))"
proof (induction k v rule: redactAttr.induct)
  case (1 k v)
  show ?case
  proof (cases "SensitiveKey k")
    case True
    then show ?thesis by (simp add: redactAttr.simps clean_sensitive)
  next
    case False
    show ?thesis
    proof (cases "Resolve v")
      case (VString s)
      with False show ?thesis by (simp add: redactAttr.simps clean_string)
    next
      case (VGroup as)
      have "fst (redactAttr (fst a) (snd a)) = fst a \<and> clean (fst a) (snd (redactAttr (fst a) (snd a)))"
        if "a \<in> set as" for a using 1[OF False VGroup that] .
      with False VGroup show ?thesis
        by (subst (1 2) redactAttr.simps) (auto simp: slog_group_def intro!: clean_group, metis fst_conv snd_conv)
    next
      case (VLogValuer w)
      then show ?thesis using resolve_n_shape[of 100 v w] by (simp add: Resolve_def)
    next
      case (VOther x)
      with False show ?thesis by (simp add: redactAttr.simps clean_other)
    qed
  qed
qed

section \<open>Assignments lose their value\<close>

lemma ends_suffix: "y \<in> set (ends r x) \<Longrightarrow> suffix (snd y) (snd x)"
proof (induction r x arbitrary: y rule: ends.induct)
  case (1 f x)
  then show ?case by (cases x; cases "snd x") (auto split: if_splits intro: suffix_ConsI)
next
  case (3 a b x)
  then obtain z where z: "z \<in> set (ends a x)" "y \<in> set (ends b z)" by auto
  from 3(2)[OF z] 3(1)[OF z(1)] show ?case by (rule suffix_order.order_trans)
next
  case (5 r x)
  then consider "y = x" | z where "z \<in> set (ends r x)" "length (snd z) < length (snd x)" "y \<in> set (ends (Star r) z)"
    by (auto simp: ends.simps(5)[of r x] split: if_splits)
  then show ?case
  proof cases
    case (2 z)
    from 5(2)[OF 2] 5(1)[OF 2(1)] show ?thesis by (rule suffix_order.order_trans)
  qed simp
qed (auto split: if_splits)

lemma replace_all_unmatched:
  "(\<And>p t. suffix t s \<Longrightarrow> match_at pat (p, t) = None) \<Longrightarrow> replace_all pat (p, s) = s"
proof (induction s arbitrary: p)
  case (Cons c s)
  then have "replace_all pat (Some c, s) = s" by (auto intro: suffix_ConsI)
  with Cons.prems show ?case by (subst replace_all.simps) simp
qed (simp add: replace_all.simps)

lemma bearer_needs_space:
  assumes "list_all (\<lambda>c. \<not> re_space c) s" shows "replace_all bearer_pattern (p, s) = s"
proof (rule replace_all_unmatched)
  fix p t assume "suffix t s"
  have "ends (Plus (Cls re_space)) y = []" if "y \<in> set (ends (fold_lit ''bearer'') (p, t))" for y
  proof -
    have "suffix (snd y) s" using ends_suffix[OF that] \<open>suffix t s\<close> by (auto intro: suffix_order.order_trans)
    then have "list_all (\<lambda>c. \<not> re_space c) (snd y)" using assms by (auto simp: suffix_def)
    then show ?thesis by (cases "snd y") (auto simp: Plus_def)
  qed
  then have "ends (Cat (fold_lit ''bearer'') (Plus (Cls re_space))) (p, t) = []" by simp
  then show "match_at bearer_pattern (p, t) = None" by (simp only: match_at_def bearer_pattern_def prod.case) simp
qed

lemma ends_lit: "y \<in> set (ends (lit s) x) \<Longrightarrow> set s \<subseteq> set (snd x)"
proof (induction s arbitrary: x)
  case (Cons c s)
  then obtain z where z: "z \<in> set (ends (Cls (\<lambda>a. a = c)) x)" "y \<in> set (ends (lit s) z)" by (auto simp: lit_def)
  then have "c \<in> set (snd x)" by (cases "snd x") (auto split: if_splits)
  moreover have "set (snd z) \<subseteq> set (snd x)" using ends_suffix[OF z(1)] by (rule set_mono_suffix)
  ultimately show ?case using Cons.IH[OF z(2)] by auto
qed simp

text \<open>The other two patterns need a literal; a text without it has no match.\<close>

lemma userinfo_needs_colon:
  assumes "CHR '':'' \<notin> set s" shows "replace_all userinfo_pattern (p, s) = s"
proof (rule replace_all_unmatched)
  fix p t assume t: "suffix t s"
  have "z \<notin> set (ends (lit ''://'') y)" if "suffix (snd y) t" for y z
    using ends_lit[of z "''://''" y] set_mono_suffix[OF that] set_mono_suffix[OF t] assms by auto
  then have l: "ends (lit ''://'') y = []" if "suffix (snd y) t" for y using that by (metis list.set_intros(1) list.exhaust)
  have "ends (fst userinfo_pattern) (p, t) = []"
  proof -
    have "ends (lit ''://'') y2 = []" if "y1 \<in> set (ends a (p, t))" "y2 \<in> set (ends b y1)" for a b y1 y2
      by (rule l) (use ends_suffix[OF that(1)] ends_suffix[OF that(2)] in \<open>auto intro: suffix_order.order_trans\<close>)
    then show ?thesis by (simp add: userinfo_pattern_def del: ends.simps(1))
  qed
  then show "match_at userinfo_pattern (p, t) = None" by (simp add: match_at_def userinfo_pattern_def del: ends.simps)
qed

lemma jwt_needs_letter:
  assumes "CHR ''J'' \<notin> set s" shows "replace_all jwt_pattern (p, s) = s"
proof (rule replace_all_unmatched)
  fix p t assume t: "suffix t s"
  have "z \<notin> set (ends (lit ''eyJ'') (p, t))" for z
    using ends_lit[of z "''eyJ''" "(p, t)"] set_mono_suffix[OF t] assms by auto
  then have "ends (lit ''eyJ'') (p, t) = []" by (metis list.set_intros(1) list.exhaust)
  then show "match_at jwt_pattern (p, t) = None" by (simp add: match_at_def jwt_pattern_def Let_def del: ends.simps(1))
qed

lemma star_class_all:
  "list_all f s \<Longrightarrow> \<exists>q ys. ends (Star (Cls f)) (p, s) = (q, []) # ys"
proof (induction s arbitrary: p)
  case (Cons c s)
  then obtain q ys where "ends (Star (Cls f)) (Some c, s) = (q, []) # ys" by force
  with Cons.prems show ?case by simp
qed simp

lemma plus_class_all:
  assumes "list_all f s" "s \<noteq> []" shows "\<exists>q ys. ends (Plus (Cls f)) (p, s) = (q, []) # ys"
proof -
  obtain c r where s: "s = c # r" using assms(2) by (cases s) auto
  obtain q ys where "ends (Star (Cls f)) (Some c, r) = (q, []) # ys"
    using star_class_all[of f r "Some c"] assms(1) s by auto
  with assms(1) s show ?thesis by (simp add: Plus_def)
qed

definition plain_value :: "string \<Rightarrow> bool" where
  "plain_value v \<longleftrightarrow> v \<noteq> [] \<and> hd v \<noteq> CHR 0x22 \<and> hd v \<noteq> CHR 0x27
     \<and> list_all (\<lambda>c. \<not> re_space c \<and> c \<notin> set '',;&'') v"

text \<open>The words whose assignment is redacted.\<close>

definition assigned_words :: "string list" where
  "assigned_words = [''password'', ''passwd'', ''secret'', ''token'', ''apikey'', ''api_key'', ''api-key'', ''authorization'', ''cookie'', ''credential'',
     ''client_secret'', ''client-secret'', ''clientsecret'']"

lemma match_word:
  assumes "w \<in> set assigned_words" "v = c # r" "\<not> re_space c"
  shows "ends (fst assignment_pattern) (None, w @ ''='' @ v) = [(Some CHR ''='', v)]"
  using assms(1) unfolding assms(2) assigned_words_def list.set insert_iff empty_iff
  by (elim disjE FalseE)
    (use assms(3) in \<open>simp add: assignment_pattern_def sensitive_words_def fold_lit_def fold_char_def Let_def lit_def Opt_def re_space_def\<close>)+

lemma match_assignment:
  assumes "w \<in> set assigned_words" "plain_value v"
  shows "\<exists>y z. match_at assignment_pattern (None, w @ ''='' @ v) = Some (y, z, z) \<and> snd y = v \<and> snd z = []"
proof -
  obtain c r where v: "v = c # r" using assms(2) by (cases v) (auto simp: plain_value_def)
  have c: "\<not> re_space c" "c \<noteq> CHR 0x22" "c \<noteq> CHR 0x27" using assms(2) v by (auto simp: plain_value_def)
  obtain q ys where q: "ends (Plus (Cls (\<lambda>c. \<not> re_space c \<and> c \<notin> set '',;&''))) (Some CHR ''='', v) = (q, []) # ys"
    using plus_class_all[of _ v "Some CHR ''=''"] assms(2) unfolding plain_value_def by blast
  have m: "ends (fst (snd assignment_pattern)) (Some CHR ''='', v) = (q, []) # ys"
    using c q by (simp add: assignment_pattern_def lit_def v)
  show ?thesis
    using match_word[OF assms(1) v c(1)] m by (simp add: match_at_def assignment_pattern_def)
qed

text \<open>
  Whatever the secret, a text that assigns it to one of these words comes out of the redaction with the
  marker in its place and no trace of it, as long as it holds no separator and is not quoted.
\<close>

lemma redact_assignment:
  assumes "w \<in> set assigned_words" "plain_value v"
  shows "redact_string (w @ ''='' @ v) = w @ ''='' @ Replacement"
proof -
  have "list_all (\<lambda>c. \<not> re_space c) w" using assms(1) by (auto simp: assigned_words_def re_space_def)
  then have "list_all (\<lambda>c. \<not> re_space c) (w @ ''='' @ v)"
    using assms(2) unfolding plain_value_def list_all_append
    by (intro conjI) (assumption, simp add: re_space_def, simp add: list_all_iff)
  then have b: "replace_all bearer_pattern (None, w @ ''='' @ v) = w @ ''='' @ v" by (rule bearer_needs_space)
  obtain y z where m: "match_at assignment_pattern (None, w @ ''='' @ v) = Some (y, z, z)" "snd y = v" "snd z = []"
    using match_assignment[OF assms] by blast
  obtain c s where s: "w @ ''='' @ v = c # s" by (cases "w @ ''='' @ v") auto
  have "between (None, c # s) y = w @ ''=''" unfolding s[symmetric] by (simp add: between_def m(2))
  then have a: "replace_all assignment_pattern (None, w @ ''='' @ v) = w @ ''='' @ Replacement"
    using m unfolding s by (subst replace_all.simps) (simp add: between_def[of z] replace_all.simps[of _ z])
  have "replace_all userinfo_pattern (None, w @ ''='' @ Replacement) = w @ ''='' @ Replacement
      \<and> replace_all jwt_pattern (None, w @ ''='' @ Replacement) = w @ ''='' @ Replacement"
    by (intro conjI userinfo_needs_colon jwt_needs_letter) (use assms(1) in \<open>auto simp: assigned_words_def Replacement_def\<close>)
  with a b show ?thesis by (simp add: redact_string_def patterns_def)
qed

section \<open>What the handler forwards\<close>



end
