(* ===== verification/Store.thy ===== *)
theory Store
  imports Db Envelope Dispatch
begin

text \<open>
  The tables of the \<^verbatim>\<open>platform\<close> schema (\<^verbatim>\<open>src/migrations/platform\<close>) the packages read and
  write, and statements against them. A UUID column holds its canonical text. A table is the list of its rows; a
  statement is a function on the database that the environment may make fail, and its error leaves
  the transaction to be rolled back. \<^verbatim>\<open>now()\<close> is the start of the transaction,
  \<^verbatim>\<open>statement_timestamp()\<close> the start of the statement.
\<close>

section \<open>Rows\<close>

type_synonym uuid_text = string

record outbox_row =
  o_created_at :: time
  o_event_id :: uuid_text
  o_sequence :: int
  o_event_type :: string
  o_aggregate_id :: uuid_text
  o_priority :: int
  o_payload :: json
  o_envelope :: json

record delivery =
  d_created_at :: time
  d_event_id :: uuid_text
  d_consumer :: string
  d_sequence :: int
  d_event_type :: string
  d_priority :: int
  d_published :: bool
  d_published_at :: "time option"
  d_attempts :: int
  d_last_error :: "string option"
  d_failure_class :: "string option"
  d_first_failed_at :: "time option"
  d_next_attempt_at :: "time option"
  d_lease_id :: "uuid_text option"
  d_leased_until :: "time option"

record subscription =
  s_consumer :: string
  s_event_types :: "string list"
  s_subscribed_at :: time
  s_retired_at :: "time option"

record dead_letter =
  l_event_id :: uuid_text
  l_event_type :: string
  l_envelope :: "json option"
  l_payload :: "json option"
  l_aggregate_id :: "uuid_text option"
  l_priority :: "int option"
  l_failure_class :: string
  l_failure_detail :: string
  l_attempts :: int
  l_first_failed_at :: time
  l_consumer :: "string option"
  l_dead_lettered_at :: time
  l_resolved_at :: "time option"
  l_resolution_reference :: "string option"
  l_waived_at :: "time option"
  l_waived_until :: "time option"

record receipt_row =
  c_event_id :: uuid_text
  c_consumer :: string
  c_event_type :: string
  c_evidence :: evidence
  c_recorded_at :: time

record processed_row =
  x_event_id :: uuid_text
  x_consumer :: string
  x_event_type :: string
  x_processed_at :: time

record key_row =
  k_scope :: string
  k_key :: string
  k_request_digest :: string
  k_response_status :: "int option"
  k_response_body :: "json option"
  k_claimed_at :: time
  k_completed_at :: "time option"

record database =
  outbox :: "outbox_row list"
  outbox_delivery :: "delivery list"
  subscriptions :: "subscription list"
  dead_letters :: "dead_letter list"
  delivery_receipts :: "receipt_row list"
  processed_events :: "processed_row list"
  idempotency_keys :: "key_row list"
  outbox_sequence :: int

text \<open>A rollback undoes everything but the sequence.\<close>

definition discard :: "database \<Rightarrow> database \<Rightarrow> database" where
  "discard db db' = db\<lparr>outbox_sequence := outbox_sequence db'\<rparr>"

lemma discard_same [simp]: "discard db db = db"
  by (simp add: discard_def)

definition delivery_key :: "delivery \<Rightarrow> time \<times> uuid_text \<times> string" where
  "delivery_key d = (d_created_at d, d_event_id d, d_consumer d)"

section \<open>Statements\<close>

text \<open>The statements of the packages, with the row a repeated one addresses.\<close>

datatype stmt =
    SubscriptionLock | AppendStatement
  | SubscriptionExclusive | RetireSubscription | InsertSubscription | ActiveSubscription | AbandonStatement
  | ClaimStatement | MarkPublished uuid_text | RecordReceipt uuid_text | RecordFailure uuid_text
  | StopRedelivery uuid_text | DeadLetterStatement uuid_text | ReleaseStatement uuid_text
  | DisposeDeadLetters | CountStaleDeadLetters | PruneReceipts
  | InsertProcessed | ClaimKey | LoadKey | CompleteKey | PurgeKeys

text \<open>
  What surrounds one transaction: the pool and the driver, the transaction's time, each
  statement's time, the statements that fail, and the delivery rows other transactions have locked.
\<close>

record txenv =
  env_open :: bool
  env_bound :: "unit result"
  env_driver :: driver
  tx_now :: time
  stmt_now :: "stmt \<Rightarrow> time"
  fault :: "stmt \<Rightarrow> goerror option"
  row_locked :: "time \<times> uuid_text \<times> string \<Rightarrow> bool"

type_synonym 'a stm = "database \<Rightarrow> 'a result \<times> database"

definition exec :: "txenv \<Rightarrow> stmt \<Rightarrow> 'a stm \<Rightarrow> 'a stm" where
  "exec env s run db = (case fault env s of Some e \<Rightarrow> (Inl e, db) | None \<Rightarrow> run db)"

definition return :: "'a \<Rightarrow> 'a stm" where
  "return x db = (Inr x, db)"

definition throw :: "goerror \<Rightarrow> 'a stm" where
  "throw e db = (Inl e, db)"

definition bind_stm :: "'a stm \<Rightarrow> ('a \<Rightarrow> 'b stm) \<Rightarrow> 'b stm" where
  "bind_stm run f db = (case run db of (Inl e, db') \<Rightarrow> (Inl e, db') | (Inr x, db') \<Rightarrow> f x db')"

text \<open>\<^verbatim>\<open>fmt.Errorf("...: %w", err)\<close> around the error of a statement.\<close>

definition wrap :: "string \<Rightarrow> 'a stm \<Rightarrow> 'a stm" where
  "wrap m run db = (case run db of (Inl e, db') \<Rightarrow> (Inl (Wrapf m [e]), db') | (Inr x, db') \<Rightarrow> (Inr x, db'))"

text \<open>\<^verbatim>\<open>UPDATE\<close>: the rows it matches and how many there are.\<close>

definition update_where :: "('r \<Rightarrow> bool) \<Rightarrow> ('r \<Rightarrow> 'r) \<Rightarrow> 'r list \<Rightarrow> 'r list" where
  "update_where P f rows = map (\<lambda>r. if P r then f r else r) rows"

definition affected :: "('r \<Rightarrow> bool) \<Rightarrow> 'r list \<Rightarrow> nat" where
  "affected P rows = length (filter P rows)"

definition unique_violation :: goerror where
  "unique_violation = New ''duplicate key value violates unique constraint''"

definition check_violation :: goerror where
  "check_violation = New ''new row violates check constraint''"

lemma exec_Inr: "exec env s run db = (Inr x, db') \<longleftrightarrow> fault env s = None \<and> run db = (Inr x, db')"
  by (simp add: exec_def split: option.split)

lemma bind_stm_Inr:
  "bind_stm run f db = (Inr y, db') \<longleftrightarrow> (\<exists>x db1. run db = (Inr x, db1) \<and> f x db1 = (Inr y, db'))"
  by (auto simp: bind_stm_def split: prod.splits sum.splits)

lemma wrap_Inr: "wrap m run db = (Inr x, db') \<longleftrightarrow> run db = (Inr x, db')"
  by (auto simp: wrap_def split: prod.splits sum.splits)

lemma return_Inr [simp]: "return x db = (Inr y, db') \<longleftrightarrow> y = x \<and> db' = db"
  by (auto simp: return_def)

lemma throw_Inr [simp]: "throw e db \<noteq> (Inr y, db')"
  by (simp add: throw_def)

lemmas stm_Inr = exec_Inr bind_stm_Inr wrap_Inr

lemma length_update_where [simp]: "length (update_where P f rows) = length rows"
  by (simp add: update_where_def)

lemma update_where_none: "affected P rows = 0 \<Longrightarrow> update_where P f rows = rows"
  by (auto simp: update_where_def affected_def filter_empty_conv intro: map_idI)

lemma set_update_where: "set (update_where P f rows) = {r \<in> set rows. \<not> P r} \<union> f ` {r \<in> set rows. P r}"
  by (auto simp: update_where_def)

lemma map_update_where: "(\<And>r. P r \<Longrightarrow> g (f r) = g r) \<Longrightarrow> map g (update_where P f rows) = map g rows"
  by (simp add: update_where_def)

lemma affected_pos: "0 < affected P rows \<longleftrightarrow> (\<exists>r \<in> set rows. P r)"
  by (auto simp: affected_def filter_empty_conv)

section \<open>Intervals\<close>

text \<open>\<^verbatim>\<open>Duration.Seconds\<close> and \<^verbatim>\<open>make_interval(secs => ...)\<close>, whose result has whole microseconds.\<close>

definition Seconds :: "duration \<Rightarrow> rat" where
  "Seconds d =
     (let sec = sint d sdiv 1000000000; nsec = sint d - sec * 1000000000
      in f64_round (f64_of_int sec + f64_round (f64_of_int nsec / 1000000000)))"

definition make_interval :: "rat \<Rightarrow> int" where
  "make_interval secs = round_half_even (f64_round (secs * 1000000)) * 1000"

section \<open>Transactions on the database\<close>

definition in_tx :: "txenv \<Rightarrow> 'a stm \<Rightarrow> 'a stm" where
  "in_tx env fn db =
     run_in_tx discard (env_open env) (env_bound env) (env_driver env) \<lparr>tx_marker = False\<rparr> fn db"

interpretation tx: transactor "in_tx env" discard for env
  by unfold_locales (auto simp: in_tx_def dest: run_in_tx_committed run_in_tx_aborted)

text \<open>The transaction goes through: the pool answers, no error, and the commit is acknowledged.\<close>

definition healthy :: "txenv \<Rightarrow> bool" where
  "healthy env \<longleftrightarrow> env_open env \<and> env_bound env = Inr () \<and> begin_err (env_driver env) = None
     \<and> commit_ack (env_driver env) = CommitOk \<and> (\<forall>s. fault env s = None)"

lemma in_tx_healthy: "healthy env \<Longrightarrow> fn db = (Inr x, db') \<Longrightarrow> in_tx env fn db = (Inr x, db')"
  by (simp add: in_tx_def run_in_tx_unfold healthy_def withinTx_def)

lemma in_tx_healthy_error: "healthy env \<Longrightarrow> fn db = (Inl e, db') \<Longrightarrow> in_tx env fn db = (Inl e, discard db db')"
  by (simp add: in_tx_def run_in_tx_unfold healthy_def withinTx_def)

end
