(* ===== verification/Outbox.thy ===== *)
theory Outbox
  imports Store Redact Jsonb
begin

text \<open>
  \<^verbatim>\<open>src/outbox/outbox.go\<close> and \<^verbatim>\<open>src/outbox/subscription.go\<close>: appending an event with the
  deliveries it owes, and changing what a consumer is owed. Every operation runs inside the caller's
  transaction, so it is a statement sequence; the advisory lock orders appends against subscription
  changes, which the model has because transactions run one after the other.
\<close>

section \<open>Appending\<close>

definition PriorityHigh :: int where "PriorityHigh = 0"

definition PriorityStandard :: int where "PriorityStandard = 100"

definition ErrNoTransaction :: goerror where
  "ErrNoTransaction = New ''outbox: a transaction handle is required''"

definition ErrNoAggregate :: goerror where
  "ErrNoAggregate = New ''outbox: an aggregate identifier is required''"

definition ErrNotSubscribed :: goerror where
  "ErrNotSubscribed = New ''outbox: the consumer does not subscribe to this event type''"

record appendOptions =
  a_priority :: int
  a_only :: string

type_synonym append_option = "appendOptions \<Rightarrow> appendOptions"

definition Priority :: append_option where
  "Priority opts = opts\<lparr>a_priority := PriorityHigh\<rparr>"

definition To :: "string \<Rightarrow> append_option" where
  "To consumer opts = opts\<lparr>a_only := trim_space consumer\<rparr>"

definition active :: "subscription \<Rightarrow> bool" where
  "active s \<longleftrightarrow> s_retired_at s = None"

text \<open>The subscriptions the final \<^verbatim>\<open>SELECT\<close> joins.\<close>

definition owed_subscriptions :: "string \<Rightarrow> string \<Rightarrow> database \<Rightarrow> subscription list" where
  "owed_subscriptions typ only db =
     filter (\<lambda>s. active s \<and> typ \<in> set (s_event_types s) \<and> (only = '''' \<or> s_consumer s = only)) (subscriptions db)"

definition new_delivery :: "time \<Rightarrow> uuid_text \<Rightarrow> int \<Rightarrow> string \<Rightarrow> int \<Rightarrow> subscription \<Rightarrow> delivery" where
  "new_delivery created eid pos typ prio s =
     \<lparr>d_created_at = created, d_event_id = eid, d_consumer = s_consumer s, d_sequence = pos, d_event_type = typ,
      d_priority = prio, d_published = False, d_published_at = None, d_attempts = 0, d_last_error = None,
      d_failure_class = None, d_first_failed_at = None, d_next_attempt_at = None, d_lease_id = None,
      d_leased_until = None\<rparr>"

text \<open>
  \<^verbatim>\<open>appendStatement\<close>; the result is the number of deliveries. The payload and the envelope are sent as texts and stored in
  \<^verbatim>\<open>jsonb\<close> columns, so that the row has their normal forms. The sequence moves even when the insert fails on a key.
\<close>

definition append_statement ::
  "txenv \<Rightarrow> uuid_text \<Rightarrow> string \<Rightarrow> uuid_text \<Rightarrow> int \<Rightarrow> json \<Rightarrow> json \<Rightarrow> string \<Rightarrow> nat stm" where
  "append_statement env eid typ agg prio payload envelope only db =
     (let pos = outbox_sequence db + 1; created = tx_now env;
          db1 = db\<lparr>outbox_sequence := pos\<rparr>;
          row = \<lparr>o_created_at = created, o_event_id = eid, o_sequence = pos, o_event_type = typ,
                 o_aggregate_id = agg, o_priority = prio, o_payload = jsonb payload,
                 o_envelope = jsonb_set (jsonb envelope) ''streamposition'' (JNum (show_int pos))\<rparr>;
          owed = map (new_delivery created eid pos typ prio) (owed_subscriptions typ only db)
      in if pos \<ge> 2 ^ 63 then (Inl (New ''nextval: reached maximum value of sequence''), db)
         else if \<exists>r \<in> set (outbox db). (o_created_at r, o_event_id r) = (created, eid)
         then (Inl unique_violation, db1)
         else if \<not> distinct (map delivery_key (outbox_delivery db @ owed))
         then (Inl unique_violation, db1)
         else (Inr (length owed),
               db1\<lparr>outbox := outbox db @ [row], outbox_delivery := outbox_delivery db @ owed\<rparr>))"

definition Append :: "txenv \<Rightarrow> tx_value \<Rightarrow> uuid \<Rightarrow> envelope \<Rightarrow> append_option list \<Rightarrow> unit stm" where
  "Append env tx aggregateID e opts =
     (if IsNilTx tx then throw ErrNoTransaction
      else if IsNil aggregateID then throw ErrNoAggregate
      else case Validate e of
        Inl err \<Rightarrow> throw (Wrapf ''outbox'' [err])
      | Inr _ \<Rightarrow>
          (let resolved = fold (\<lambda>opt acc. opt acc) opts \<lparr>a_priority = PriorityStandard, a_only = ''''\<rparr> in
           case (MarshalJSON e, e_Data e) of
             (Inl err, _) \<Rightarrow> throw (Wrapf ''outbox: marshalling envelope'' [err])
           | (Inr envelope, Document payload) \<Rightarrow>
               bind_stm (wrap ''outbox: ordering against subscription changes'' (exec env SubscriptionLock (return ())))
                 (\<lambda>_. bind_stm (wrap ''outbox: appending''
                    (exec env AppendStatement (append_statement env (String (e_ID e)) (e_Type e) (String aggregateID)
                      (a_priority resolved) payload envelope (a_only resolved))))
                 (\<lambda>n. if a_only resolved \<noteq> '''' \<and> n = 0
                      then throw (Wrapf ''outbox: appending'' [ErrNotSubscribed]) else return ()))
           | (Inr _, _) \<Rightarrow> throw (New ''outbox: invalid input syntax for type json'')))"

section \<open>Subscriptions\<close>

definition ErrNoConsumer :: goerror where
  "ErrNoConsumer = New ''outbox: a consumer name is required''"

definition ErrNoEventTypes :: goerror where
  "ErrNoEventTypes = New ''outbox: a subscription names at least one event type''"

definition ErrStillSubscribed :: goerror where
  "ErrStillSubscribed = New ''outbox: the consumer still subscribes''"

definition ErrNoReason :: goerror where
  "ErrNoReason = New ''outbox: an abandonment must say why''"

definition retire_statement :: "txenv \<Rightarrow> string \<Rightarrow> nat stm" where
  "retire_statement env consumer db =
     (let P = (\<lambda>s. s_consumer s = consumer \<and> active s);
          ts = stmt_now env RetireSubscription in
      if \<exists>s \<in> set (subscriptions db). P s \<and> ts < s_subscribed_at s then (Inl check_violation, db)
      else (Inr (affected P (subscriptions db)),
            db\<lparr>subscriptions := update_where P (\<lambda>s. s\<lparr>s_retired_at := Some ts\<rparr>) (subscriptions db)\<rparr>))"

definition insert_subscription :: "txenv \<Rightarrow> string \<Rightarrow> string list \<Rightarrow> nat stm" where
  "insert_subscription env consumer types db =
     (let ts = stmt_now env InsertSubscription in
      if \<exists>s \<in> set (subscriptions db). s_consumer s = consumer \<and> (active s \<or> s_subscribed_at s = ts)
      then (Inl unique_violation, db)
      else (Inr 1, db\<lparr>subscriptions := subscriptions db @
              [\<lparr>s_consumer = consumer, s_event_types = types, s_subscribed_at = ts, s_retired_at = None\<rparr>]\<rparr>))"

text \<open>The loop over the event types: each is validated and kept once, in order.\<close>

fun collect_types :: "event_type list \<Rightarrow> string list \<Rightarrow> string list result" where
  "collect_types [] types = Inr types"
| "collect_types (t # ts) types =
     (case ParseType t of
        Inl err \<Rightarrow> Inl err
      | Inr _ \<Rightarrow> collect_types ts (if t \<in> set types then types else types @ [t]))"

definition Subscribe :: "txenv \<Rightarrow> tx_value \<Rightarrow> string \<Rightarrow> event_type list \<Rightarrow> unit stm" where
  "Subscribe env tx consumer0 eventTypes =
     (let consumer = trim_space consumer0 in
      if IsNilTx tx then throw ErrNoTransaction
      else if consumer = '''' then throw ErrNoConsumer
      else if eventTypes = [] then throw ErrNoEventTypes
      else case collect_types eventTypes [] of
        Inl err \<Rightarrow> throw (Wrapf ''outbox: subscribing'' [err])
      | Inr types \<Rightarrow>
          bind_stm (wrap ''outbox: ordering the subscription against appends''
            (exec env SubscriptionExclusive (return ())))
          (\<lambda>_. bind_stm (wrap ''outbox: retiring the subscription''
            (exec env RetireSubscription (retire_statement env consumer)))
          (\<lambda>_. bind_stm (wrap ''outbox: subscribing''
            (exec env InsertSubscription (insert_subscription env consumer types)))
          (\<lambda>_. return ()))))"

definition Unsubscribe :: "txenv \<Rightarrow> tx_value \<Rightarrow> string \<Rightarrow> unit stm" where
  "Unsubscribe env tx consumer0 =
     (let consumer = trim_space consumer0 in
      if IsNilTx tx then throw ErrNoTransaction
      else if consumer = '''' then throw ErrNoConsumer
      else
        bind_stm (wrap ''outbox: ordering the retirement against appends''
          (exec env SubscriptionExclusive (return ())))
        (\<lambda>_. bind_stm (wrap ''outbox: retiring the subscription''
          (exec env RetireSubscription (retire_statement env consumer)))
        (\<lambda>_. return ())))"

definition abandon_statement :: "string \<Rightarrow> string \<Rightarrow> string \<Rightarrow> nat stm" where
  "abandon_statement consumer class reason db =
     (let P = (\<lambda>d. d_consumer d = consumer \<and> \<not> d_published d) in
      (Inr (affected P (outbox_delivery db)),
       db\<lparr>outbox_delivery := update_where P
            (\<lambda>d. d\<lparr>d_published := True, d_failure_class := Some class, d_last_error := Some reason,
                  d_next_attempt_at := None, d_lease_id := None, d_leased_until := None\<rparr>) (outbox_delivery db)\<rparr>))"

definition Abandon :: "txenv \<Rightarrow> tx_value \<Rightarrow> string \<Rightarrow> string \<Rightarrow> nat stm" where
  "Abandon env tx consumer0 reason0 =
     (let consumer = trim_space consumer0; reason = trim_space reason0 in
      if IsNilTx tx then throw ErrNoTransaction
      else if consumer = '''' then throw ErrNoConsumer
      else if reason = '''' then throw ErrNoReason
      else
        bind_stm (wrap ''outbox: ordering the abandonment against appends''
          (exec env SubscriptionExclusive (return ())))
        (\<lambda>_. bind_stm (wrap ''outbox: reading the subscription''
          (exec env ActiveSubscription
            (\<lambda>db. (Inr (\<exists>s \<in> set (subscriptions db). s_consumer s = consumer \<and> active s), db))))
        (\<lambda>subscribed. if subscribed then throw (Wrapf ''unsubscribe it first'' [ErrStillSubscribed])
          else wrap ''outbox: abandoning the deliveries''
            (exec env AbandonStatement
              (abandon_statement consumer (class_text FailureAbandoned) (redact_string reason))))))"

end
