(* ===== verification/Dispatcher.thy ===== *)
theory Dispatcher
  imports Outbox "HOL-Library.Product_Lexorder"
begin

text \<open>
  \<^verbatim>\<open>src/outbox/dispatcher.go\<close>: claiming a batch of one consumer's deliveries under a lease,
  publishing each outside any transaction, and recording each outcome in a transaction of its own,
  fenced on the lease. What a cycle meets is its argument: an environment per transaction, what other
  workers did to the database before it, the publisher's answer, the clock and the cancellation.
  \<^verbatim>\<open>RETURNING\<close> keeps the table's order and \<^verbatim>\<open>sort.Slice\<close> is a sort by the same key.
\<close>

section \<open>Configuration\<close>

record dconfig =
  Consumer :: string
  Interval :: duration
  IdleInterval :: duration
  BatchSize :: int
  Workers :: int
  PriorityWorkers :: int
  MaxAttempts :: int
  BackoffBase :: duration
  BackoffMax :: duration
  LeaseDuration :: duration

definition or_default :: "duration \<Rightarrow> duration \<Rightarrow> duration" where
  "or_default v d = (if sint v \<le> 0 then d else v)"

definition or_default_int :: "int \<Rightarrow> int \<Rightarrow> int" where
  "or_default_int v d = (if v \<le> 0 then d else v)"

definition applyDefaults :: "dconfig \<Rightarrow> dconfig" where
  "applyDefaults c = c\<lparr>
     Interval := or_default (Interval c) 500000000,
     IdleInterval := or_default (IdleInterval c) 5000000000,
     BatchSize := or_default_int (BatchSize c) 100,
     Workers := or_default_int (Workers c) 4,
     PriorityWorkers := or_default_int (PriorityWorkers c) 2,
     MaxAttempts := or_default_int (MaxAttempts c) 3,
     BackoffBase := or_default (BackoffBase c) 250000000,
     BackoffMax := or_default (BackoffMax c) 30000000000,
     LeaseDuration := or_default (LeaseDuration c) 30000000000\<rparr>"

definition NewDispatcher :: "bool \<Rightarrow> bool \<Rightarrow> dconfig \<Rightarrow> dconfig result" where
  "NewDispatcher pool_nil publisher_nil cfg =
     (if pool_nil then Inl (New ''outbox: a pool is required'')
      else if publisher_nil then Inl (New ''outbox: a publisher is required'')
      else if trim_space (Consumer cfg) = '''' then Inl (New ''outbox: a consumer name is required'')
      else Inr (applyDefaults cfg))"

section \<open>Claiming\<close>

record claimed =
  createdAt :: time
  eventID :: uuid_text
  eventType :: string
  position :: int
  priority :: int
  attempts :: int
  claimed_envelope :: "json option"

definition claimable :: "txenv \<Rightarrow> dconfig \<Rightarrow> bool \<Rightarrow> delivery \<Rightarrow> bool" where
  "claimable env cfg priorityOnly d \<longleftrightarrow>
     d_consumer d = Consumer cfg \<and> \<not> d_published d
     \<and> (case d_next_attempt_at d of None \<Rightarrow> True | Some t \<Rightarrow> t \<le> tx_now env)
     \<and> (case d_leased_until d of None \<Rightarrow> True | Some t \<Rightarrow> t \<le> tx_now env)
     \<and> (\<not> priorityOnly \<or> d_priority d = PriorityHigh)
     \<and> \<not> row_locked env (delivery_key d)"

definition claim_batch :: "txenv \<Rightarrow> dconfig \<Rightarrow> bool \<Rightarrow> database \<Rightarrow> delivery list" where
  "claim_batch env cfg priorityOnly db =
     take (nat (BatchSize cfg))
       (sort_key (\<lambda>d. (d_priority d, d_sequence d)) (filter (claimable env cfg priorityOnly) (outbox_delivery db)))"

definition stored_envelope :: "database \<Rightarrow> delivery \<Rightarrow> json option" where
  "stored_envelope db d =
     map_option o_envelope (find (\<lambda>r. o_created_at r = d_created_at d \<and> o_event_id r = d_event_id d) (outbox db))"

definition to_claimed :: "database \<Rightarrow> delivery \<Rightarrow> claimed" where
  "to_claimed db d = \<lparr>createdAt = d_created_at d, eventID = d_event_id d, eventType = d_event_type d,
     position = d_sequence d, priority = d_priority d, attempts = d_attempts d, claimed_envelope = stored_envelope db d\<rparr>"

definition claim_statement :: "txenv \<Rightarrow> dconfig \<Rightarrow> bool \<Rightarrow> uuid_text \<Rightarrow> claimed list stm" where
  "claim_statement env cfg priorityOnly lease db =
     (let keys = map delivery_key (claim_batch env cfg priorityOnly db);
          P = (\<lambda>d. delivery_key d \<in> set keys);
          until = tx_now env + make_interval (Seconds (LeaseDuration cfg)) in
      (Inr (map (to_claimed db) (filter P (outbox_delivery db))),
       db\<lparr>outbox_delivery := update_where P (\<lambda>d. d\<lparr>d_lease_id := Some lease, d_leased_until := Some until\<rparr>)
            (outbox_delivery db)\<rparr>))"

definition claim :: "txenv \<Rightarrow> dconfig \<Rightarrow> bool \<Rightarrow> uuid_text \<Rightarrow> claimed list stm" where
  "claim env cfg priorityOnly lease =
     bind_stm (wrap ''outbox: claiming a batch'' (exec env ClaimStatement (claim_statement env cfg priorityOnly lease)))
       (\<lambda>batch. return (sort_key (\<lambda>c. (priority c, position c)) batch))"

section \<open>Recording an outcome\<close>

definition errLeaseLost :: goerror where
  "errLeaseLost = New ''outbox: the lease on this row was taken over''"

definition errStopped :: goerror where
  "errStopped = New ''outbox: publication stopped by shutdown''"

text \<open>The row a fenced statement addresses: still this worker's, and not yet closed.\<close>

definition held :: "dconfig \<Rightarrow> claimed \<Rightarrow> uuid_text \<Rightarrow> delivery \<Rightarrow> bool" where
  "held cfg row lease d \<longleftrightarrow> delivery_key d = (createdAt row, eventID row, Consumer cfg)
     \<and> d_lease_id d = Some lease \<and> \<not> d_published d"

definition update_deliveries :: "(delivery \<Rightarrow> bool) \<Rightarrow> (delivery \<Rightarrow> delivery) \<Rightarrow> nat stm" where
  "update_deliveries P f db =
     (Inr (affected P (outbox_delivery db)), db\<lparr>outbox_delivery := update_where P f (outbox_delivery db)\<rparr>)"

definition fenced :: "txenv \<Rightarrow> string \<Rightarrow> stmt \<Rightarrow> nat stm \<Rightarrow> unit stm" where
  "fenced env what s run =
     bind_stm (wrap what (exec env s run)) (\<lambda>n. if n = 0 then throw errLeaseLost else return ())"

definition close_published :: "txenv \<Rightarrow> delivery \<Rightarrow> delivery" where
  "close_published env d = d\<lparr>d_published := True, d_published_at := Some (tx_now env), d_last_error := None,
     d_failure_class := None, d_next_attempt_at := None, d_lease_id := None, d_leased_until := None\<rparr>"

definition record_receipt :: "txenv \<Rightarrow> uuid_text \<Rightarrow> string \<Rightarrow> string \<Rightarrow> evidence \<Rightarrow> unit stm" where
  "record_receipt env eid consumer typ ev db =
     (if ev \<notin> {EvidenceConsumerApplied, EvidenceTransportAccepted} then (Inl check_violation, db)
      else if \<exists>c \<in> set (delivery_receipts db). (c_event_id c, c_consumer c) = (eid, consumer) then (Inr (), db)
      else (Inr (), db\<lparr>delivery_receipts := delivery_receipts db @
             [\<lparr>c_event_id = eid, c_consumer = consumer, c_event_type = typ, c_evidence = ev,
               c_recorded_at = stmt_now env (RecordReceipt eid)\<rparr>]\<rparr>))"

definition mark_published_body :: "txenv \<Rightarrow> dconfig \<Rightarrow> claimed \<Rightarrow> uuid_text \<Rightarrow> receipt \<Rightarrow> unit stm" where
  "mark_published_body env cfg row lease r =
     bind_stm (fenced env ''outbox: marking published'' (MarkPublished (eventID row))
                (update_deliveries (held cfg row lease) (close_published env)))
       (\<lambda>_. wrap ''outbox: recording the receipt'' (exec env (RecordReceipt (eventID row))
             (record_receipt env (eventID row) (Consumer cfg) (eventType row) (Evidence r))))"

definition markPublished :: "txenv \<Rightarrow> dconfig \<Rightarrow> claimed \<Rightarrow> uuid_text \<Rightarrow> receipt \<Rightarrow> unit stm" where
  "markPublished env cfg row lease r = in_tx env (mark_published_body env cfg row lease r)"

definition coalesce :: "'a option \<Rightarrow> 'a \<Rightarrow> 'a" where
  "coalesce x y = (case x of Some v \<Rightarrow> v | None \<Rightarrow> y)"

definition record_failure :: "txenv \<Rightarrow> int \<Rightarrow> string \<Rightarrow> string \<Rightarrow> duration \<Rightarrow> delivery \<Rightarrow> delivery" where
  "record_failure env n detail class delay d = d\<lparr>d_attempts := n, d_last_error := Some detail,
     d_failure_class := Some class, d_first_failed_at := Some (coalesce (d_first_failed_at d) (tx_now env)),
     d_next_attempt_at := Some (tx_now env + make_interval (Seconds delay)), d_lease_id := None, d_leased_until := None\<rparr>"

definition stop_redelivery :: "txenv \<Rightarrow> int \<Rightarrow> string \<Rightarrow> string \<Rightarrow> delivery \<Rightarrow> delivery" where
  "stop_redelivery env n detail class d = d\<lparr>d_published := True, d_attempts := n, d_last_error := Some detail,
     d_failure_class := Some class, d_next_attempt_at := None,
     d_first_failed_at := Some (coalesce (d_first_failed_at d) (tx_now env)), d_lease_id := None, d_leased_until := None\<rparr>"

text \<open>\<^verbatim>\<open>deadLetterStatement\<close>: from the event's row joined with this consumer's delivery, unless
  there already is an incident of the delivery.\<close>

definition dead_letter_statement ::
  "txenv \<Rightarrow> time \<Rightarrow> uuid_text \<Rightarrow> string \<Rightarrow> string \<Rightarrow> int \<Rightarrow> string \<Rightarrow> unit stm" where
  "dead_letter_statement env created eid class detail n consumer db =
     (case (find (\<lambda>r. o_created_at r = created \<and> o_event_id r = eid) (outbox db),
            find (\<lambda>d. delivery_key d = (created, eid, consumer)) (outbox_delivery db)) of
        (Some r, Some d) \<Rightarrow>
          if \<exists>l \<in> set (dead_letters db). (l_event_id l, l_consumer l) = (eid, Some consumer) then (Inr (), db)
          else (Inr (), db\<lparr>dead_letters := dead_letters db @
            [\<lparr>l_event_id = eid, l_event_type = o_event_type r, l_envelope = Some (o_envelope r),
              l_payload = Some (o_payload r), l_aggregate_id = Some (o_aggregate_id r), l_priority = Some (o_priority r),
              l_failure_class = class, l_failure_detail = detail, l_attempts = n,
              l_first_failed_at = coalesce (d_first_failed_at d) (tx_now env), l_consumer = Some consumer,
              l_dead_lettered_at = stmt_now env (DeadLetterStatement eid), l_resolved_at = None,
              l_resolution_reference = None, l_waived_at = None, l_waived_until = None\<rparr>]\<rparr>)
      | _ \<Rightarrow> (Inr (), db))"

definition dead_letter_body :: "txenv \<Rightarrow> dconfig \<Rightarrow> claimed \<Rightarrow> uuid_text \<Rightarrow> failure_class \<Rightarrow> string \<Rightarrow> unit stm" where
  "dead_letter_body env cfg row lease class detail =
     bind_stm (fenced env ''outbox: closing for dead-letter'' (StopRedelivery (eventID row))
                (update_deliveries (held cfg row lease)
                  (stop_redelivery env (attempts row + 1) detail (class_text class))))
       (\<lambda>_. wrap ''outbox: dead-lettering'' (exec env (DeadLetterStatement (eventID row))
             (dead_letter_statement env (createdAt row) (eventID row) (class_text class) detail (attempts row + 1)
               (Consumer cfg))))"

definition retry_body ::
  "txenv \<Rightarrow> dconfig \<Rightarrow> claimed \<Rightarrow> uuid_text \<Rightarrow> failure_class \<Rightarrow> string \<Rightarrow> rat \<Rightarrow> unit stm" where
  "retry_body env cfg row lease class detail jitter =
     (let delay = backoffFor (BackoffBase cfg) (attempts row + 1) (BackoffMax cfg) jitter in
      fenced env ''outbox: recording failure'' (RecordFailure (eventID row))
        (update_deliveries (held cfg row lease)
          (record_failure env (attempts row + 1) detail (class_text class) delay)))"

definition fail_row ::
  "txenv \<Rightarrow> dconfig \<Rightarrow> claimed \<Rightarrow> uuid_text \<Rightarrow> failure_class \<Rightarrow> string \<Rightarrow> rat \<Rightarrow> unit stm" where
  "fail_row env cfg row lease class detail jitter =
     (case decide class (priority row) (attempts row + 1) (MaxAttempts cfg) of
        DispositionDeadLetter \<Rightarrow> in_tx env (dead_letter_body env cfg row lease class detail)
      | DispositionRetry \<Rightarrow> in_tx env (retry_body env cfg row lease class detail jitter)
      | DispositionRelease \<Rightarrow> in_tx env (retry_body env cfg row lease class detail jitter))"

section \<open>One row\<close>

text \<open>What settling one row meets.\<close>

record rowenv =
  r_time :: time
  r_others :: "database \<Rightarrow> database"
  r_env :: txenv
  r_publish :: "envelope \<Rightarrow> receipt result"
  r_error_text :: "goerror \<Rightarrow> string"
  r_stopped :: bool
  r_cancelled :: bool
  r_jitter :: rat

text \<open>
  What is to be published: the stored envelope with the row's position, or why it cannot be. The
  text of a decoding or validation error is \<open>r_error_text\<close>.
\<close>

definition publishable :: "(goerror \<Rightarrow> string) \<Rightarrow> claimed \<Rightarrow> string + envelope" where
  "publishable err_text row =
     (case claimed_envelope row of
        None \<Rightarrow> Inl (''stored envelope is undecodable: '' @ err_text (New ''unexpected end of JSON input''))
      | Some j \<Rightarrow>
          (case UnmarshalJSON zero_envelope j of
             (_, Inl e) \<Rightarrow> Inl (''stored envelope is undecodable: '' @ err_text e)
           | (env, Inr _) \<Rightarrow>
               if e_StreamPosition env \<noteq> 0 \<and> e_StreamPosition env \<noteq> position row
               then Inl (''stored streamposition '' @ show_int (e_StreamPosition env) @
                         '' disagrees with outbox sequence '' @ show_int (position row))
               else let env' = WithStreamPosition env (position row) in
                    (case ValidatePublished env' of
                       Inl e \<Rightarrow> Inl (''stored envelope is not publishable: '' @ err_text e)
                     | Inr _ \<Rightarrow> Inr env')))"

definition settle :: "rowenv \<Rightarrow> dconfig \<Rightarrow> claimed \<Rightarrow> uuid_text \<Rightarrow> unit stm" where
  "settle re cfg row lease =
     (case publishable (r_error_text re) row of
        Inl detail \<Rightarrow> fail_row (r_env re) cfg row lease FailurePoison detail (r_jitter re)
      | Inr env \<Rightarrow>
          (case r_publish re env of
             Inl err \<Rightarrow>
               if r_stopped re then throw errStopped
               else fail_row (r_env re) cfg row lease (classify err) (redact_string (r_error_text re err)) (r_jitter re)
           | Inr rcpt \<Rightarrow> markPublished (r_env re) cfg row lease rcpt))"

fun release_body :: "txenv \<Rightarrow> dconfig \<Rightarrow> claimed list \<Rightarrow> uuid_text \<Rightarrow> unit stm" where
  "release_body env cfg [] lease = return ()"
| "release_body env cfg (row # rows) lease =
     bind_stm (exec env (ReleaseStatement (eventID row))
                (update_deliveries (held cfg row lease) (\<lambda>d. d\<lparr>d_lease_id := None, d_leased_until := None\<rparr>)))
       (\<lambda>_. release_body env cfg rows lease)"

definition release :: "txenv \<Rightarrow> dconfig \<Rightarrow> claimed list \<Rightarrow> uuid_text \<Rightarrow> database \<Rightarrow> database" where
  "release env cfg rows lease db = (if rows = [] then db else snd (in_tx env (release_body env cfg rows lease) db))"

section \<open>One cycle\<close>

text \<open>The loop over the batch from its row \<open>i\<close> on; \<open>rel\<close> is the environment of a release.\<close>

fun settle_batch ::
  "(nat \<Rightarrow> rowenv) \<Rightarrow> txenv \<Rightarrow> dconfig \<Rightarrow> uuid_text \<Rightarrow> time \<Rightarrow> nat \<Rightarrow> claimed list \<Rightarrow> database
     \<Rightarrow> goerror option \<times> database" where
  "settle_batch re rel cfg lease deadline i [] db = (None, db)"
| "settle_batch re rel cfg lease deadline i (row # rows) db =
     (if r_time (re i) > deadline then (None, db)
      else case settle (re i) cfg row lease (r_others (re i) db) of
        (Inr _, db') \<Rightarrow> settle_batch re rel cfg lease deadline (Suc i) rows db'
      | (Inl err, db') \<Rightarrow>
          if is_error err errLeaseLost then settle_batch re rel cfg lease deadline (Suc i) rows db'
          else if is_error err errStopped \<or> r_cancelled (re i) then (None, release rel cfg (row # rows) lease db')
          else (Some err, release rel cfg rows lease db'))"

record cycle =
  y_lease :: "uuid result"
  y_env :: txenv
  y_claimed_at :: time
  y_rows :: "nat \<Rightarrow> rowenv"
  y_release :: txenv

definition dispatchOnce :: "cycle \<Rightarrow> dconfig \<Rightarrow> bool \<Rightarrow> database \<Rightarrow> (nat \<times> goerror option) \<times> database" where
  "dispatchOnce y cfg priorityOnly db =
     (case y_lease y of
        Inl e \<Rightarrow> ((0, Some (Wrapf ''outbox: minting a lease'' [e])), db)
      | Inr leaseID \<Rightarrow>
          (let lease = String leaseID in
           case in_tx (y_env y) (claim (y_env y) cfg priorityOnly lease) db of
             (Inl e, db') \<Rightarrow> ((0, Some e), db')
           | (Inr batch, db') \<Rightarrow>
               (let deadline = y_claimed_at y + sint (LeaseDuration cfg);
                    (err, db'') = settle_batch (y_rows y) (y_release y) cfg lease deadline 0 batch db'
                in ((length batch, err), db''))))"

section \<open>Workers\<close>

text \<open>One pass of a worker's loop: whether it was cancelled before, what the cycle returned, and how its wait ended.\<close>

record pass =
  z_cancelled :: bool
  z_claimed :: nat
  z_error :: "goerror option"
  z_cancelled_at_wait :: bool
  z_timer_first :: bool

definition next_empty :: "int \<Rightarrow> pass \<Rightarrow> int" where
  "next_empty idle z = (if z_error z \<noteq> None then idle + 1 else if z_claimed z = 0 then idle + 1 else 0)"

definition poll_delay :: "dconfig \<Rightarrow> int \<Rightarrow> duration" where
  "poll_delay cfg idle =
     (if idle > 0 then emptyPollDelay (Interval cfg) idle (IdleInterval cfg) else Interval cfg)"

text \<open>\<^verbatim>\<open>work\<close>: the delays it waits, and whether it returned within the passes given.\<close>

fun work :: "dconfig \<Rightarrow> int \<Rightarrow> pass list \<Rightarrow> duration list \<times> bool" where
  "work cfg idle [] = ([], False)"
| "work cfg idle (z # zs) =
     (if z_cancelled z then ([], True)
      else let idle' = next_empty idle z; delay = poll_delay cfg idle' in
           if \<not> wait (z_cancelled_at_wait z) (z_timer_first z) delay then ([delay], True)
           else let (ds, fin) = work cfg idle' zs in (delay # ds, fin))"

text \<open>\<^verbatim>\<open>Run\<close>: the workers it starts (\<open>True\<close> for a priority worker) and what it returns once they have stopped.\<close>

definition Run :: "dconfig \<Rightarrow> goerror option \<Rightarrow> unit result \<Rightarrow> goerror \<Rightarrow> bool list \<times> goerror" where
  "Run cfg cancelled prerequisites ctx_err =
     (case cancelled of
        Some e \<Rightarrow> ([], e)
      | None \<Rightarrow>
          (case prerequisites of
             Inl e \<Rightarrow> ([], e)
           | Inr _ \<Rightarrow> (replicate (nat (Workers cfg)) False @ replicate (nat (PriorityWorkers cfg)) True, ctx_err)))"

end
