(* ===== verification/Delivery.thy ===== *)
theory Delivery
  imports Dispatcher
begin

text \<open>
  What producers, subscription changes and any number of dispatchers do to the database together:
  the relation of one committed transaction to the next state, the invariant every one of them keeps, and
  what follows for the deliveries. The order of the transactions is arbitrary, so the steps of
  different workers interleave in every way their transactions can.
\<close>

section \<open>Committed transactions\<close>

inductive committed :: "database \<Rightarrow> database \<Rightarrow> bool" where
  c_append: "Append env tx agg e opts db = (Inr (), db') \<Longrightarrow> committed db db'"
| c_subscribe: "Subscribe env tx consumer types db = (Inr (), db') \<Longrightarrow> committed db db'"
| c_unsubscribe: "Unsubscribe env tx consumer db = (Inr (), db') \<Longrightarrow> committed db db'"
| c_abandon: "Abandon env tx consumer reason db = (Inr n, db') \<Longrightarrow> committed db db'"
| c_claim: "claim env cfg priorityOnly lease db = (Inr batch, db') \<Longrightarrow> committed db db'"
| c_publish: "mark_published_body env cfg row lease r db = (Inr (), db') \<Longrightarrow> committed db db'"
| c_dead_letter: "dead_letter_body env cfg row lease FailurePoison detail db = (Inr (), db') \<Longrightarrow> committed db db'"
| c_retry: "class = FailureUnavailable \<Longrightarrow> retry_body env cfg row lease class detail jitter db = (Inr (), db') \<Longrightarrow> committed db db'"
| c_release: "release_body env cfg rows lease db = (Inr (), db') \<Longrightarrow> committed db db'"
| c_gap: "outbox_sequence db \<le> n \<Longrightarrow> committed db (discard db (db\<lparr>outbox_sequence := n\<rparr>))"

definition empty_database :: database where
  "empty_database = \<lparr>outbox = [], outbox_delivery = [], subscriptions = [], dead_letters = [], delivery_receipts = [],
     processed_events = [], idempotency_keys = [], outbox_sequence = 0\<rparr>"

definition reachable :: "database \<Rightarrow> bool" where
  "reachable db \<longleftrightarrow> committed\<^sup>*\<^sup>* empty_database db"

section \<open>The invariant\<close>

definition receipt_key :: "receipt_row \<Rightarrow> uuid_text \<times> string" where
  "receipt_key c = (c_event_id c, c_consumer c)"

definition letter_key :: "dead_letter \<Rightarrow> uuid_text \<times> string option" where
  "letter_key l = (l_event_id l, l_consumer l)"

text \<open>A delivery describes its event.\<close>

definition event_of :: "database \<Rightarrow> delivery \<Rightarrow> bool" where
  "event_of db d \<longleftrightarrow> (\<exists>r \<in> set (outbox db). o_created_at r = d_created_at d \<and> o_event_id r = d_event_id d
     \<and> o_sequence r = d_sequence d \<and> o_event_type r = d_event_type d \<and> o_priority r = d_priority d)"

text \<open>The check constraint on the lease, and that a closed delivery is neither leased nor scheduled.\<close>

definition lease_ok :: "delivery \<Rightarrow> bool" where
  "lease_ok d \<longleftrightarrow> (d_lease_id d = None \<longleftrightarrow> d_leased_until d = None)
     \<and> (d_published d \<longrightarrow> d_lease_id d = None \<and> d_next_attempt_at d = None)"

definition delivered :: "delivery \<Rightarrow> bool" where
  "delivered d \<longleftrightarrow> d_published d \<and> d_published_at d \<noteq> None"

definition dead_lettered :: "delivery \<Rightarrow> bool" where
  "dead_lettered d \<longleftrightarrow> d_published d \<and> d_published_at d = None \<and> d_failure_class d = Some ''poison''"

definition abandoned :: "delivery \<Rightarrow> bool" where
  "abandoned d \<longleftrightarrow> d_published d \<and> d_published_at d = None \<and> d_failure_class d = Some ''abandoned''"

definition owed :: "delivery \<Rightarrow> bool" where
  "owed d \<longleftrightarrow> \<not> d_published d \<and> d_published_at d = None"

definition has_receipt :: "database \<Rightarrow> delivery \<Rightarrow> bool" where
  "has_receipt db d \<longleftrightarrow> (d_event_id d, d_consumer d) \<in> receipt_key ` set (delivery_receipts db)"

definition has_incident :: "database \<Rightarrow> delivery \<Rightarrow> bool" where
  "has_incident db d \<longleftrightarrow> (d_event_id d, Some (d_consumer d)) \<in> letter_key ` set (dead_letters db)"

definition accounted :: "database \<Rightarrow> delivery \<Rightarrow> bool" where
  "accounted db d \<longleftrightarrow> owed d \<or> delivered d \<and> has_receipt db d \<or> dead_lettered d \<and> has_incident db d \<or> abandoned d"

text \<open>A receipt rests on a delivery, an incident on a poisoned one.\<close>

definition receipt_justified :: "database \<Rightarrow> receipt_row \<Rightarrow> bool" where
  "receipt_justified db c \<longleftrightarrow>
     (\<exists>d \<in> set (outbox_delivery db). receipt_key c = (d_event_id d, d_consumer d) \<and> delivered d)"

definition letter_justified :: "database \<Rightarrow> dead_letter \<Rightarrow> bool" where
  "letter_justified db l \<longleftrightarrow> l_failure_class l = ''poison'' \<and>
     (\<exists>d \<in> set (outbox_delivery db). letter_key l = (d_event_id d, Some (d_consumer d)) \<and> dead_lettered d)"

definition consistent :: "database \<Rightarrow> bool" where
  "consistent db \<longleftrightarrow>
     distinct (map delivery_key (outbox_delivery db))
     \<and> distinct (map receipt_key (delivery_receipts db)) \<and> distinct (map letter_key (dead_letters db))
     \<and> (\<forall>d \<in> set (outbox_delivery db). event_of db d \<and> lease_ok d \<and> accounted db d)
     \<and> (\<forall>c \<in> set (delivery_receipts db). receipt_justified db c)
     \<and> (\<forall>l \<in> set (dead_letters db). letter_justified db l)"

text \<open>Two rows that are the same delivery.\<close>

definition same_delivery :: "delivery \<Rightarrow> delivery \<Rightarrow> bool" where
  "same_delivery d d' \<longleftrightarrow> delivery_key d = delivery_key d' \<and> d_sequence d = d_sequence d'
     \<and> d_event_type d = d_event_type d' \<and> d_priority d = d_priority d'"

lemma same_event_of: "same_delivery d d' \<Longrightarrow> outbox db' = outbox db \<Longrightarrow> event_of db' d = event_of db d'"
  by (simp add: same_delivery_def event_of_def delivery_key_def)

lemma accounted_mono:
  "accounted db d \<Longrightarrow> set (delivery_receipts db) \<subseteq> set (delivery_receipts db') \<Longrightarrow>
     set (dead_letters db) \<subseteq> set (dead_letters db') \<Longrightarrow> accounted db' d"
  by (auto simp: accounted_def has_receipt_def has_incident_def)

lemma kept_row: "d \<in> set rows \<Longrightarrow> \<not> P d \<Longrightarrow> d \<in> set (update_where P f rows)"
  by (auto simp: set_update_where)

text \<open>
  Every write of the dispatcher and of \<^verbatim>\<open>Abandon\<close> has this shape: it updates deliveries that are
  not closed, keeps what they are deliveries of, and may add receipts and incidents.
\<close>

lemma consistent_update:
  assumes "consistent db"
    and rows: "outbox_delivery db' = update_where P f (outbox_delivery db)" "outbox db' = outbox db"
    and open_rows: "\<And>d. d \<in> set (outbox_delivery db) \<Longrightarrow> P d \<Longrightarrow> \<not> d_published d"
    and same: "\<And>d. same_delivery (f d) d"
    and new: "\<And>d. d \<in> set (outbox_delivery db) \<Longrightarrow> P d \<Longrightarrow> lease_ok (f d) \<and> accounted db' (f d)"
    and receipts: "set (delivery_receipts db) \<subseteq> set (delivery_receipts db')" "distinct (map receipt_key (delivery_receipts db'))"
      "\<And>c. c \<in> set (delivery_receipts db') \<Longrightarrow> c \<notin> set (delivery_receipts db) \<Longrightarrow> receipt_justified db' c"
    and letters: "set (dead_letters db) \<subseteq> set (dead_letters db')" "distinct (map letter_key (dead_letters db'))"
      "\<And>l. l \<in> set (dead_letters db') \<Longrightarrow> l \<notin> set (dead_letters db) \<Longrightarrow> letter_justified db' l"
  shows "consistent db'"
proof -
  have keep: "d \<in> set (outbox_delivery db')" if "d \<in> set (outbox_delivery db)" "d_published d" for d
    using that open_rows by (auto simp: rows(1) intro: kept_row)
  have keys: "map delivery_key (outbox_delivery db') = map delivery_key (outbox_delivery db)"
    unfolding rows(1) by (rule map_update_where) (use same in \<open>simp add: same_delivery_def\<close>)
  have "event_of db' d \<and> lease_ok d \<and> accounted db' d" if "d \<in> set (outbox_delivery db')" for d
  proof -
    from that consider "d \<in> set (outbox_delivery db)" | d0 where "d = f d0" "d0 \<in> set (outbox_delivery db)" "P d0"
      by (auto simp: rows(1) set_update_where)
    then show ?thesis
    proof cases
      case 1
      then have "event_of db d" "lease_ok d" "accounted db d" using assms(1) by (auto simp: consistent_def)
      then show ?thesis using accounted_mono[OF _ receipts(1) letters(1)] rows(2) by (simp add: event_of_def)
    next
      case (2 d0)
      then have "event_of db d0" using assms(1) by (simp add: consistent_def)
      then show ?thesis using 2 new same same_event_of[OF same rows(2)] by simp
    qed
  qed
  moreover have "receipt_justified db' c" if "c \<in> set (delivery_receipts db')" for c
  proof (cases "c \<in> set (delivery_receipts db)")
    case True
    then have "receipt_justified db c" using assms(1) by (simp add: consistent_def)
    then show ?thesis using keep by (auto simp: receipt_justified_def delivered_def)
  qed (use that receipts(3) in blast)
  moreover have "letter_justified db' l" if "l \<in> set (dead_letters db')" for l
  proof (cases "l \<in> set (dead_letters db)")
    case True
    then have "letter_justified db l" using assms(1) by (simp add: consistent_def)
    then show ?thesis using keep by (auto simp: letter_justified_def dead_lettered_def)
  qed (use that letters(3) in blast)
  ultimately show ?thesis using assms(1) receipts(2) letters(2) keys by (simp add: consistent_def)
qed

text \<open>The frequent case: receipts and incidents stay as they are.\<close>

lemma consistent_rows:
  assumes "consistent db" "outbox_delivery db' = update_where P f (outbox_delivery db)" "outbox db' = outbox db"
    "delivery_receipts db' = delivery_receipts db" "dead_letters db' = dead_letters db"
    "\<And>d. d \<in> set (outbox_delivery db) \<Longrightarrow> P d \<Longrightarrow> \<not> d_published d"
    "\<And>d. same_delivery (f d) d"
    "\<And>d. d \<in> set (outbox_delivery db) \<Longrightarrow> P d \<Longrightarrow> lease_ok (f d) \<and> accounted db' (f d)"
  shows "consistent db'"
proof (rule consistent_update[OF assms(1,2,3,6-8)])
  show "distinct (map receipt_key (delivery_receipts db'))" "distinct (map letter_key (dead_letters db'))"
    using assms(1,4,5) by (simp_all add: consistent_def)
qed (use assms in auto)

section \<open>Every transaction keeps it\<close>

lemma fenced_Inr:
  "fenced env what s (update_deliveries P f) db = (Inr (), db') \<longleftrightarrow>
     fault env s = None \<and> 0 < affected P (outbox_delivery db)
     \<and> db' = db\<lparr>outbox_delivery := update_where P f (outbox_delivery db)\<rparr>"
  by (auto simp: fenced_def stm_Inr update_deliveries_def split: if_splits)

lemma batch_claimable: "d \<in> set (claim_batch env cfg p db) \<Longrightarrow> d \<in> set (outbox_delivery db) \<and> claimable env cfg p d"
  by (auto simp: claim_batch_def dest: in_set_takeD)

lemma key_in_batch:
  assumes "distinct (map delivery_key (outbox_delivery db))" "d \<in> set (outbox_delivery db)"
    "delivery_key d \<in> delivery_key ` set (claim_batch env cfg p db)"
  shows "d \<in> set (claim_batch env cfg p db)"
proof -
  obtain d0 where d0: "d0 \<in> set (claim_batch env cfg p db)" "delivery_key d0 = delivery_key d" using assms(3) by auto
  then have "d0 \<in> set (outbox_delivery db)" using batch_claimable by blast
  then have "d0 = d" using assms(1,2) d0(2) by (auto simp: distinct_map dest: inj_onD)
  with d0(1) show ?thesis by simp
qed

lemma claim_Inr:
  "claim env cfg p lease db = (Inr batch, db') \<longleftrightarrow>
     fault env ClaimStatement = None
     \<and> batch = sort_key (\<lambda>c. (priority c, position c))
          (map (to_claimed db) (filter (\<lambda>d. delivery_key d \<in> delivery_key ` set (claim_batch env cfg p db)) (outbox_delivery db)))
     \<and> db' = db\<lparr>outbox_delivery := update_where (\<lambda>d. delivery_key d \<in> delivery_key ` set (claim_batch env cfg p db))
          (\<lambda>d. d\<lparr>d_lease_id := Some lease, d_leased_until := Some (tx_now env + make_interval (Seconds (LeaseDuration cfg)))\<rparr>)
          (outbox_delivery db)\<rparr>"
  by (auto simp: claim_def stm_Inr claim_statement_def Let_def)

lemma same_delivery_simps [simp]:
  "same_delivery (d\<lparr>d_lease_id := a, d_leased_until := b\<rparr>) d"
  "same_delivery (close_published env d) d"
  "same_delivery (record_failure env n detail class delay d) d"
  "same_delivery (stop_redelivery env n detail class d) d"
  by (simp_all add: same_delivery_def delivery_key_def close_published_def record_failure_def stop_redelivery_def)

lemma record_failure_fields [simp]:
  "d_published (record_failure env n detail class delay d) = d_published d"
  "d_published_at (record_failure env n detail class delay d) = d_published_at d"
  "lease_ok (record_failure env n detail class delay d) = (\<not> d_published d)"
  by (simp_all add: record_failure_def lease_ok_def)

lemma close_published_fields [simp]:
  "d_published (close_published env d)" "d_published_at (close_published env d) = Some (tx_now env)"
  "lease_ok (close_published env d)" "d_event_id (close_published env d) = d_event_id d"
  "d_consumer (close_published env d) = d_consumer d" "delivered (close_published env d)"
  by (simp_all add: close_published_def lease_ok_def delivered_def)

lemma stop_redelivery_fields [simp]:
  "d_published (stop_redelivery env n detail class d)"
  "d_published_at (stop_redelivery env n detail class d) = d_published_at d"
  "d_failure_class (stop_redelivery env n detail class d) = Some class"
  "lease_ok (stop_redelivery env n detail class d)" "d_event_id (stop_redelivery env n detail class d) = d_event_id d"
  "d_consumer (stop_redelivery env n detail class d) = d_consumer d"
  "delivery_key (stop_redelivery env n detail class d) = delivery_key d"
  by (simp_all add: stop_redelivery_def lease_ok_def delivery_key_def)

lemma accounted_open: "accounted db d \<Longrightarrow> \<not> d_published d \<Longrightarrow> d_published_at d = None"
  by (auto simp: accounted_def owed_def delivered_def dead_lettered_def abandoned_def)

lemma accounted_owed: "\<not> d_published d \<Longrightarrow> d_published_at d = None \<Longrightarrow> accounted db d"
  by (simp add: accounted_def owed_def)

lemma consistent_row: "consistent db \<Longrightarrow> d \<in> set (outbox_delivery db) \<Longrightarrow> event_of db d \<and> lease_ok d \<and> accounted db d"
  by (simp add: consistent_def)

lemma claim_keeps [keeps]:
  assumes "consistent db" "claim env cfg p lease db = (Inr batch, db')" shows "consistent db'"
proof -
  let ?P = "\<lambda>d. delivery_key d \<in> delivery_key ` set (claim_batch env cfg p db)"
  have key: "distinct (map delivery_key (outbox_delivery db))" using assms(1) by (simp add: consistent_def)
  have open_rows: "\<not> d_published d" if "d \<in> set (outbox_delivery db)" "?P d" for d
    using batch_claimable[OF key_in_batch[OF key that]] by (simp add: claimable_def)
  show ?thesis
    by (rule consistent_rows[OF assms(1), where P = ?P and f = "\<lambda>d. d\<lparr>d_lease_id := Some lease, d_leased_until := Some (tx_now env + make_interval (Seconds (LeaseDuration cfg)))\<rparr>"])
      (use assms open_rows in \<open>auto simp: claim_Inr lease_ok_def intro!: accounted_owed dest!: consistent_row dest: accounted_open\<close>)
qed

lemma release_keeps [keeps]:
  "consistent db \<Longrightarrow> release_body env cfg rows lease db = (Inr (), db') \<Longrightarrow> consistent db'"
proof (induction env cfg rows lease arbitrary: db rule: release_body.induct)
  case (2 env cfg row rows lease)
  then obtain db1 where db1: "db1 = db\<lparr>outbox_delivery := update_where (held cfg row lease)
        (\<lambda>d. d\<lparr>d_lease_id := None, d_leased_until := None\<rparr>) (outbox_delivery db)\<rparr>"
      "release_body env cfg rows lease db1 = (Inr (), db')"
    by (auto simp: stm_Inr update_deliveries_def)
  have "consistent db1"
    by (rule consistent_rows[OF "2.prems"(1), where P = "held cfg row lease" and f = "\<lambda>d. d\<lparr>d_lease_id := None, d_leased_until := None\<rparr>"])
      (use "2.prems"(1) in \<open>auto simp: db1 held_def lease_ok_def intro!: accounted_owed dest!: consistent_row dest: accounted_open\<close>)
  then show ?case using "2.IH" db1(2) by simp
qed simp

lemma retry_keeps [keeps]:
  assumes "consistent db" "retry_body env cfg row lease class detail jitter db = (Inr (), db')" shows "consistent db'"
proof -
  let ?f = "record_failure env (attempts row + 1) detail (class_text class)
    (backoffFor (BackoffBase cfg) (attempts row + 1) (BackoffMax cfg) jitter)"
  show ?thesis
    by (rule consistent_rows[OF assms(1), where P = "held cfg row lease" and f = ?f])
      (use assms in \<open>auto simp: retry_body_def Let_def fenced_Inr held_def
        intro!: accounted_owed dest!: consistent_row dest: accounted_open\<close>)
qed

lemma publish_Inr:
  "mark_published_body env cfg row lease r db = (Inr (), db') \<longleftrightarrow>
     fault env (MarkPublished (eventID row)) = None \<and> fault env (RecordReceipt (eventID row)) = None
     \<and> 0 < affected (held cfg row lease) (outbox_delivery db)
     \<and> record_receipt env (eventID row) (Consumer cfg) (eventType row) (Evidence r)
          (db\<lparr>outbox_delivery := update_where (held cfg row lease) (close_published env) (outbox_delivery db)\<rparr>) = (Inr (), db')"
  by (auto simp: mark_published_body_def stm_Inr fenced_Inr)

lemma evidence_two: "Evidence r = EvidenceConsumerApplied \<or> Evidence r = EvidenceTransportAccepted"
  by (simp add: Evidence_def)

lemma receipt_exists:
  "(\<exists>c \<in> set (delivery_receipts db). (c_event_id c, c_consumer c) = k) \<longleftrightarrow> k \<in> receipt_key ` set (delivery_receipts db)"
  by (auto simp: receipt_key_def image_iff)

lemma letter_exists:
  "(\<exists>l \<in> set (dead_letters db). (l_event_id l, l_consumer l) = k) \<longleftrightarrow> k \<in> letter_key ` set (dead_letters db)"
  by (auto simp: letter_key_def image_iff)

lemma receipt_written:
  assumes "record_receipt env eid consumer typ (Evidence r) db = (Inr (), db')" "distinct (map receipt_key (delivery_receipts db))"
  shows "outbox_delivery db' = outbox_delivery db" "outbox db' = outbox db" "dead_letters db' = dead_letters db"
    "set (delivery_receipts db) \<subseteq> set (delivery_receipts db')"
    "(eid, consumer) \<in> receipt_key ` set (delivery_receipts db')"
    "\<And>x. x \<in> set (delivery_receipts db') \<Longrightarrow> x \<notin> set (delivery_receipts db) \<Longrightarrow> receipt_key x = (eid, consumer)"
    "distinct (map receipt_key (delivery_receipts db'))"
  using assms evidence_two[of r] unfolding record_receipt_def receipt_exists
  by (auto simp: receipt_key_def split: if_splits)

lemma publish_keeps [keeps]:
  assumes c: "consistent db" and p: "mark_published_body env cfg row lease r db = (Inr (), db')" shows "consistent db'"
proof -
  obtain d0 where d0: "d0 \<in> set (outbox_delivery db)" "held cfg row lease d0"
    using p by (auto simp: publish_Inr affected_pos)
  define db1 where "db1 = db\<lparr>outbox_delivery := update_where (held cfg row lease) (close_published env) (outbox_delivery db)\<rparr>"
  have st: "record_receipt env (eventID row) (Consumer cfg) (eventType row) (Evidence r) db1 = (Inr (), db')"
    using p by (simp add: publish_Inr db1_def)
  have di: "distinct (map receipt_key (delivery_receipts db1))" using c by (simp add: consistent_def db1_def)
  note w = receipt_written[OF st di]
  have rows: "outbox_delivery db' = update_where (held cfg row lease) (close_published env) (outbox_delivery db)"
    "outbox db' = outbox db" "dead_letters db' = dead_letters db"
    and rec: "set (delivery_receipts db) \<subseteq> set (delivery_receipts db')"
      "(eventID row, Consumer cfg) \<in> receipt_key ` set (delivery_receipts db')"
      "\<And>x. x \<in> set (delivery_receipts db') \<Longrightarrow> x \<notin> set (delivery_receipts db) \<Longrightarrow> receipt_key x = (eventID row, Consumer cfg)"
      "distinct (map receipt_key (delivery_receipts db'))"
    using w by (simp_all add: db1_def)
  show ?thesis
  proof (rule consistent_update[OF c rows(1,2)])
    fix x assume "x \<in> set (delivery_receipts db')" "x \<notin> set (delivery_receipts db)"
    then have "receipt_key x = (eventID row, Consumer cfg)" by (rule rec(3))
    moreover have "close_published env d0 \<in> set (outbox_delivery db')" using d0 by (auto simp: rows(1) set_update_where)
    ultimately show "receipt_justified db' x"
      using d0(2) by (auto simp: receipt_justified_def held_def delivery_key_def
          intro!: bexI[of _ "close_published env d0"])
  qed (use rec rows c in \<open>auto simp: held_def accounted_def has_receipt_def delivery_key_def consistent_def\<close>)
qed

lemma find_Some_iff_set: "(\<exists>x. find P xs = Some x) \<longleftrightarrow> (\<exists>x \<in> set xs. P x)"
  by (induction xs) auto

lemma dead_letter_Inr:
  "dead_letter_body env cfg row lease class detail db = (Inr (), db') \<longleftrightarrow>
     fault env (StopRedelivery (eventID row)) = None \<and> fault env (DeadLetterStatement (eventID row)) = None
     \<and> 0 < affected (held cfg row lease) (outbox_delivery db)
     \<and> dead_letter_statement env (createdAt row) (eventID row) (class_text class) detail (attempts row + 1) (Consumer cfg)
          (db\<lparr>outbox_delivery := update_where (held cfg row lease)
             (stop_redelivery env (attempts row + 1) detail (class_text class)) (outbox_delivery db)\<rparr>) = (Inr (), db')"
  by (auto simp: dead_letter_body_def stm_Inr fenced_Inr)

text \<open>The incident is written: the closed delivery has its event.\<close>

lemma dead_letter_written:
  assumes "\<exists>r \<in> set (outbox db). o_created_at r = created \<and> o_event_id r = eid"
    "\<exists>d \<in> set (outbox_delivery db). delivery_key d = (created, eid, consumer)"
    "dead_letter_statement env created eid class detail n consumer db = (Inr (), db')"
    "distinct (map letter_key (dead_letters db))"
  shows "outbox_delivery db' = outbox_delivery db" "outbox db' = outbox db" "delivery_receipts db' = delivery_receipts db"
    "set (dead_letters db) \<subseteq> set (dead_letters db')"
    "(eid, Some consumer) \<in> letter_key ` set (dead_letters db')"
    "\<And>l. l \<in> set (dead_letters db') \<Longrightarrow> l \<notin> set (dead_letters db) \<Longrightarrow> letter_key l = (eid, Some consumer) \<and> l_failure_class l = class"
    "distinct (map letter_key (dead_letters db'))"
proof -
  obtain r d where "find (\<lambda>r. o_created_at r = created \<and> o_event_id r = eid) (outbox db) = Some r"
    "find (\<lambda>d. delivery_key d = (created, eid, consumer)) (outbox_delivery db) = Some d"
    using assms(1,2) unfolding find_Some_iff_set[symmetric] by blast
  with assms(3,4) show "outbox_delivery db' = outbox_delivery db" "outbox db' = outbox db" "delivery_receipts db' = delivery_receipts db"
    "set (dead_letters db) \<subseteq> set (dead_letters db')"
    "(eid, Some consumer) \<in> letter_key ` set (dead_letters db')"
    "\<And>l. l \<in> set (dead_letters db') \<Longrightarrow> l \<notin> set (dead_letters db) \<Longrightarrow> letter_key l = (eid, Some consumer) \<and> l_failure_class l = class"
    "distinct (map letter_key (dead_letters db'))"
    unfolding dead_letter_statement_def letter_exists by (auto simp: letter_key_def split: if_splits)
qed

lemma dead_letter_keeps [keeps]:
  assumes c: "consistent db" and p: "dead_letter_body env cfg row lease FailurePoison detail db = (Inr (), db')"
  shows "consistent db'"
proof -
  let ?f = "stop_redelivery env (attempts row + 1) detail ''poison''"
  define db1 where "db1 = db\<lparr>outbox_delivery := update_where (held cfg row lease) ?f (outbox_delivery db)\<rparr>"
  obtain d0 where d0: "d0 \<in> set (outbox_delivery db)" "held cfg row lease d0"
    using p by (auto simp: dead_letter_Inr affected_pos)
  have st: "dead_letter_statement env (createdAt row) (eventID row) ''poison'' detail (attempts row + 1) (Consumer cfg) db1 = (Inr (), db')"
    using p by (simp add: dead_letter_Inr db1_def)
  have closed: "?f d0 \<in> set (outbox_delivery db1)" using d0 by (auto simp: db1_def set_update_where)
  have "event_of db d0" using consistent_row[OF c d0(1)] by simp
  then have ev: "\<exists>r \<in> set (outbox db1). o_created_at r = createdAt row \<and> o_event_id r = eventID row"
    using d0(2) by (auto simp: event_of_def held_def delivery_key_def db1_def)
  have dl: "\<exists>d \<in> set (outbox_delivery db1). delivery_key d = (createdAt row, eventID row, Consumer cfg)"
    using closed d0(2) by (intro bexI[of _ "?f d0"]) (simp_all add: held_def)
  have di: "distinct (map letter_key (dead_letters db1))" using c by (simp add: consistent_def db1_def)
  note w = dead_letter_written[OF ev dl st di]
  have rows: "outbox_delivery db' = update_where (held cfg row lease) ?f (outbox_delivery db)" "outbox db' = outbox db"
    "delivery_receipts db' = delivery_receipts db" "dead_letters db1 = dead_letters db"
    using w(1-3) by (simp_all add: db1_def)
  have open_row: "d_published_at d = None" if "d \<in> set (outbox_delivery db)" "held cfg row lease d" for d
    using that consistent_row[OF c that(1)] accounted_open unfolding held_def by blast
  show ?thesis
  proof (rule consistent_update[OF c rows(1,2)])
    fix l assume "l \<in> set (dead_letters db')" "l \<notin> set (dead_letters db)"
    then have "letter_key l = (eventID row, Some (Consumer cfg)) \<and> l_failure_class l = ''poison''" using w(6) rows(4) by simp
    then show "letter_justified db' l"
      using closed d0 open_row[OF d0] w(1) unfolding letter_justified_def dead_lettered_def
      by (auto simp: held_def delivery_key_def intro!: bexI[of _ "?f d0"])
  next
    fix d assume "d \<in> set (outbox_delivery db)" "held cfg row lease d"
    then show "lease_ok (?f d) \<and> accounted db' (?f d)"
      using w(5) open_row[of d] by (auto simp: accounted_def dead_lettered_def has_incident_def held_def delivery_key_def)
  qed (use rows c w in \<open>auto simp: held_def consistent_def\<close>)
qed
lemma append_statement_Inr:
  assumes "append_statement env eid typ agg prio payload envelope only db = (Inr n, db')"
  shows "outbox_sequence db' = outbox_sequence db + 1" "outbox_sequence db + 1 < 2 ^ 63"
    "outbox db' = outbox db @ [\<lparr>o_created_at = tx_now env, o_event_id = eid, o_sequence = outbox_sequence db + 1,
       o_event_type = typ, o_aggregate_id = agg, o_priority = prio, o_payload = jsonb payload,
       o_envelope = jsonb_set (jsonb envelope) ''streamposition'' (JNum (show_int (outbox_sequence db + 1)))\<rparr>]"
    "outbox_delivery db' = outbox_delivery db @
       map (new_delivery (tx_now env) eid (outbox_sequence db + 1) typ prio) (owed_subscriptions typ only db)"
    "distinct (map delivery_key (outbox_delivery db'))"
    "subscriptions db' = subscriptions db" "dead_letters db' = dead_letters db" "delivery_receipts db' = delivery_receipts db"
    "n = length (owed_subscriptions typ only db)"
    "\<forall>r \<in> set (outbox db). (o_created_at r, o_event_id r) \<noteq> (tx_now env, eid)"
  using assms by (auto simp: append_statement_def Let_def split: if_splits)

definition resolve_options :: "append_option list \<Rightarrow> appendOptions" where
  "resolve_options opts = fold (\<lambda>opt acc. opt acc) opts \<lparr>a_priority = PriorityStandard, a_only = ''''\<rparr>"

lemma Append_Inr:
  assumes "Append env tx agg e opts db = (Inr (), db')"
  obtains payload envelope n where "\<not> IsNilTx tx" "\<not> IsNil agg" "Validate e = Inr ()" "e_Data e = Document payload"
    "MarshalJSON e = Inr envelope"
    "append_statement env (String (e_ID e)) (e_Type e) (String agg) (a_priority (resolve_options opts)) payload envelope
       (a_only (resolve_options opts)) db = (Inr n, db')"
    "a_only (resolve_options opts) \<noteq> '''' \<longrightarrow> n \<noteq> 0"
proof -
  have v: "\<not> IsNilTx tx" "\<not> IsNil agg" "Validate e = Inr ()"
    using assms by (auto simp: Append_def split: if_splits sum.splits)
  from assms v obtain payload envelope where p: "e_Data e = Document payload" "MarshalJSON e = Inr envelope"
    by (auto simp: Append_def Let_def split: if_splits sum.splits raw.splits)
  from assms v p show thesis
    by (auto simp: Append_def Let_def stm_Inr resolve_options_def split: if_splits intro!: that)
qed

lemma consistent_append:
  assumes "consistent db" "append_statement env eid typ agg prio payload envelope only db = (Inr n, db')"
  shows "consistent db'"
proof -
  note s = append_statement_Inr[OF assms(2)]
  have "event_of db' d \<and> lease_ok d \<and> accounted db' d" if "d \<in> set (outbox_delivery db')" for d
  proof (cases "d \<in> set (outbox_delivery db)")
    case True
    then show ?thesis
      using consistent_row[OF assms(1) True] accounted_mono[of db d db'] s(3,7,8) by (auto simp: event_of_def)
  next
    case False
    then show ?thesis
      using that s(3,4) by (auto simp: event_of_def new_delivery_def lease_ok_def accounted_def owed_def)
  qed
  moreover have "receipt_justified db' c" if "receipt_justified db c" for c
    using that s(4) by (auto simp: receipt_justified_def)
  moreover have "letter_justified db' l" if "letter_justified db l" for l
    using that s(4) by (auto simp: letter_justified_def)
  ultimately show ?thesis using assms(1) s(5,7,8) by (simp add: consistent_def)
qed

lemma consistent_subscriptions: "consistent (db\<lparr>subscriptions := ss\<rparr>) = consistent db"
  by (simp add: consistent_def event_of_def accounted_def has_receipt_def has_incident_def receipt_justified_def
      letter_justified_def)

lemma consistent_sequence: "consistent (db\<lparr>outbox_sequence := n\<rparr>) = consistent db"
  by (simp add: consistent_def event_of_def accounted_def has_receipt_def has_incident_def receipt_justified_def
      letter_justified_def)

lemma retire_Inr:
  "retire_statement env consumer db = (Inr n, db') \<Longrightarrow> \<exists>ss. db' = db\<lparr>subscriptions := ss\<rparr>"
  by (auto simp: retire_statement_def Let_def split: if_splits)

lemma insert_subscription_Inr:
  "insert_subscription env consumer types db = (Inr n, db') \<Longrightarrow> \<exists>ss. db' = db\<lparr>subscriptions := ss\<rparr>"
  by (auto simp: insert_subscription_def Let_def split: if_splits)

lemma Subscribe_frame:
  "Subscribe env tx consumer types db = (Inr (), db') \<Longrightarrow> \<exists>ss. db' = db\<lparr>subscriptions := ss\<rparr>"
  by (auto simp: Subscribe_def Let_def stm_Inr split: if_splits sum.splits dest!: retire_Inr insert_subscription_Inr)

lemma Unsubscribe_frame:
  "Unsubscribe env tx consumer db = (Inr (), db') \<Longrightarrow> \<exists>ss. db' = db\<lparr>subscriptions := ss\<rparr>"
  by (auto simp: Unsubscribe_def Let_def stm_Inr split: if_splits dest!: retire_Inr)

lemma Abandon_Inr:
  assumes "Abandon env tx consumer reason db = (Inr n, db')"
  shows "\<not> (\<exists>s \<in> set (subscriptions db). s_consumer s = trim_space consumer \<and> active s)"
    "abandon_statement (trim_space consumer) ''abandoned'' (redact_string (trim_space reason)) db = (Inr n, db')"
    "trim_space reason \<noteq> ''''" "trim_space consumer \<noteq> ''''"
  using assms by (auto simp: Abandon_def Let_def stm_Inr split: if_splits)

lemma abandon_keeps [keeps]:
  assumes "consistent db" "Abandon env tx consumer reason db = (Inr n, db')" shows "consistent db'"
proof -
  let ?P = "\<lambda>d. d_consumer d = trim_space consumer \<and> \<not> d_published d"
  let ?f = "\<lambda>d. d\<lparr>d_published := True, d_failure_class := Some ''abandoned'', d_last_error := Some (redact_string (trim_space reason)),
      d_next_attempt_at := None, d_lease_id := None, d_leased_until := None\<rparr>"
  have "db' = db\<lparr>outbox_delivery := update_where ?P ?f (outbox_delivery db)\<rparr>"
    using Abandon_Inr(2)[OF assms(2)] by (simp add: abandon_statement_def Let_def)
  then show ?thesis
    by (intro consistent_rows[OF assms(1), where P = ?P and f = ?f])
      (use assms(1) in \<open>auto simp: same_delivery_def delivery_key_def lease_ok_def accounted_def[of _ "?f _"] abandoned_def
        dest!: consistent_row dest: accounted_open\<close>)
qed

lemma committed_keeps: "committed db db' \<Longrightarrow> consistent db \<Longrightarrow> consistent db'"
proof (induction rule: committed.induct)
  case (c_append env tx agg e opts db db')
  then show ?case by (elim Append_Inr) (rule consistent_append)
next
  case (c_subscribe env tx consumer types db db')
  then show ?case by (auto dest!: Subscribe_frame simp: consistent_subscriptions)
next
  case (c_unsubscribe env tx consumer db db')
  then show ?case by (auto dest!: Unsubscribe_frame simp: consistent_subscriptions)
qed (auto intro: keeps simp: discard_def consistent_sequence)

lemma consistent_empty: "consistent empty_database"
  by (simp add: consistent_def empty_database_def)

lemma reachable_consistent: "reachable db \<Longrightarrow> consistent db"
  unfolding reachable_def by (induction rule: rtranclp_induct) (auto intro: consistent_empty committed_keeps)

section \<open>Closed deliveries stay as they are\<close>

lemma update_keeps_closed:
  assumes "outbox_delivery db' = update_where P f (outbox_delivery db)"
    "\<And>d. d \<in> set (outbox_delivery db) \<Longrightarrow> P d \<Longrightarrow> \<not> d_published d" "d \<in> set (outbox_delivery db)" "d_published d"
  shows "d \<in> set (outbox_delivery db')"
  using assms by (auto intro: kept_row)

lemma release_closed:
  "release_body env cfg rows lease db = (Inr (), db') \<Longrightarrow> d \<in> set (outbox_delivery db) \<Longrightarrow> d_published d \<Longrightarrow>
     d \<in> set (outbox_delivery db')"
proof (induction env cfg rows lease arbitrary: db rule: release_body.induct)
  case (2 env cfg row rows lease)
  then obtain db1 where db1: "db1 = db\<lparr>outbox_delivery := update_where (held cfg row lease)
        (\<lambda>d. d\<lparr>d_lease_id := None, d_leased_until := None\<rparr>) (outbox_delivery db)\<rparr>"
      "release_body env cfg rows lease db1 = (Inr (), db')"
    by (auto simp: stm_Inr update_deliveries_def)
  have "d \<in> set (outbox_delivery db1)"
    using "2.prems"(2,3) by (auto simp: db1(1) held_def intro: kept_row)
  then show ?case using "2.IH" db1(2) "2.prems"(3) by blast
qed simp

lemma dead_letter_rows:
  "dead_letter_statement env created eid class detail n consumer db = (Inr (), db') \<Longrightarrow> outbox_delivery db' = outbox_delivery db"
  by (auto simp: dead_letter_statement_def split: option.splits if_splits)

lemma receipt_rows: "record_receipt env eid consumer typ ev db = (Inr (), db') \<Longrightarrow> outbox_delivery db' = outbox_delivery db"
  by (auto simp: record_receipt_def split: if_splits)

lemma committed_closed:
  "committed db db' \<Longrightarrow> consistent db \<Longrightarrow> d \<in> set (outbox_delivery db) \<Longrightarrow> d_published d \<Longrightarrow> d \<in> set (outbox_delivery db')"
proof (induction rule: committed.induct)
  case (c_append env tx agg e opts db db')
  then show ?case by (elim Append_Inr) (auto dest!: append_statement_Inr(4))
next
  case (c_claim env cfg p lease db batch db')
  have "\<not> d_published d" if "d \<in> set (outbox_delivery db)" "delivery_key d \<in> delivery_key ` set (claim_batch env cfg p db)" for d
    using batch_claimable[OF key_in_batch[OF _ that]] c_claim.prems(1) by (simp add: claimable_def consistent_def)
  with c_claim show ?case by (auto simp: claim_Inr intro: kept_row)
next
  case (c_publish env cfg row lease r db db')
  then show ?case by (auto simp: publish_Inr held_def dest!: receipt_rows intro!: kept_row)
next
  case (c_dead_letter env cfg row lease detail db db')
  then show ?case by (auto simp: dead_letter_Inr held_def dest!: dead_letter_rows intro!: kept_row)
next
  case (c_retry cls env cfg row lease detail jitter db db')
  then show ?case by (auto simp: retry_body_def Let_def fenced_Inr held_def intro!: kept_row)
next
  case (c_abandon env tx consumer reason db n db')
  then show ?case by (auto dest!: Abandon_Inr(2) simp: abandon_statement_def Let_def intro!: kept_row)
next
  case (c_release env cfg rows lease db db')
  then show ?case by (blast intro: release_closed)
qed (auto dest!: Subscribe_frame Unsubscribe_frame simp: discard_def)

lemma steps_closed:
  "committed\<^sup>*\<^sup>* db db' \<Longrightarrow> consistent db \<Longrightarrow> d \<in> set (outbox_delivery db) \<Longrightarrow> d_published d \<Longrightarrow>
     consistent db' \<and> d \<in> set (outbox_delivery db')"
  by (induction rule: rtranclp_induct) (auto intro: committed_keeps committed_closed)

section \<open>What a cycle does is a sequence of committed transactions\<close>

text \<open>The statements of the dispatcher do not move the sequence, so rolling one back restores the state.\<close>

lemma exec_sequence: "(\<And>db. outbox_sequence (snd (run db)) = outbox_sequence db) \<Longrightarrow> outbox_sequence (snd (exec env s run db)) = outbox_sequence db"
  by (simp add: exec_def split: option.split)

lemma bind_sequence:
  "(\<And>db. outbox_sequence (snd (run db)) = outbox_sequence db) \<Longrightarrow> (\<And>x db. outbox_sequence (snd (f x db)) = outbox_sequence db) \<Longrightarrow>
     outbox_sequence (snd (bind_stm run f db)) = outbox_sequence db"
  unfolding bind_stm_def by (auto split: prod.split sum.split) (metis snd_conv)+

lemma wrap_sequence: "outbox_sequence (snd (run db)) = outbox_sequence db \<Longrightarrow> outbox_sequence (snd (wrap m run db)) = outbox_sequence db"
  by (auto simp: wrap_def split: prod.splits sum.splits)

lemma return_sequence [simp]: "snd (return x db) = db" "snd (throw e db) = db"
  by (simp_all add: return_def throw_def)

lemmas sequence_intros = bind_sequence wrap_sequence exec_sequence

lemma fenced_sequence: "outbox_sequence (snd (fenced env what s (update_deliveries P f) db)) = outbox_sequence db"
  unfolding fenced_def by (intro sequence_intros) (simp_all add: update_deliveries_def)

lemma claim_sequence: "outbox_sequence (snd (claim env cfg p lease db)) = outbox_sequence db"
  unfolding claim_def by (intro sequence_intros) (simp_all add: claim_statement_def Let_def)

lemma publish_sequence: "outbox_sequence (snd (mark_published_body env cfg row lease r db)) = outbox_sequence db"
  unfolding mark_published_body_def by (intro sequence_intros fenced_sequence) (simp add: record_receipt_def)

lemma dead_letter_sequence: "outbox_sequence (snd (dead_letter_body env cfg row lease class detail db)) = outbox_sequence db"
  unfolding dead_letter_body_def
  by (intro sequence_intros fenced_sequence) (simp add: dead_letter_statement_def split: option.split)

lemma retry_sequence: "outbox_sequence (snd (retry_body env cfg row lease class detail jitter db)) = outbox_sequence db"
  unfolding retry_body_def Let_def by (rule fenced_sequence)

lemma release_sequence: "outbox_sequence (snd (release_body env cfg rows lease db)) = outbox_sequence db"
  by (induction env cfg rows lease arbitrary: db rule: release_body.induct)
    (auto intro!: sequence_intros simp: update_deliveries_def)

lemma in_tx_effect:
  assumes "in_tx env fn db = (r, db')" "outbox_sequence (snd (fn db)) = outbox_sequence db"
  shows "db' = db \<or> (\<exists>x. fn db = (Inr x, db'))"
proof -
  have "discard db (snd (fn db)) = db" using assms(2) by (simp add: discard_def)
  then show ?thesis using tx.effects[OF assms(1)] by auto
qed

lemma fail_row_steps:
  assumes "fail_row env cfg row lease class detail jitter db = (r, db')" "class \<noteq> FailureAbandoned"
  shows "committed\<^sup>*\<^sup>* db db'"
proof (cases "class = FailurePoison")
  case True
  then have "in_tx env (dead_letter_body env cfg row lease FailurePoison detail) db = (r, db')"
    using assms(1) by (simp add: fail_row_def decide_def)
  from in_tx_effect[OF this dead_letter_sequence] show ?thesis by (auto intro: c_dead_letter)
next
  case False
  then have c: "class = FailureUnavailable" using assms(2) by (cases "class") auto
  have "in_tx env (retry_body env cfg row lease class detail jitter) db = (r, db')"
    using assms(1) c by (simp add: fail_row_def decide_def split: if_splits)
  from in_tx_effect[OF this retry_sequence] c show ?thesis by (auto intro: c_retry)
qed

lemma classify_not_abandoned [simp]: "classify err \<noteq> FailureAbandoned"
  by (simp add: classify_def)

lemma settle_steps: "settle re cfg row lease db = (r, db') \<Longrightarrow> committed\<^sup>*\<^sup>* db db'"
proof (cases "publishable (r_error_text re) row")
  case (Inl detail)
  assume "settle re cfg row lease db = (r, db')"
  with Inl show ?thesis by (auto simp: settle_def intro: fail_row_steps)
next
  case (Inr env)
  assume s: "settle re cfg row lease db = (r, db')"
  show ?thesis
  proof (cases "r_publish re env")
    case (Inl err)
    with Inr s show ?thesis by (auto simp: settle_def throw_def split: if_splits intro: fail_row_steps)
  next
    case (Inr rcpt)
    with \<open>publishable (r_error_text re) row = Inr env\<close> s
    have "in_tx (r_env re) (mark_published_body (r_env re) cfg row lease rcpt) db = (r, db')"
      by (simp add: settle_def markPublished_def)
    from in_tx_effect[OF this publish_sequence] show ?thesis by (auto intro: c_publish)
  qed
qed

lemma release_steps: "committed\<^sup>*\<^sup>* db (release env cfg rows lease db)"
proof (cases "rows = []")
  case False
  obtain r db' where e: "in_tx env (release_body env cfg rows lease) db = (r, db')" by (cases "in_tx env (release_body env cfg rows lease) db")
  from in_tx_effect[OF e release_sequence] show ?thesis using False e by (auto simp: release_def intro: c_release)
qed (simp add: release_def)

lemma settle_batch_steps:
  assumes "\<And>i db. committed\<^sup>*\<^sup>* db (r_others (re i) db)"
  shows "settle_batch re rel cfg lease deadline i rows db = (err, db') \<Longrightarrow> committed\<^sup>*\<^sup>* db db'"
proof (induction rows arbitrary: i db)
  case (Cons row rows)
  obtain r db1 where s: "settle (re i) cfg row lease (r_others (re i) db) = (r, db1)"
    by (cases "settle (re i) cfg row lease (r_others (re i) db)")
  have to1: "committed\<^sup>*\<^sup>* db db1" using assms[of db i] settle_steps[OF s] by (rule rtranclp_trans)
  show ?case
  proof (cases "r_time (re i) > deadline")
    case False
    with Cons.prems s consider "settle_batch re rel cfg lease deadline (Suc i) rows db1 = (err, db')"
      | "db' = release rel cfg (row # rows) lease db1" | "db' = release rel cfg rows lease db1"
      by (auto split: sum.splits if_splits)
    then show ?thesis
      using to1 Cons.IH release_steps by cases (auto intro: rtranclp_trans)
  qed (use Cons.prems in simp)
qed simp

lemma dispatchOnce_steps:
  assumes "\<And>i db. committed\<^sup>*\<^sup>* db (r_others (y_rows y i) db)"
  shows "committed\<^sup>*\<^sup>* db (snd (dispatchOnce y cfg p db))"
proof (cases "y_lease y")
  case (Inr leaseID)
  obtain r db1 where c: "in_tx (y_env y) (claim (y_env y) cfg p (String leaseID)) db = (r, db1)"
    by (cases "in_tx (y_env y) (claim (y_env y) cfg p (String leaseID)) db")
  have to1: "committed\<^sup>*\<^sup>* db db1" using in_tx_effect[OF c claim_sequence] by (auto intro: c_claim)
  show ?thesis
  proof (cases r)
    case (Inr batch)
    obtain err db2 where b: "settle_batch (y_rows y) (y_release y) cfg (String leaseID)
        (y_claimed_at y + sint (LeaseDuration cfg)) 0 batch db1 = (err, db2)" by (metis surj_pair)
    have "committed\<^sup>*\<^sup>* db1 db2" by (rule settle_batch_steps[OF assms b])
    with to1 have "committed\<^sup>*\<^sup>* db db2" by (rule rtranclp_trans)
    with \<open>y_lease y = Inr leaseID\<close> Inr c b show ?thesis by (simp add: dispatchOnce_def)
  qed (use \<open>y_lease y = Inr leaseID\<close> c to1 in \<open>simp add: dispatchOnce_def\<close>)
qed (simp add: dispatchOnce_def)

end
