(* ===== verification/Guarantees.thy ===== *)
theory Guarantees
  imports Delivery
begin

text \<open>
  What the outbox promises, as theorems over the model of \<^verbatim>\<open>src/outbox\<close>: no delivery is lost, a
  receipt is evidence, a closed delivery is final, a lost lease writes nothing, a claim takes the
  right rows in the right order, every outcome of a publication is recorded as designed, and a
  dispatcher cycle is nothing but a sequence of committed transactions.
\<close>

section \<open>A reachable state\<close>

definition sample_env :: txenv where
  "sample_env = \<lparr>env_open = True, env_bound = Inr (), env_driver = \<lparr>begin_err = None, commit_ack = CommitOk\<rparr>,
     tx_now = 1000, stmt_now = (\<lambda>_. 1000), fault = (\<lambda>_. None), row_locked = (\<lambda>_. False)\<rparr>"

definition sample_tx :: tx_value where
  "sample_tx = TxValue OtherKind False"

lemma sample_env_healthy: "healthy sample_env"
  by (simp add: healthy_def sample_env_def)

lemma sample_env_no_fault [simp]: "fault sample_env s = None"
  by (simp add: sample_env_def)

lemma exec_ok: "fault env s = None \<Longrightarrow> exec env s run = run"
  by (simp add: exec_def fun_eq_iff)

lemma sample_tx_live [simp]: "\<not> IsNilTx sample_tx"
  by (simp add: sample_tx_def IsNilTx_def)

definition sample_type :: string where
  "sample_type = ''com.scnehaux.crm.account.security.locked''"

definition sample_delivery :: delivery where
  "sample_delivery = new_delivery 1000 (String (e_ID sample_envelope)) 1 sample_type PriorityStandard
     \<lparr>s_consumer = ''crm'', s_event_types = [sample_type], s_subscribed_at = 1000, s_retired_at = None\<rparr>"

lemma trim_crm [simp]: "trim_space ''crm'' = ''crm''"
  by code_simp

lemma sample_type_ok: "ParseType sample_type = Inr sample_type"
  unfolding sample_type_def by code_simp

definition sample_subscribed :: database where
  "sample_subscribed = empty_database\<lparr>subscriptions :=
     [\<lparr>s_consumer = ''crm'', s_event_types = [sample_type], s_subscribed_at = 1000, s_retired_at = None\<rparr>]\<rparr>"

lemma sample_subscribe: "Subscribe sample_env sample_tx ''crm'' [sample_type] empty_database = (Inr (), sample_subscribed)"
  by (simp add: Subscribe_def Let_def sample_type_ok bind_stm_def wrap_def exec_def sample_env_def return_def
      retire_statement_def insert_subscription_def empty_database_def sample_subscribed_def affected_def update_where_def)

lemma sample_append:
  obtains db where "Append sample_env sample_tx (replicate 16 1) sample_envelope [] sample_subscribed = (Inr (), db)"
    "outbox_delivery db = [sample_delivery]" "subscriptions db = subscriptions sample_subscribed"
proof -
  have "\<exists>j. encode_wire (wire_of sample_envelope) = Inr j"
    by (simp add: encode_wire_def wire_of_def sample_envelope_def)
  then obtain j where j: "MarshalJSON sample_envelope = Inr j" using sample_valid by (auto simp: MarshalJSON_Inr)
  have nil: "\<not> IsNil (replicate 16 1)" by (simp add: IsNil_def Nil_uuid_def)
  have d: "e_Data sample_envelope = Document (JObj [(''version'', JNum ''1'')])" "e_Type sample_envelope = sample_type"
    by (simp_all add: sample_envelope_def sample_type_def)
  have sub: "subscriptions sample_subscribed =
      [\<lparr>s_consumer = ''crm'', s_event_types = [sample_type], s_subscribed_at = 1000, s_retired_at = None\<rparr>]"
    "outbox sample_subscribed = []" "outbox_delivery sample_subscribed = []" "outbox_sequence sample_subscribed = 0"
    by (simp_all add: sample_subscribed_def empty_database_def)
  obtain db where "append_statement sample_env (String (e_ID sample_envelope)) sample_type (String (replicate 16 1))
      PriorityStandard (JObj [(''version'', JNum ''1'')]) j '''' sample_subscribed = (Inr 1, db)"
    "outbox_delivery db = [sample_delivery]" "subscriptions db = subscriptions sample_subscribed"
    by (simp add: append_statement_def owed_subscriptions_def active_def sub sample_delivery_def sample_env_def)
  moreover from this have "Append sample_env sample_tx (replicate 16 1) sample_envelope [] sample_subscribed = (Inr (), db)"
    using j nil d sample_valid
    by (simp add: Append_def exec_ok) (simp add: bind_stm_def wrap_def return_def)
  ultimately show thesis using that by blast
qed

lemma sample_reachable:
  obtains db where "reachable db" "outbox_delivery db = [sample_delivery]" "subscriptions db = subscriptions sample_subscribed"
proof -
  have "committed empty_database sample_subscribed" using sample_subscribe by (rule c_subscribe)
  moreover obtain db where "Append sample_env sample_tx (replicate 16 1) sample_envelope [] sample_subscribed = (Inr (), db)"
    "outbox_delivery db = [sample_delivery]" "subscriptions db = subscriptions sample_subscribed" using sample_append .
  moreover from this(1) have "committed sample_subscribed db" by (rule c_append)
  ultimately show thesis using that unfolding reachable_def by (metis converse_rtranclp_into_rtranclp rtranclp.rtrancl_refl)
qed

section \<open>Nothing is lost\<close>

text \<open>
  C1: In every state that producers, subscription changes and any number of dispatchers can reach,
  whatever the interleaving of their transactions, each delivery is in exactly one of four states:
  still owed, delivered with its receipt, dead-lettered as poison with its incident, or abandoned; it belongs to a stored event of the
  same position, type and lane; and only an open delivery holds a lease or a schedule.
\<close>

theorem no_delivery_lost:
  assumes "reachable db" "d \<in> set (outbox_delivery db)"
  shows "length (filter id [owed d, delivered d \<and> has_receipt db d, dead_lettered d \<and> has_incident db d, abandoned d]) = 1
    \<and> (owed d \<or> delivered d \<or> dead_lettered d \<or> abandoned d) \<and> event_of db d \<and> lease_ok d"
proof -
  have "event_of db d \<and> lease_ok d \<and> accounted db d"
    using consistent_row[OF reachable_consistent[OF assms(1)] assms(2)] .
  then show ?thesis by (auto simp: accounted_def owed_def delivered_def dead_lettered_def abandoned_def)
qed

theorem no_delivery_lost_witness:
  "\<exists>db d. reachable db \<and> d \<in> set (outbox_delivery db) \<and> event_of db d \<and> lease_ok d"
proof -
  obtain db where db: "reachable db" "outbox_delivery db = [sample_delivery]" using sample_reachable .
  then have "sample_delivery \<in> set (outbox_delivery db)" by simp
  with no_delivery_lost[OF db(1) this] db(1) show ?thesis by blast
qed

text \<open>
  C11: Evidence is never made up: a receipt in a reachable state names an event and a consumer whose delivery was
  closed as delivered, there is one receipt per event and consumer, and every dead letter is a poison
  failure of a delivery that was closed without being delivered, one per event and consumer. So
  unavailability alone never dead-letters anything.
\<close>

theorem evidence_rests_on_delivery:
  assumes "reachable db"
  shows "(\<forall>c \<in> set (delivery_receipts db). \<exists>d \<in> set (outbox_delivery db).
            d_event_id d = c_event_id c \<and> d_consumer d = c_consumer c \<and> delivered d)
    \<and> distinct (map receipt_key (delivery_receipts db))
    \<and> (\<forall>l \<in> set (dead_letters db). l_failure_class l = ''poison'' \<and> (\<exists>d \<in> set (outbox_delivery db).
            d_event_id d = l_event_id l \<and> Some (d_consumer d) = l_consumer l \<and> dead_lettered d))
    \<and> distinct (map letter_key (dead_letters db))"
  using reachable_consistent[OF assms]
  by (auto simp: consistent_def receipt_justified_def letter_justified_def receipt_key_def letter_key_def) fastforce+

theorem evidence_rests_on_delivery_witness:
  "\<exists>db. reachable db \<and> outbox_delivery db \<noteq> [] \<and> distinct (map receipt_key (delivery_receipts db))"
proof -
  obtain db where db: "reachable db" "outbox_delivery db = [sample_delivery]" using sample_reachable .
  with evidence_rests_on_delivery[OF db(1)] show ?thesis by (intro exI[of _ db]) simp
qed

lemma sample_abandoned:
  obtains db d where "reachable db" "d \<in> set (outbox_delivery db)" "d_published d"
proof -
  obtain db where db: "reachable db" "outbox_delivery db = [sample_delivery]" "subscriptions db = subscriptions sample_subscribed"
    using sample_reachable .
  define db1 where "db1 = db\<lparr>subscriptions := update_where (\<lambda>s. s_consumer s = ''crm'' \<and> active s)
    (\<lambda>s. s\<lparr>s_retired_at := Some 1000\<rparr>) (subscriptions db)\<rparr>"
  have "Unsubscribe sample_env sample_tx ''crm'' db = (Inr (), db1)"
    using db(3) by (simp add: Unsubscribe_def Let_def exec_ok db1_def)
      (simp add: bind_stm_def wrap_def return_def retire_statement_def sample_subscribed_def sample_env_def Let_def)
  then have 1: "committed db db1" by (rule c_unsubscribe)
  have no: "(\<exists>s \<in> set (subscriptions db1). s_consumer s = ''crm'' \<and> active s) = False"
    by (auto simp: db1_def update_where_def active_def)
  have trim: "trim_space ''gone'' = ''gone''" by code_simp
  obtain n db2 where s: "abandon_statement ''crm'' ''abandoned'' (redact_string ''gone'') db1 = (Inr n, db2)"
    by (simp add: abandon_statement_def Let_def)
  have a: "Abandon sample_env sample_tx ''crm'' ''gone'' db1 = (Inr n, db2)"
    using s by (simp add: Abandon_def Let_def exec_ok trim) (simp add: bind_stm_def wrap_def return_def no exec_ok)
  from a have 2: "committed db1 db2" by (rule c_abandon)
  have "\<exists>d \<in> set (outbox_delivery db2). d_published d"
    using s db(2) by (auto simp: abandon_statement_def db1_def update_where_def sample_delivery_def new_delivery_def)
  moreover have "reachable db2" using db(1) 1 2 unfolding reachable_def by (meson rtranclp.rtrancl_into_rtrancl)
  ultimately show thesis using that by blast
qed

text \<open>
  C12: A closed delivery is final: no sequence of transactions of producers, operators and
  dispatchers reopens, leases, counts or rewrites it, so a receipt or an incident keeps the delivery
  it rests on.
\<close>

theorem closed_delivery_final:
  assumes "reachable db" "committed\<^sup>*\<^sup>* db db'" "d \<in> set (outbox_delivery db)" "d_published d"
  shows "d \<in> set (outbox_delivery db')"
  using steps_closed[OF assms(2) reachable_consistent[OF assms(1)] assms(3,4)] by blast

theorem closed_delivery_final_witness:
  "\<exists>db d n. reachable db \<and> d_published d \<and> d \<in> set (outbox_delivery (discard db (db\<lparr>outbox_sequence := n\<rparr>)))"
proof -
  obtain db d where d: "reachable db" "d \<in> set (outbox_delivery db)" "d_published d" using sample_abandoned .
  have "committed\<^sup>*\<^sup>* db (discard db (db\<lparr>outbox_sequence := outbox_sequence db + 1\<rparr>))"
    by (rule r_into_rtranclp) (rule c_gap, simp)
  from closed_delivery_final[OF d(1) this d(2,3)] d show ?thesis by blast
qed

section \<open>Claims\<close>

lemma sorted_to_claimed:
  "(\<lambda>c. (priority c, position c)) \<circ> to_claimed db = (\<lambda>d. (d_priority d, d_sequence d))"
  by (auto simp: to_claimed_def)

lemma set_claim_batch:
  assumes "distinct (map delivery_key (outbox_delivery db))"
  shows "set (filter (\<lambda>d. delivery_key d \<in> delivery_key ` set (claim_batch env cfg p db)) (outbox_delivery db)) = set (claim_batch env cfg p db)"
proof (intro set_eqI iffI)
  fix d assume "d \<in> set (filter (\<lambda>d. delivery_key d \<in> delivery_key ` set (claim_batch env cfg p db)) (outbox_delivery db))"
  then show "d \<in> set (claim_batch env cfg p db)" using key_in_batch[OF assms, of d] by simp
next
  fix d assume "d \<in> set (claim_batch env cfg p db)"
  then show "d \<in> set (filter (\<lambda>d. delivery_key d \<in> delivery_key ` set (claim_batch env cfg p db)) (outbox_delivery db))"
    using batch_claimable[of d] by simp
qed

lemma take_least:
  assumes "sorted (map f xs)" "x \<in> set (take n xs)" "y \<in> set xs" "y \<notin> set (take n xs)"
  shows "f x \<le> f y"
proof -
  have "y \<in> set (drop n xs)" using assms(3,4) by (metis Un_iff append_take_drop_id set_append)
  moreover have "sorted (map f (take n xs) @ map f (drop n xs))" using assms(1) by (simp flip: map_append)
  ultimately show ?thesis using assms(2) by (auto simp: sorted_append)
qed

text \<open>The rows a claim may take, as the design names them.\<close>

definition due :: "txenv \<Rightarrow> dconfig \<Rightarrow> bool \<Rightarrow> database \<Rightarrow> delivery set" where
  "due env cfg priorityOnly db = {d \<in> set (outbox_delivery db).
     d_consumer d = Consumer cfg \<and> \<not> d_published d
     \<and> (\<forall>t. d_next_attempt_at d = Some t \<longrightarrow> t \<le> tx_now env) \<and> (\<forall>t. d_leased_until d = Some t \<longrightarrow> t \<le> tx_now env)
     \<and> (priorityOnly \<longrightarrow> d_priority d = 0) \<and> \<not> row_locked env (delivery_key d)}"

lemma due_claimable: "due env cfg p db = {d \<in> set (outbox_delivery db). claimable env cfg p d}"
  unfolding due_def claimable_def PriorityHigh_def by (intro Collect_cong conj_cong refl) (auto split: option.split)

lemma claim_batch_due:
  assumes "distinct (map delivery_key (outbox_delivery db))"
  shows "set (claim_batch env cfg p db) \<subseteq> due env cfg p db"
    "card (set (claim_batch env cfg p db)) = min (nat (BatchSize cfg)) (card (due env cfg p db))" "distinct (claim_batch env cfg p db)"
proof -
  show "set (claim_batch env cfg p db) \<subseteq> due env cfg p db" using batch_claimable by (auto simp: due_claimable)
  have d: "distinct (outbox_delivery db)" using assms by (simp add: distinct_map)
  then show b: "distinct (claim_batch env cfg p db)" by (simp add: claim_batch_def)
  have "due env cfg p db = set (filter (claimable env cfg p) (outbox_delivery db))" by (auto simp: due_claimable)
  then have "card (due env cfg p db) = length (filter (claimable env cfg p) (outbox_delivery db))" using d by (metis distinct_card distinct_filter)
  then show "card (set (claim_batch env cfg p db)) = min (nat (BatchSize cfg)) (card (due env cfg p db))"
    using distinct_card[OF b] by (simp add: claim_batch_def min.commute)
qed

lemma claim_effect:
  assumes "consistent db" "claim env cfg p lease db = (Inr batch, db')"
  shows "outbox_delivery db' = map (\<lambda>d. if d \<in> set (claim_batch env cfg p db)
      then d\<lparr>d_lease_id := Some lease, d_leased_until := Some (tx_now env + make_interval (Seconds (LeaseDuration cfg)))\<rparr> else d) (outbox_delivery db)"
    "set batch = to_claimed db ` set (claim_batch env cfg p db)" "length batch = card (set (claim_batch env cfg p db))"
proof -
  let ?B = "claim_batch env cfg p db"
  let ?P = "\<lambda>d. delivery_key d \<in> delivery_key ` set ?B"
  have key: "distinct (map delivery_key (outbox_delivery db))" using assms(1) by (simp add: consistent_def)
  have "?P d \<longleftrightarrow> d \<in> set ?B" if "d \<in> set (outbox_delivery db)" for d using key_in_batch[OF key that, of env cfg p] by blast
  then show "outbox_delivery db' = map (\<lambda>d. if d \<in> set ?B
      then d\<lparr>d_lease_id := Some lease, d_leased_until := Some (tx_now env + make_interval (Seconds (LeaseDuration cfg)))\<rparr> else d) (outbox_delivery db)"
    using assms(2) by (auto simp: claim_Inr update_where_def)
  show "set batch = to_claimed db ` set ?B" using assms(2) set_claim_batch[OF key, of env cfg p] by (simp add: claim_Inr)
  have "distinct (outbox_delivery db)" using key by (simp add: distinct_map)
  then have "length (filter ?P (outbox_delivery db)) = card (set ?B)"
    using set_claim_batch[OF key, of env cfg p] by (metis distinct_card distinct_filter)
  then show "length batch = card (set ?B)" using assms(2) by (simp add: claim_Inr)
qed

text \<open>
  C26: A claim takes the first rows that are due, as many as a batch holds. The due rows are this consumer's deliveries that are not closed, whose next attempt, if one
  is scheduled, is not in the future, that are under no lease or an expired one, that are of the priority lane when the worker is a reserved one, and
  that no other transaction has locked. The claim takes all of them or a full batch; no due row it leaves comes before one it takes in the order of
  lane and stream position; the batch comes out in that order, one entry per row; and the claim puts exactly those rows under its lease
  until the lease ends, and changes nothing else.
\<close>

theorem claim_takes_first_due:
  assumes "consistent db" "claim env cfg priorityOnly lease db = (Inr batch, db')"
    and "due_rows = {d \<in> set (outbox_delivery db). d_consumer d = Consumer cfg \<and> \<not> d_published d
      \<and> (\<forall>t. d_next_attempt_at d = Some t \<longrightarrow> t \<le> tx_now env) \<and> (\<forall>t. d_leased_until d = Some t \<longrightarrow> t \<le> tx_now env)
      \<and> (priorityOnly \<longrightarrow> d_priority d = 0) \<and> \<not> row_locked env (delivery_key d)}"
  shows "\<exists>taken \<subseteq> due_rows. card taken = min (nat (BatchSize cfg)) (card due_rows)
    \<and> (\<forall>d \<in> taken. \<forall>d' \<in> due_rows - taken. (d_priority d, d_sequence d) \<le> (d_priority d', d_sequence d'))
    \<and> length batch = card taken \<and> set batch = to_claimed db ` taken \<and> sorted (map (\<lambda>c. (priority c, position c)) batch)
    \<and> db' = db\<lparr>outbox_delivery := map (\<lambda>d. if d \<in> taken
        then d\<lparr>d_lease_id := Some lease, d_leased_until := Some (tx_now env + make_interval (Seconds (LeaseDuration cfg)))\<rparr> else d) (outbox_delivery db)\<rparr>"
proof -
  let ?B = "claim_batch env cfg priorityOnly db"
  have key: "distinct (map delivery_key (outbox_delivery db))" using assms(1) by (simp add: consistent_def)
  have due: "due_rows = due env cfg priorityOnly db" by (simp add: assms(3) due_def)
  note e = claim_effect[OF assms(1,2)] and b = claim_batch_due[OF key, of env cfg priorityOnly]
  have "(d_priority d, d_sequence d) \<le> (d_priority d', d_sequence d')" if "d \<in> set ?B" "d' \<in> due_rows - set ?B" for d d'
    using take_least[of "\<lambda>d. (d_priority d, d_sequence d)" "sort_key (\<lambda>d. (d_priority d, d_sequence d)) (filter (claimable env cfg priorityOnly) (outbox_delivery db))" d "nat (BatchSize cfg)" d']
      that unfolding claim_batch_def due due_claimable by simp
  moreover have "sorted (map (\<lambda>c. (priority c, position c)) batch)" "db' = db\<lparr>outbox_delivery := outbox_delivery db'\<rparr>"
    using assms(2) by (simp_all add: claim_Inr)
  ultimately show ?thesis using b(1,2) e due by (intro exI[of _ "set ?B"]) simp
qed

definition sample_cfg :: dconfig where
  "sample_cfg = applyDefaults \<lparr>Consumer = ''crm'', Interval = 0, IdleInterval = 0, BatchSize = 0, Workers = 0,
     PriorityWorkers = 0, MaxAttempts = 0, BackoffBase = 0, BackoffMax = 0, LeaseDuration = 0\<rparr>"

theorem claim_takes_first_due_witness:
  "\<exists>db batch db'. reachable db \<and> claim sample_env sample_cfg True ''lease'' db = (Inr batch, db') \<and> length batch \<le> 100"
proof -
  obtain db where db: "reachable db" "outbox_delivery db = [sample_delivery]" using sample_reachable .
  have b: "BatchSize sample_cfg = 100" by (simp add: sample_cfg_def applyDefaults_def or_default_int_def)
  obtain batch db' where c: "claim sample_env sample_cfg True ''lease'' db = (Inr batch, db')"
    by (simp add: claim_Inr)
  from claim_takes_first_due[OF reachable_consistent[OF db(1)] c refl] have "length batch \<le> nat (BatchSize sample_cfg)"
    by (elim exE conjE) (simp only: min.cobounded1)
  with b show ?thesis using db(1) c by (intro exI conjI) auto
qed

section \<open>Outcomes\<close>

lemma fenced_lost:
  assumes "\<forall>d \<in> set (outbox_delivery db). \<not> P d"
  shows "\<exists>e. fenced env what s (update_deliveries P f) db = (Inl e, db) \<and> (fault env s = None \<longrightarrow> e = errLeaseLost)"
proof -
  have "affected P (outbox_delivery db) = 0" using assms affected_pos[of P "outbox_delivery db"] by auto
  then show ?thesis
    by (auto simp: fenced_def bind_stm_def wrap_def exec_def update_deliveries_def update_where_none throw_def
        split: option.split)
qed

lemma bind_failed:
  "\<exists>e. run db = (Inl e, db') \<and> Q e \<Longrightarrow> \<exists>e. bind_stm run f db = (Inl e, db') \<and> Q e"
  by (auto simp: bind_stm_def)

lemma in_tx_lost:
  assumes "fn db = (Inl e, db)"
  shows "snd (in_tx env fn db) = db" "fst (in_tx env fn db) \<noteq> Inr x" "healthy env \<Longrightarrow> in_tx env fn db = (Inl e, db)"
proof -
  obtain r db' where t: "in_tx env fn db = (r, db')" by (cases "in_tx env fn db")
  from tx.failing_body_aborts[OF assms t] t show "snd (in_tx env fn db) = db" "fst (in_tx env fn db) \<noteq> Inr x" by auto
  show "healthy env \<Longrightarrow> in_tx env fn db = (Inl e, db)" using in_tx_healthy_error[of env fn db e db] assms by simp
qed

lemma outcomes_lost:
  assumes "\<forall>d \<in> set (outbox_delivery db). \<not> held cfg row lease d"
  shows "\<exists>e. mark_published_body env cfg row lease r db = (Inl e, db) \<and> (healthy env \<longrightarrow> e = errLeaseLost)"
    "\<exists>e. dead_letter_body env cfg row lease class detail db = (Inl e, db) \<and> (healthy env \<longrightarrow> e = errLeaseLost)"
    "\<exists>e. retry_body env cfg row lease class detail jitter db = (Inl e, db) \<and> (healthy env \<longrightarrow> e = errLeaseLost)"
proof -
  have lost: "\<exists>e. fenced env what s (update_deliveries (held cfg row lease) f) db = (Inl e, db) \<and> (healthy env \<longrightarrow> e = errLeaseLost)" for what s f
    using fenced_lost[OF assms, of env what s f] by (auto simp: healthy_def)
  show "\<exists>e. mark_published_body env cfg row lease r db = (Inl e, db) \<and> (healthy env \<longrightarrow> e = errLeaseLost)"
    unfolding mark_published_body_def by (rule bind_failed) (rule lost)
  show "\<exists>e. dead_letter_body env cfg row lease class detail db = (Inl e, db) \<and> (healthy env \<longrightarrow> e = errLeaseLost)"
    unfolding dead_letter_body_def by (rule bind_failed) (rule lost)
  show "\<exists>e. retry_body env cfg row lease class detail jitter db = (Inl e, db) \<and> (healthy env \<longrightarrow> e = errLeaseLost)"
    unfolding retry_body_def Let_def by (rule lost)
qed

lemma fail_row_lost:
  assumes "\<forall>d \<in> set (outbox_delivery db). \<not> held cfg row lease d"
  shows "snd (fail_row env cfg row lease class detail jitter db) = db"
    "fst (fail_row env cfg row lease class detail jitter db) \<noteq> Inr ()"
    "healthy env \<Longrightarrow> fail_row env cfg row lease class detail jitter db = (Inl errLeaseLost, db)"
proof -
  obtain e e' where e: "dead_letter_body env cfg row lease class detail db = (Inl e, db)" "healthy env \<longrightarrow> e = errLeaseLost"
    "retry_body env cfg row lease class detail jitter db = (Inl e', db)" "healthy env \<longrightarrow> e' = errLeaseLost"
    using outcomes_lost(2,3)[OF assms] by metis
  show "snd (fail_row env cfg row lease class detail jitter db) = db"
    "fst (fail_row env cfg row lease class detail jitter db) \<noteq> Inr ()"
    "healthy env \<Longrightarrow> fail_row env cfg row lease class detail jitter db = (Inl errLeaseLost, db)"
    using in_tx_lost[where env = env and fn = "dead_letter_body env cfg row lease class detail", OF e(1)]
      in_tx_lost[where env = env and fn = "retry_body env cfg row lease class detail jitter", OF e(3)] e(2,4)
    by (auto simp: fail_row_def split: disposition.split)
qed

text \<open>
  C4: The lease is a fence: a worker whose lease on a row is gone (taken over, expired and
  reclaimed, closed by another or abandoned) records nothing, neither an outcome nor a receipt nor an incident,
  whatever the consumer answered; and it never reports success.
\<close>

theorem lost_lease_writes_nothing:
  assumes "\<forall>d \<in> set (outbox_delivery db). \<not> held cfg row lease d"
  shows "snd (settle re cfg row lease db) = db \<and> fst (settle re cfg row lease db) \<noteq> Inr ()
    \<and> (healthy (r_env re) \<longrightarrow> fst (settle re cfg row lease db) \<in> {Inl errLeaseLost, Inl errStopped})"
proof (cases "publishable (r_error_text re) row")
  case (Inl detail)
  then show ?thesis using fail_row_lost[OF assms] by (simp add: settle_def)
next
  case p: (Inr e)
  show ?thesis
  proof (cases "r_publish re e")
    case (Inl err)
    with p show ?thesis using fail_row_lost[OF assms] by (simp add: settle_def throw_def)
  next
    case (Inr rcpt)
    obtain e' where e': "mark_published_body (r_env re) cfg row lease rcpt db = (Inl e', db)"
      "healthy (r_env re) \<longrightarrow> e' = errLeaseLost"
      using outcomes_lost(1)[OF assms] by metis
    with p Inr in_tx_lost[where env = "r_env re" and fn = "mark_published_body (r_env re) cfg row lease rcpt", OF e'(1)] show ?thesis by (auto simp: settle_def markPublished_def)
  qed
qed

definition sample_row :: claimed where
  "sample_row = to_claimed empty_database sample_delivery"

definition sample_rowenv :: rowenv where
  "sample_rowenv = \<lparr>r_time = 0, r_others = id, r_env = sample_env, r_publish = (\<lambda>_. Inr TransportReceipt),
     r_error_text = error_text, r_stopped = False, r_cancelled = False, r_jitter = 0\<rparr>"

theorem lost_lease_writes_nothing_witness:
  "\<exists>db. reachable db \<and> outbox_delivery db \<noteq> [] \<and> snd (settle sample_rowenv sample_cfg sample_row ''other'' db) = db"
proof -
  obtain db where db: "reachable db" "outbox_delivery db = [sample_delivery]" using sample_reachable .
  then have "\<forall>d \<in> set (outbox_delivery db). \<not> held sample_cfg sample_row ''other'' d"
    by (simp add: held_def sample_delivery_def new_delivery_def)
  from lost_lease_writes_nothing[OF this] db show ?thesis by auto
qed

lemma held_affected:
  "d \<in> set (outbox_delivery db) \<Longrightarrow> held cfg row lease d \<Longrightarrow> 0 < affected (held cfg row lease) (outbox_delivery db)"
  by (auto simp: affected_pos)

lemma record_receipt_ok: "\<exists>db'. record_receipt env eid consumer typ (Evidence r) db = (Inr (), db')"
  using evidence_two[of r] by (auto simp: record_receipt_def)

lemma dead_letter_statement_ok: "\<exists>db'. dead_letter_statement env created eid class detail n consumer db = (Inr (), db')"
  by (simp add: dead_letter_statement_def split: option.split)

text \<open>What a dead-lettered row leaves: the row closed, the incident there, no receipt.\<close>

definition dead_letter_outcome :: "txenv \<Rightarrow> dconfig \<Rightarrow> claimed \<Rightarrow> uuid_text \<Rightarrow> string \<Rightarrow> database \<Rightarrow> database \<Rightarrow> bool" where
  "dead_letter_outcome env cfg row lease detail db db' \<longleftrightarrow>
     outbox_delivery db' = update_where (held cfg row lease) (stop_redelivery env (attempts row + 1) detail ''poison'') (outbox_delivery db)
     \<and> (eventID row, Some (Consumer cfg)) \<in> letter_key ` set (dead_letters db')
     \<and> delivery_receipts db' = delivery_receipts db"

definition published_outcome :: "txenv \<Rightarrow> dconfig \<Rightarrow> claimed \<Rightarrow> uuid_text \<Rightarrow> database \<Rightarrow> database \<Rightarrow> bool" where
  "published_outcome env cfg row lease db db' \<longleftrightarrow>
     outbox_delivery db' = update_where (held cfg row lease) (close_published env) (outbox_delivery db)
     \<and> (eventID row, Consumer cfg) \<in> receipt_key ` set (delivery_receipts db')
     \<and> set (delivery_receipts db) \<subseteq> set (delivery_receipts db') \<and> dead_letters db' = dead_letters db"

definition retry_outcome :: "txenv \<Rightarrow> dconfig \<Rightarrow> claimed \<Rightarrow> uuid_text \<Rightarrow> string \<Rightarrow> rat \<Rightarrow> database \<Rightarrow> database \<Rightarrow> bool" where
  "retry_outcome env cfg row lease detail jitter db db' \<longleftrightarrow>
     db' = db\<lparr>outbox_delivery := update_where (held cfg row lease)
        (record_failure env (attempts row + 1) detail ''unavailable''
          (backoffFor (BackoffBase cfg) (attempts row + 1) (BackoffMax cfg) jitter)) (outbox_delivery db)\<rparr>"

lemma dead_letter_outcome_reached:
  assumes c: "consistent db" and h: "healthy env" and d: "d \<in> set (outbox_delivery db)" "held cfg row lease d"
  shows "\<exists>db'. fail_row env cfg row lease FailurePoison detail jitter db = (Inr (), db') \<and> dead_letter_outcome env cfg row lease detail db db'"
proof -
  let ?f = "stop_redelivery env (attempts row + 1) detail ''poison''"
  define db1 where "db1 = db\<lparr>outbox_delivery := update_where (held cfg row lease) ?f (outbox_delivery db)\<rparr>"
  obtain db' where st: "dead_letter_statement env (createdAt row) (eventID row) ''poison'' detail (attempts row + 1) (Consumer cfg) db1 = (Inr (), db')"
    using dead_letter_statement_ok by blast
  have "?f d \<in> set (outbox_delivery db1)" using d by (auto simp: db1_def set_update_where)
  then have dl: "\<exists>d \<in> set (outbox_delivery db1). delivery_key d = (createdAt row, eventID row, Consumer cfg)"
    using d(2) by (intro bexI[of _ "?f d"]) (simp_all add: held_def)
  have ev: "\<exists>r \<in> set (outbox db1). o_created_at r = createdAt row \<and> o_event_id r = eventID row"
    using consistent_row[OF c d(1)] d(2) by (auto simp: event_of_def held_def delivery_key_def db1_def)
  have di: "distinct (map letter_key (dead_letters db1))" using c by (simp add: consistent_def db1_def)
  have "dead_letter_body env cfg row lease FailurePoison detail db = (Inr (), db')"
    using st h held_affected[OF d] by (simp add: dead_letter_Inr db1_def healthy_def)
  from in_tx_healthy[of env "dead_letter_body env cfg row lease FailurePoison detail", OF h this] dead_letter_written[OF ev dl st di]
  show ?thesis by (auto simp: fail_row_def decide_def dead_letter_outcome_def db1_def)
qed

lemma retry_outcome_reached:
  assumes h: "healthy env" and d: "d \<in> set (outbox_delivery db)" "held cfg row lease d"
  shows "\<exists>db'. fail_row env cfg row lease FailureUnavailable detail jitter db = (Inr (), db') \<and> retry_outcome env cfg row lease detail jitter db db'"
proof -
  obtain db' where "retry_body env cfg row lease FailureUnavailable detail jitter db = (Inr (), db')"
      "retry_outcome env cfg row lease detail jitter db db'"
    using h held_affected[OF d] by (simp add: retry_body_def Let_def fenced_Inr healthy_def retry_outcome_def)
  with in_tx_healthy[of env "retry_body env cfg row lease FailureUnavailable detail jitter", OF h] show ?thesis
    by (auto simp: fail_row_def decide_def)
qed

lemma published_outcome_reached:
  assumes c: "consistent db" and h: "healthy env" and d: "d \<in> set (outbox_delivery db)" "held cfg row lease d"
  shows "\<exists>db'. markPublished env cfg row lease r db = (Inr (), db') \<and> published_outcome env cfg row lease db db'"
proof -
  define db1 where "db1 = db\<lparr>outbox_delivery := update_where (held cfg row lease) (close_published env) (outbox_delivery db)\<rparr>"
  obtain db' where st: "record_receipt env (eventID row) (Consumer cfg) (eventType row) (Evidence r) db1 = (Inr (), db')"
    using record_receipt_ok by blast
  have di: "distinct (map receipt_key (delivery_receipts db1))" using c by (simp add: consistent_def db1_def)
  have "mark_published_body env cfg row lease r db = (Inr (), db')"
    using st h held_affected[OF d] by (simp add: publish_Inr db1_def healthy_def)
  from in_tx_healthy[of env "mark_published_body env cfg row lease r", OF h this] receipt_written[OF st di]
  show ?thesis by (auto simp: markPublished_def published_outcome_def db1_def)
qed

text \<open>
  C2: A worker that holds its lease and reaches the database records exactly the outcome the design
  names: an accepted publication closes the row and leaves a receipt; a stored envelope that cannot be
  published, or a refusal marked as poison, closes it and leaves an incident and no receipt; any other failure counts the
  attempt, schedules the next one after the backoff and gives the row back; a publication cut short by shutdown
  changes nothing.
\<close>

theorem settle_records_outcome:
  assumes "consistent db" "healthy (r_env re)" "d \<in> set (outbox_delivery db)" "held cfg row lease d"
  shows "case publishable (r_error_text re) row of
      Inl detail \<Rightarrow> \<exists>db'. settle re cfg row lease db = (Inr (), db') \<and> dead_letter_outcome (r_env re) cfg row lease detail db db'
    | Inr e \<Rightarrow>
        (case r_publish re e of
           Inr rcpt \<Rightarrow> \<exists>db'. settle re cfg row lease db = (Inr (), db') \<and> published_outcome (r_env re) cfg row lease db db'
         | Inl err \<Rightarrow>
             if r_stopped re then settle re cfg row lease db = (Inl errStopped, db)
             else let detail = redact_string (r_error_text re err) in
               \<exists>db'. settle re cfg row lease db = (Inr (), db') \<and>
                 (if is_error err ErrPoison then dead_letter_outcome (r_env re) cfg row lease detail db db'
                  else retry_outcome (r_env re) cfg row lease detail (r_jitter re) db db'))"
proof (cases "publishable (r_error_text re) row")
  case (Inl detail)
  then show ?thesis using dead_letter_outcome_reached[OF assms] by (simp add: settle_def)
next
  case p: (Inr e)
  show ?thesis
  proof (cases "r_publish re e")
    case (Inl err)
    with p show ?thesis
      using dead_letter_outcome_reached[OF assms] retry_outcome_reached[OF assms(2-4)]
      by (cases "r_stopped re"; cases "is_error err ErrPoison") (simp_all add: settle_def throw_def classify_def Let_def)
  next
    case (Inr rcpt)
    with p show ?thesis using published_outcome_reached[OF assms] by (simp add: settle_def)
  qed
qed

lemma sample_held:
  obtains db d where "reachable db" "d \<in> set (outbox_delivery db)" "held sample_cfg sample_row ''lease'' d"
proof -
  obtain db where db: "reachable db" "outbox_delivery db = [sample_delivery]" using sample_reachable .
  have cfg: "Consumer sample_cfg = ''crm''" "BatchSize sample_cfg = 100"
    by (simp_all add: sample_cfg_def applyDefaults_def or_default_int_def)
  have "claimable sample_env sample_cfg False sample_delivery"
    by (simp add: claimable_def cfg sample_delivery_def new_delivery_def sample_env_def)
  then have b: "claim_batch sample_env sample_cfg False db = [sample_delivery]" by (simp add: claim_batch_def db cfg)
  obtain batch db' where c: "claim sample_env sample_cfg False ''lease'' db = (Inr batch, db')"
    and d: "outbox_delivery db' = [sample_delivery\<lparr>d_lease_id := Some ''lease'',
       d_leased_until := Some (tx_now sample_env + make_interval (Seconds (LeaseDuration sample_cfg)))\<rparr>]"
    by (simp add: claim_Inr b db(2) update_where_def)
  have "reachable db'" using db(1) c_claim[OF c] unfolding reachable_def by simp
  moreover have "held sample_cfg sample_row ''lease'' (hd (outbox_delivery db'))"
    by (simp add: d held_def sample_row_def to_claimed_def sample_delivery_def new_delivery_def delivery_key_def cfg)
  ultimately show thesis using that[of db' "hd (outbox_delivery db')"] d by simp
qed

theorem settle_records_outcome_witness:
  "\<exists>db db'. reachable db \<and> settle sample_rowenv sample_cfg sample_row ''lease'' db = (Inr (), db')
     \<and> (eventID sample_row, Some ''crm'') \<in> letter_key ` set (dead_letters db')"
proof -
  obtain db d where d: "reachable db" "d \<in> set (outbox_delivery db)" "held sample_cfg sample_row ''lease'' d" using sample_held .
  have h: "healthy (r_env sample_rowenv)" using sample_env_healthy by (simp add: sample_rowenv_def)
  have "\<exists>detail. publishable (r_error_text sample_rowenv) sample_row = Inl detail"
    by (simp add: publishable_def sample_row_def to_claimed_def stored_envelope_def empty_database_def)
  then obtain detail db' where "settle sample_rowenv sample_cfg sample_row ''lease'' db = (Inr (), db')"
    "dead_letter_outcome sample_env sample_cfg sample_row ''lease'' detail db db'"
    using settle_records_outcome[OF reachable_consistent[OF d(1)] h d(2,3)] by (auto simp: sample_rowenv_def)
  moreover have "Consumer sample_cfg = ''crm''" by (simp add: sample_cfg_def applyDefaults_def)
  ultimately show ?thesis using d(1) unfolding dead_letter_outcome_def by metis
qed

section \<open>Cycles\<close>

text \<open>
  C3: A dispatcher cycle, with its claim, its publications, its outcomes and its releases, whatever
  fails and whatever other workers do in between, changes the database only by committed transactions
  of the step relation; so it keeps every invariant of the reachable states, and started in a
  reachable state it ends in one.
\<close>

theorem dispatchOnce_refines_steps:
  assumes "\<And>i db. committed\<^sup>*\<^sup>* db (r_others (y_rows y i) db)"
  shows "committed\<^sup>*\<^sup>* db (snd (dispatchOnce y cfg priorityOnly db))
    \<and> (reachable db \<longrightarrow> reachable (snd (dispatchOnce y cfg priorityOnly db)))"
  using dispatchOnce_steps[OF assms] unfolding reachable_def by (meson rtranclp_trans)

definition sample_cycle :: cycle where
  "sample_cycle = \<lparr>y_lease = Inr (replicate 16 2), y_env = sample_env, y_claimed_at = 0, y_rows = (\<lambda>_. sample_rowenv),
     y_release = sample_env\<rparr>"

theorem dispatchOnce_refines_steps_witness:
  "\<exists>db. outbox_delivery db \<noteq> [] \<and> reachable (snd (dispatchOnce sample_cycle sample_cfg False db))"
proof -
  obtain db where db: "reachable db" "outbox_delivery db = [sample_delivery]" using sample_reachable .
  have "committed\<^sup>*\<^sup>* db (r_others (y_rows sample_cycle i) db)" for i db by (simp add: sample_cycle_def sample_rowenv_def)
  from dispatchOnce_refines_steps[OF this] db show ?thesis by (intro exI[of _ db]) simp
qed

text \<open>A cycle nothing disturbs: the database answers, no one else writes, the lease lasts, and the publisher accepts what it is given.\<close>

definition quiet :: "rowenv \<Rightarrow> time \<Rightarrow> bool" where
  "quiet re deadline \<longleftrightarrow> healthy (r_env re) \<and> (\<forall>db. r_others re db = db) \<and> r_time re \<le> deadline
     \<and> (\<forall>e. \<exists>rcpt. r_publish re e = Inr rcpt)"

definition settled_as :: "claimed \<Rightarrow> delivery \<Rightarrow> bool" where
  "settled_as row d \<longleftrightarrow> (if \<exists>e. publishable (\<lambda>_. []) row = Inr e then delivered d else dead_lettered d)"

lemma publishable_text: "publishable err_text row = Inr e \<longleftrightarrow> publishable err_text' row = Inr e"
  by (auto simp: publishable_def Let_def split: option.splits prod.splits sum.splits if_splits)

lemma settle_closes:
  assumes "consistent db" "quiet re deadline" "d \<in> set (outbox_delivery db)" "held cfg row lease d"
  shows "\<exists>db' f. settle re cfg row lease db = (Inr (), db') \<and> outbox_delivery db' = update_where (held cfg row lease) f (outbox_delivery db)
    \<and> delivery_key (f d) = delivery_key d \<and> d_published (f d) \<and> settled_as row (f d)"
proof -
  have h: "healthy (r_env re)" and acc: "\<And>e. \<exists>rcpt. r_publish re e = Inr rcpt" using assms(2) by (auto simp: quiet_def)
  have o: "d_published_at d = None" using accounted_open consistent_row[OF assms(1,3)] assms(4) by (auto simp: held_def)
  show ?thesis
  proof (cases "publishable (r_error_text re) row")
    case (Inl detail)
    then have "\<nexists>e. publishable (\<lambda>_. []) row = Inr e" using publishable_text by (metis sum.distinct(1))
    moreover obtain db' where "settle re cfg row lease db = (Inr (), db')" "dead_letter_outcome (r_env re) cfg row lease detail db db'"
      using dead_letter_outcome_reached[OF assms(1) h assms(3,4)] Inl by (auto simp: settle_def)
    ultimately show ?thesis
      using o by (intro exI[of _ db'] exI[of _ "stop_redelivery (r_env re) (attempts row + 1) detail ''poison''"])
        (simp add: dead_letter_outcome_def settled_as_def dead_lettered_def stop_redelivery_def delivery_key_def)
  next
    case (Inr e)
    then have "\<exists>e. publishable (\<lambda>_. []) row = Inr e" using publishable_text by blast
    moreover obtain rcpt where "r_publish re e = Inr rcpt" using acc by blast
    moreover obtain db' where "markPublished (r_env re) cfg row lease rcpt db = (Inr (), db')" "published_outcome (r_env re) cfg row lease db db'"
      using published_outcome_reached[OF assms(1) h assms(3,4)] by blast
    ultimately show ?thesis
      using Inr by (intro exI[of _ db'] exI[of _ "close_published (r_env re)"])
        (simp add: settle_def published_outcome_def settled_as_def delivered_def close_published_def delivery_key_def)
  qed
qed

lemma steps_consistent: "committed\<^sup>*\<^sup>* db db' \<Longrightarrow> consistent db \<Longrightarrow> consistent db'"
  by (induction rule: rtranclp_induct) (auto intro: committed_keeps)

lemma settle_batch_closes:
  assumes "\<And>i. quiet (re i) deadline"
  shows "consistent db \<Longrightarrow> distinct (map (\<lambda>r. (createdAt r, eventID r)) rows) \<Longrightarrow>
     \<forall>row \<in> set rows. \<exists>d \<in> set (outbox_delivery db). held cfg row lease d \<Longrightarrow>
     \<exists>db'. settle_batch re rel cfg lease deadline i rows db = (None, db')
       \<and> (\<forall>d \<in> set (outbox_delivery db). (\<forall>row \<in> set rows. \<not> held cfg row lease d) \<longrightarrow> d \<in> set (outbox_delivery db'))
       \<and> (\<forall>row \<in> set rows. \<forall>d \<in> set (outbox_delivery db). held cfg row lease d \<longrightarrow>
            (\<exists>d' \<in> set (outbox_delivery db'). delivery_key d' = delivery_key d \<and> settled_as row d'))"
proof (induction rows arbitrary: i db)
  case (Cons row rows)
  obtain d where d: "d \<in> set (outbox_delivery db)" "held cfg row lease d" using Cons.prems(3) by auto
  obtain db1 f where s: "settle (re i) cfg row lease db = (Inr (), db1)" "outbox_delivery db1 = update_where (held cfg row lease) f (outbox_delivery db)"
    "delivery_key (f d) = delivery_key d" "d_published (f d)" "settled_as row (f d)"
    using settle_closes[OF Cons.prems(1) assms d] by blast
  have c1: "consistent db1" using steps_consistent[OF settle_steps[OF s(1)] Cons.prems(1)] .
  have other: "\<not> held cfg row lease x" if "row' \<in> set rows" "held cfg row' lease x" for row' x
    using Cons.prems(2) that by (force simp: held_def image_iff)
  have keep: "x \<in> set (outbox_delivery db1)" if "x \<in> set (outbox_delivery db)" "\<not> held cfg row lease x" for x
    using that s(2) by (auto simp: set_update_where)
  have "\<forall>row' \<in> set rows. \<exists>x \<in> set (outbox_delivery db1). held cfg row' lease x" using Cons.prems(3) other keep by (metis list.set_intros(2))
  from Cons.IH[OF c1 _ this, of "Suc i"] Cons.prems(2) obtain db' where
    db': "settle_batch re rel cfg lease deadline (Suc i) rows db1 = (None, db')"
    "\<forall>x \<in> set (outbox_delivery db1). (\<forall>row \<in> set rows. \<not> held cfg row lease x) \<longrightarrow> x \<in> set (outbox_delivery db')"
    "\<forall>row \<in> set rows. \<forall>x \<in> set (outbox_delivery db1). held cfg row lease x \<longrightarrow>
       (\<exists>d' \<in> set (outbox_delivery db'). delivery_key d' = delivery_key x \<and> settled_as row d')" by auto
  have "f d \<in> set (outbox_delivery db1)" using d s(2) by (auto simp: set_update_where)
  then have fd: "f d \<in> set (outbox_delivery db')" using db'(2) s(4) by (simp add: held_def)
  have one: "x = d" if "x \<in> set (outbox_delivery db)" "held cfg row lease x" for x
  proof -
    have "inj_on delivery_key (set (outbox_delivery db))" using Cons.prems(1) by (simp add: consistent_def distinct_map)
    moreover have "delivery_key x = delivery_key d" using that(2) d(2) by (simp add: held_def)
    ultimately show ?thesis using that(1) d(1) by (rule inj_onD)
  qed
  have "settle_batch re rel cfg lease deadline i (row # rows) db = (None, db')"
    using assms[of i] s(1) db'(1) by (simp add: quiet_def not_less)
  moreover have "\<forall>x \<in> set (outbox_delivery db). (\<forall>r \<in> set (row # rows). \<not> held cfg r lease x) \<longrightarrow> x \<in> set (outbox_delivery db')"
    using keep db'(2) by simp
  moreover have "\<forall>r \<in> set (row # rows). \<forall>x \<in> set (outbox_delivery db). held cfg r lease x \<longrightarrow>
      (\<exists>d' \<in> set (outbox_delivery db'). delivery_key d' = delivery_key x \<and> settled_as r d')"
    using one fd s(3,5) db'(3) keep other by (metis set_ConsD)
  ultimately show ?case by blast
qed simp

lemma batch_keys:
  assumes "consistent db" "claim env cfg p lease db = (Inr batch, db')"
  shows "distinct (map (\<lambda>r. (createdAt r, eventID r)) batch)"
proof -
  let ?B = "set (claim_batch env cfg p db)"
  have k: "inj_on delivery_key (set (outbox_delivery db))" using assms(1) by (simp add: consistent_def distinct_map)
  have "x = y" if "x \<in> ?B" "y \<in> ?B" "(d_created_at x, d_event_id x) = (d_created_at y, d_event_id y)" for x y
    using that batch_claimable[of x] batch_claimable[of y] inj_onD[OF k, of x y] by (simp add: delivery_key_def claimable_def)
  then have "inj_on ((\<lambda>r. (createdAt r, eventID r)) \<circ> to_claimed db) ?B" by (intro inj_onI) (simp add: to_claimed_def)
  then have "card ((\<lambda>r. (createdAt r, eventID r)) ` set batch) = length batch"
    unfolding claim_effect(2,3)[OF assms] image_image by (metis (no_types, lifting) card_image comp_apply image_cong)
  then show ?thesis by (intro card_distinct) simp
qed

text \<open>
  C10: What is due gets delivered: in every reachable state, when the due deliveries of a consumer fit into a batch, one cycle of its dispatcher that nothing disturbs
  (the database answers, no other worker writes in between, the rows are settled before the lease ends and the publisher accepts what it is given)
  ends without an error, has claimed every due delivery and has closed each: as delivered, with its receipt, when its stored envelope is publishable, and as
  dead-lettered, with its incident, when it is not. A lease that has expired or a failed attempt whose delay is over does not keep a delivery from being due.
\<close>

theorem quiet_cycle_delivers:
  assumes "reachable db" "y_lease y = Inr leaseID" "healthy (y_env y)"
    and "\<forall>i. healthy (r_env (y_rows y i)) \<and> (\<forall>db. r_others (y_rows y i) db = db)
      \<and> r_time (y_rows y i) \<le> y_claimed_at y + sint (LeaseDuration cfg) \<and> (\<forall>e. \<exists>rcpt. r_publish (y_rows y i) e = Inr rcpt)"
    and "due_rows = {d \<in> set (outbox_delivery db). d_consumer d = Consumer cfg \<and> \<not> d_published d
      \<and> (\<forall>t. d_next_attempt_at d = Some t \<longrightarrow> t \<le> tx_now (y_env y)) \<and> (\<forall>t. d_leased_until d = Some t \<longrightarrow> t \<le> tx_now (y_env y))
      \<and> (priorityOnly \<longrightarrow> d_priority d = 0) \<and> \<not> row_locked (y_env y) (delivery_key d)}"
    and "card due_rows \<le> nat (BatchSize cfg)"
  shows "\<exists>db'. dispatchOnce y cfg priorityOnly db = ((card due_rows, None), db')
    \<and> (\<forall>d \<in> due_rows. \<exists>d' \<in> set (outbox_delivery db'). delivery_key d' = delivery_key d
        \<and> (if \<exists>e. publishable err_text (to_claimed db d) = Inr e then delivered d' \<and> has_receipt db' d'
           else dead_lettered d' \<and> has_incident db' d'))"
proof -
  let ?B = "claim_batch (y_env y) cfg priorityOnly db" and ?lease = "String leaseID"
  have c: "consistent db" by (rule reachable_consistent[OF assms(1)])
  then have key: "distinct (map delivery_key (outbox_delivery db))" by (simp add: consistent_def)
  have due: "due_rows = due (y_env y) cfg priorityOnly db" by (simp add: assms(5) due_def)
  note b = claim_batch_due[OF key, of "y_env y" cfg priorityOnly]
  have all: "set ?B = due_rows"
    using b(1,2) assms(6) due by (intro card_subset_eq) (auto simp: due_def)
  obtain batch db1 where cl: "claim (y_env y) cfg priorityOnly ?lease db = (Inr batch, db1)"
    using assms(3) by (simp add: claim_Inr healthy_def)
  note e = claim_effect[OF c cl]
  have c1: "consistent db1" using claim_keeps[OF c cl] .
  have held: "\<exists>d1 \<in> set (outbox_delivery db1). held cfg (to_claimed db d) ?lease d1 \<and> delivery_key d1 = delivery_key d" if "d \<in> due_rows" for d
    using that all e(1) by (intro bexI[of _ "d\<lparr>d_lease_id := Some ?lease,
        d_leased_until := Some (tx_now (y_env y) + make_interval (Seconds (LeaseDuration cfg)))\<rparr>"])
      (auto simp: held_def to_claimed_def delivery_key_def assms(5) image_iff)
  let ?deadline = "y_claimed_at y + sint (LeaseDuration cfg)"
  have q: "quiet (y_rows y i) ?deadline" for i using assms(4) by (simp add: quiet_def)
  have "\<forall>row \<in> set batch. \<exists>d \<in> set (outbox_delivery db1). held cfg row ?lease d" using e(2) all held by auto
  from settle_batch_closes[where re = "y_rows y" and rel = "y_release y" and i = 0, OF q c1 batch_keys[OF c cl] this] obtain db' where
    db': "settle_batch (y_rows y) (y_release y) cfg ?lease ?deadline 0 batch db1 = (None, db')"
    "\<forall>row \<in> set batch. \<forall>d \<in> set (outbox_delivery db1). held cfg row ?lease d \<longrightarrow>
       (\<exists>d' \<in> set (outbox_delivery db'). delivery_key d' = delivery_key d \<and> settled_as row d')" by blast
  have "in_tx (y_env y) (claim (y_env y) cfg priorityOnly ?lease) db = (Inr batch, db1)" by (rule in_tx_healthy[OF assms(3)]) (rule cl)
  then have run: "dispatchOnce y cfg priorityOnly db = ((card due_rows, None), db')"
    using db'(1) e(3) all by (simp add: dispatchOnce_def assms(2) Let_def)
  have "committed\<^sup>*\<^sup>* x (r_others (y_rows y i) x)" for i x using assms(4) by simp
  then have c': "consistent db'" using steps_consistent[OF dispatchOnce_steps c, of y cfg priorityOnly] run by simp
  have "\<exists>d' \<in> set (outbox_delivery db'). delivery_key d' = delivery_key d
      \<and> (if \<exists>e. publishable err_text (to_claimed db d) = Inr e then delivered d' \<and> has_receipt db' d' else dead_lettered d' \<and> has_incident db' d')"
    if dd: "d \<in> due_rows" for d
  proof -
    obtain d' where d': "d' \<in> set (outbox_delivery db')" "delivery_key d' = delivery_key d" "settled_as (to_claimed db d) d'"
      using held[OF dd] db'(2) e(2) all dd by (metis imageI)
    have "accounted db' d'" using consistent_row[OF c' d'(1)] by simp
    then show ?thesis using d' publishable_text[of err_text "to_claimed db d" _ "\<lambda>_. []"]
      by (intro bexI[OF _ d'(1)]) (auto simp: settled_as_def accounted_def owed_def delivered_def dead_lettered_def abandoned_def split: if_splits)
  qed
  with run show ?thesis by blast
qed

theorem quiet_cycle_delivers_witness:
  "\<exists>db db' d'. reachable db \<and> outbox_delivery db = [sample_delivery] \<and> dispatchOnce sample_cycle sample_cfg False db = ((1, None), db')
     \<and> d' \<in> set (outbox_delivery db') \<and> delivery_key d' = delivery_key sample_delivery \<and> d_published d'"
proof -
  obtain db where db: "reachable db" "outbox_delivery db = [sample_delivery]" using sample_reachable .
  have cfg: "Consumer sample_cfg = ''crm''" "BatchSize sample_cfg = 100" by (simp_all add: sample_cfg_def applyDefaults_def or_default_int_def)
  have l: "0 \<le> sint (LeaseDuration sample_cfg)" by code_simp
  define rows where "rows = {d \<in> set (outbox_delivery db). d_consumer d = Consumer sample_cfg \<and> \<not> d_published d
      \<and> (\<forall>t. d_next_attempt_at d = Some t \<longrightarrow> t \<le> tx_now (y_env sample_cycle)) \<and> (\<forall>t. d_leased_until d = Some t \<longrightarrow> t \<le> tx_now (y_env sample_cycle))
      \<and> (False \<longrightarrow> d_priority d = 0) \<and> \<not> row_locked (y_env sample_cycle) (delivery_key d)}"
  have r: "rows = {sample_delivery}"
    unfolding rows_def using db(2) cfg by (auto simp: sample_delivery_def new_delivery_def sample_cycle_def sample_env_def)
  have y: "y_lease sample_cycle = Inr (replicate 16 2)" "healthy (y_env sample_cycle)"
    "\<forall>i. healthy (r_env (y_rows sample_cycle i)) \<and> (\<forall>db. r_others (y_rows sample_cycle i) db = db)
      \<and> r_time (y_rows sample_cycle i) \<le> y_claimed_at sample_cycle + sint (LeaseDuration sample_cfg) \<and> (\<forall>e. \<exists>rcpt. r_publish (y_rows sample_cycle i) e = Inr rcpt)"
    using sample_env_healthy l by (simp_all add: sample_cycle_def sample_rowenv_def)
  from quiet_cycle_delivers[OF db(1) y rows_def, of error_text] obtain db' where d': "dispatchOnce sample_cycle sample_cfg False db = ((card rows, None), db')"
    "\<forall>d \<in> rows. \<exists>d' \<in> set (outbox_delivery db'). delivery_key d' = delivery_key d
        \<and> (if \<exists>e. publishable error_text (to_claimed db d) = Inr e then delivered d' \<and> has_receipt db' d' else dead_lettered d' \<and> has_incident db' d')"
    by (auto simp: r cfg)
  then show ?thesis using db unfolding r by (auto simp: delivered_def dead_lettered_def split: if_splits)
qed

section \<open>Workers\<close>

lemma poll_delay_bounds:
  assumes "0 < sint (Interval cfg)" "sint (Interval cfg) < 2 ^ 53" "0 < sint (IdleInterval cfg)"
  shows "0 < sint (poll_delay cfg n)" "sint (poll_delay cfg n) \<le> max (sint (Interval cfg)) (sint (IdleInterval cfg))"
proof -
  have "sint (poll_delay cfg n) = (if n < 1 then sint (Interval cfg)
      else min (sint (Interval cfg) * 2 ^ nat (min 10 (n - 1))) (sint (IdleInterval cfg)))"
    using delay_value[OF assms, of n] by (simp add: poll_delay_def)
  with assms show "0 < sint (poll_delay cfg n)" "sint (poll_delay cfg n) \<le> max (sint (Interval cfg)) (sint (IdleInterval cfg))"
    by (simp_all add: max.coboundedI2)
qed

lemma work_waits_step:
  assumes "0 < sint (Interval cfg)" "sint (Interval cfg) < 2 ^ 53" "0 < sint (IdleInterval cfg)"
  shows "work cfg n (z # zs) =
     (if z_cancelled z then ([], True)
      else let n' = next_empty n z in
        if \<not> z_timer_first z then ([poll_delay cfg n'], True)
        else (poll_delay cfg n' # fst (work cfg n' zs), snd (work cfg n' zs)))"
  using poll_delay_bounds(1)[OF assms, of "next_empty n z"]
  by (simp add: Let_def wait_def word_sle_eq word_sless_alt split: prod.split)

lemma work_waits_induct:
  assumes "0 < sint (Interval cfg)" "sint (Interval cfg) < 2 ^ 53" "0 < sint (IdleInterval cfg)"
  shows "(\<forall>w \<in> set (fst (work cfg n zs)). 0 < sint w \<and> sint w \<le> max (sint (Interval cfg)) (sint (IdleInterval cfg)))
    \<and> (snd (work cfg n zs) \<longleftrightarrow> (\<exists>z \<in> set zs. z_cancelled z \<or> \<not> z_timer_first z))"
proof (induction zs arbitrary: n)
  case (Cons z zs)
  then show ?case
    using poll_delay_bounds[OF assms, of "next_empty n z"] by (auto simp: work_waits_step[OF assms] Let_def simp del: work.simps)
qed simp

text \<open>
  C27: A worker never spins and never sleeps past its bounds: with its configured intervals positive (and the polling
  interval below \<open>2^53\<close> nanoseconds, some 104 days) every delay it waits between cycles, whatever the cycles returned, is positive and at
  most the larger of the two; and it returns exactly when its context is cancelled, at the head of a cycle or during a wait.
\<close>

theorem work_waits:
  assumes "0 < sint (Interval cfg)" "sint (Interval cfg) < 2 ^ 53" "0 < sint (IdleInterval cfg)"
  shows "(\<forall>w \<in> set (fst (work cfg 0 zs)). 0 < sint w \<and> sint w \<le> max (sint (Interval cfg)) (sint (IdleInterval cfg)))
    \<and> (snd (work cfg 0 zs) \<longleftrightarrow> (\<exists>z \<in> set zs. z_cancelled z \<or> \<not> z_timer_first z))"
  by (rule work_waits_induct[OF assms])

theorem work_waits_witness:
  "snd (work sample_cfg 0 [\<lparr>z_cancelled = False, z_claimed = 0, z_error = None, z_cancelled_at_wait = False, z_timer_first = True\<rparr>,
      \<lparr>z_cancelled = True, z_claimed = 0, z_error = None, z_cancelled_at_wait = False, z_timer_first = True\<rparr>])"
proof -
  have "0 < sint (Interval sample_cfg)" "sint (Interval sample_cfg) < 2 ^ 53" "0 < sint (IdleInterval sample_cfg)"
    by code_simp+
  from work_waits[OF this] show ?thesis by (simp del: work.simps)
qed

end
