(* ===== verification/Producing.thy ===== *)
theory Producing
  imports Guarantees
begin

text \<open>
  What a producer is promised by \<^verbatim>\<open>Append\<close> and the subscription operations of
  \<^verbatim>\<open>src/outbox\<close>: stream positions are unique and increase in append order, an event owes one delivery to every subscriber,
  the envelope a dispatcher later publishes is the one the producer appended, and what subscribing, unsubscribing
  and abandoning leave behind.
\<close>

section \<open>The stream\<close>

definition outbox_key :: "outbox_row \<Rightarrow> time \<times> uuid_text" where
  "outbox_key r = (o_created_at r, o_event_id r)"

definition ordered_stream :: "database \<Rightarrow> bool" where
  "ordered_stream db \<longleftrightarrow> distinct (map outbox_key (outbox db)) \<and> 0 \<le> outbox_sequence db
     \<and> sorted_wrt (<) (map o_sequence (outbox db)) \<and> (\<forall>r \<in> set (outbox db). 0 < o_sequence r \<and> o_sequence r \<le> outbox_sequence db)"

lemma release_outbox:
  "release_body env cfg rows lease db = (Inr (), db') \<Longrightarrow> outbox db' = outbox db \<and> outbox_sequence db' = outbox_sequence db"
proof (induction env cfg rows lease arbitrary: db rule: release_body.induct)
  case (2 env cfg row rows lease)
  then show ?case by (fastforce simp: stm_Inr update_deliveries_def)
qed simp

lemma dead_letter_outbox:
  "dead_letter_statement env created eid class detail n consumer db = (Inr (), db') \<Longrightarrow>
     outbox db' = outbox db \<and> outbox_sequence db' = outbox_sequence db"
  by (auto simp: dead_letter_statement_def split: option.splits if_splits)

lemma receipt_outbox:
  "record_receipt env eid consumer typ ev db = (Inr (), db') \<Longrightarrow> outbox db' = outbox db \<and> outbox_sequence db' = outbox_sequence db"
  by (auto simp: record_receipt_def split: if_splits)

lemma append_stream:
  assumes "append_statement env eid typ agg prio payload envelope only db = (Inr n, db')" "ordered_stream db"
  shows "ordered_stream db' \<and> prefix (outbox db) (outbox db') \<and> outbox_sequence db \<le> outbox_sequence db'"
  using append_statement_Inr(1,3,10)[OF assms(1)] assms(2)
  by (fastforce simp: ordered_stream_def outbox_key_def sorted_wrt_append)

lemma committed_stream:
  "committed db db' \<Longrightarrow> ordered_stream db \<Longrightarrow>
     ordered_stream db' \<and> prefix (outbox db) (outbox db') \<and> outbox_sequence db \<le> outbox_sequence db'"
proof (induction rule: committed.induct)
  case (c_append env tx agg e opts db db')
  from c_append(1) show ?case by (rule Append_Inr) (rule append_stream, assumption, rule c_append(2))
next
  case (c_subscribe env tx consumer types db db')
  then show ?case by (auto dest!: Subscribe_frame simp: ordered_stream_def)
next
  case (c_unsubscribe env tx consumer db db')
  then show ?case by (auto dest!: Unsubscribe_frame simp: ordered_stream_def)
next
  case (c_abandon env tx consumer reason db n db')
  then show ?case by (auto dest!: Abandon_Inr(2) simp: abandon_statement_def Let_def ordered_stream_def)
next
  case (c_claim env cfg p lease db batch db')
  then show ?case by (auto simp: claim_Inr ordered_stream_def)
next
  case (c_publish env cfg row lease r db db')
  then show ?case by (auto simp: publish_Inr ordered_stream_def dest!: receipt_outbox)
next
  case (c_dead_letter env cfg row lease detail db db')
  then show ?case by (auto simp: dead_letter_Inr ordered_stream_def dest!: dead_letter_outbox)
next
  case (c_retry cls env cfg row lease detail jitter db db')
  then show ?case by (auto simp: retry_body_def Let_def fenced_Inr ordered_stream_def)
next
  case (c_release env cfg rows lease db db')
  then show ?case by (auto simp: ordered_stream_def dest!: release_outbox)
next
  case (c_gap db n)
  then show ?case by (fastforce simp: ordered_stream_def discard_def)
qed

lemma steps_stream:
  "committed\<^sup>*\<^sup>* db db' \<Longrightarrow> ordered_stream db \<Longrightarrow> ordered_stream db' \<and> prefix (outbox db) (outbox db')"
  by (induction rule: rtranclp_induct) (auto dest!: committed_stream intro: prefix_order.trans)

lemma ordered_empty: "ordered_stream empty_database"
  by (simp add: ordered_stream_def empty_database_def)

text \<open>
  C28: The outbox is an append-only stream: whatever transactions commit, in whatever order, the events already
  there stay unchanged and in place, no event is stored twice under one key, and the stream positions are positive, unique and
  increase in the order of the appends.
\<close>

theorem stream_append_only:
  assumes "reachable db" "committed\<^sup>*\<^sup>* db db'"
  shows "(\<exists>new. outbox db' = outbox db @ new) \<and> distinct (map outbox_key (outbox db'))
    \<and> sorted_wrt (<) (map o_sequence (outbox db')) \<and> (\<forall>r \<in> set (outbox db'). 0 < o_sequence r)"
proof -
  have "ordered_stream db" using steps_stream[OF _ ordered_empty] assms(1) by (simp add: reachable_def)
  from steps_stream[OF assms(2) this] show ?thesis by (auto simp: ordered_stream_def prefix_def)
qed

theorem stream_append_only_witness:
  "\<exists>db. reachable db \<and> outbox_delivery db \<noteq> [] \<and> sorted_wrt (<) (map o_sequence (outbox db))"
proof -
  obtain db where db: "reachable db" "outbox_delivery db = [sample_delivery]" using sample_reachable .
  from stream_append_only[OF db(1) rtranclp.rtrancl_refl] db show ?thesis by auto
qed

section \<open>Appending\<close>

text \<open>The envelope as the row has it: the members of the wire struct in the order of \<^verbatim>\<open>jsonb\<close>, the position among them.\<close>

lemma jsonb_envelope:
  assumes "encode_wire w = Inr j" "w_Data w = Document d"
  shows "jsonb_set (jsonb j) ''streamposition'' (JNum (show_int pos)) = JObj (
      [(''id'', json_string (MarshalText (w_ID w))), (''data'', jsonb d), (''time'', json_string (w_Time w)),
       (''type'', json_string (w_Type w)), (''source'', json_string (w_Source w))]
      @ (if w_DataSchema w = '''' then [] else [(''dataschema'', json_string (w_DataSchema w))])
      @ [(''specversion'', json_string (w_SpecVersion w)), (''streamposition'', JNum (show_int pos)),
         (''datacontenttype'', json_string (w_DataContentType w))])"
  using assms
  by (auto simp: encode_wire_def jsonb_set_def put_all_def jsonb_less_def json_string_def)

text \<open>The envelope a claim reads: the producer's, its data in normal form and its position set.\<close>

definition stored_form :: "envelope \<Rightarrow> json \<Rightarrow> int \<Rightarrow> envelope" where
  "stored_form e payload pos = WithStreamPosition (e\<lparr>e_Data := Document (jsonb payload)\<rparr>) pos"

lemma decode_stamped:
  assumes "wf_envelope e" "MarshalJSON e = Inr j" "e_Data e = Document payload" "0 < pos" "pos < 2 ^ 63"
  shows "decode_wire (jsonb_set (jsonb j) ''streamposition'' (JNum (show_int pos))) = Inr (wire_of (stored_form e payload pos))"
proof -
  let ?w = "wire_of (stored_form e payload pos)"
  have "wf_envelope (stored_form e payload pos)"
    using assms(1,4,5) by (simp add: wf_envelope_def stored_form_def WithStreamPosition_def)
  moreover have "Validate (stored_form e payload pos) = Inr ()"
    using assms(2,4) by (auto simp: MarshalJSON_Inr Validate_Inr stored_form_def WithStreamPosition_def)
  ultimately have w: "wf_wire ?w" by (rule wf_wire_of)
  have "decode_wire (JObj (
      [(''id'', json_string (MarshalText (w_ID ?w))), (''data'', jsonb payload), (''time'', json_string (w_Time ?w)),
       (''type'', json_string (w_Type ?w)), (''source'', json_string (w_Source ?w))]
      @ (if w_DataSchema ?w = '''' then [] else [(''dataschema'', json_string (w_DataSchema ?w))])
      @ [(''specversion'', json_string (w_SpecVersion ?w)), (''streamposition'', JNum (show_int (w_StreamPosition ?w))),
         (''datacontenttype'', json_string (w_DataContentType ?w))])) = Inr (?w\<lparr>w_Data := Document (jsonb payload)\<rparr>)"
    unfolding decode_wire_def decode_struct_def
    by (simp add: wf_wire_set[OF w] decode_members_append match_field_def wire_fields_def zero_wire_def)
  moreover have "encode_wire (wire_of e) = Inr j" "w_Data (wire_of e) = Document payload"
    using assms(2,3) by (simp_all add: MarshalJSON_Inr wire_of_def)
  note jsonb_envelope[OF this, of pos]
  ultimately show ?thesis
    by (cases "e_DataSchema e = ''''") (simp_all add: wire_of_def stored_form_def WithStreamPosition_def)
qed

lemma publishable_stamped:
  assumes "wf_envelope e" "MarshalJSON e = Inr j" "e_Data e = Document payload" "0 < pos" "pos < 2 ^ 63"
    "claimed_envelope row = Some (jsonb_set (jsonb j) ''streamposition'' (JNum (show_int pos)))" "position row = pos"
  shows "publishable err_text row = Inr (stored_form e payload pos)"
proof -
  let ?e = "stored_form e payload pos"
  have v: "Validate ?e = Inr ()"
    using assms(2,4) by (auto simp: MarshalJSON_Inr Validate_Inr stored_form_def WithStreamPosition_def)
  have "wf_envelope ?e" using assms(1,4,5) by (simp add: wf_envelope_def stored_form_def WithStreamPosition_def)
  from UnmarshalJSON_ok[OF decode_stamped[OF assms(1-5)] parse_wire_time[OF this], of zero_envelope] v
  have "UnmarshalJSON zero_envelope (jsonb_set (jsonb j) ''streamposition'' (JNum (show_int pos))) = (?e, Inr ())"
    by (simp add: candidate_wire_of)
  moreover have "WithStreamPosition ?e pos = ?e" "e_StreamPosition ?e = pos" by (simp_all add: stored_form_def WithStreamPosition_def)
  ultimately show ?thesis using v assms(4,6,7) by (simp add: publishable_def Let_def ValidatePublished_def)
qed

lemma find_unique:
  "distinct (map f xs) \<Longrightarrow> x \<in> set xs \<Longrightarrow> find (\<lambda>y. f y = f x) xs = Some x"
  by (induction xs) (auto simp: image_iff)

text \<open>The row of an append is still there, and its deliveries carry its position.\<close>

lemma appended_row:
  assumes "reachable db" "append_statement env eid typ agg prio payload envelope only db = (Inr n, db1)" "reachable db1"
    "committed\<^sup>*\<^sup>* db1 db2" "d \<in> set (outbox_delivery db2)" "d_created_at d = tx_now env" "d_event_id d = eid"
  shows "stored_envelope db2 d = Some (jsonb_set (jsonb envelope) ''streamposition'' (JNum (show_int (outbox_sequence db + 1))))"
    "d_sequence d = outbox_sequence db + 1" "0 \<le> outbox_sequence db"
proof -
  have o: "ordered_stream db" "ordered_stream db1"
    using steps_stream[OF _ ordered_empty] assms(1,3) by (simp_all add: reachable_def)
  note s = steps_stream[OF assms(4) o(2)]
  obtain r where r: "r \<in> set (outbox db1)" "outbox_key r = (tx_now env, eid)" "o_sequence r = outbox_sequence db + 1"
    "o_envelope r = jsonb_set (jsonb envelope) ''streamposition'' (JNum (show_int (outbox_sequence db + 1)))"
    by (rule that[of "last (outbox db1)"]) (simp_all add: append_statement_Inr(3)[OF assms(2)] outbox_key_def)
  have r2: "r \<in> set (outbox db2)" using r(1) s by (auto simp: prefix_def)
  have di: "distinct (map outbox_key (outbox db2))" using s by (simp add: ordered_stream_def)
  have "reachable db2" using assms(3,4) by (auto simp: reachable_def)
  then have "event_of db2 d" using assms(5) consistent_row[OF reachable_consistent] by blast
  then obtain r' where r': "r' \<in> set (outbox db2)" "outbox_key r' = outbox_key r" "o_sequence r' = d_sequence d"
    using r(2) assms(6,7) by (auto simp: event_of_def outbox_key_def)
  then have "r' = r" using di r2 by (auto simp: distinct_map dest: inj_onD)
  with r'(3) r(3) show "d_sequence d = outbox_sequence db + 1" by simp
  show "0 \<le> outbox_sequence db" using o(1) by (simp add: ordered_stream_def)
  have "(\<lambda>y. o_created_at y = d_created_at d \<and> o_event_id y = d_event_id d) = (\<lambda>y. outbox_key y = outbox_key r)"
    using r(2) assms(6,7) by (auto simp: outbox_key_def)
  then show "stored_envelope db2 d = Some (jsonb_set (jsonb envelope) ''streamposition'' (JNum (show_int (outbox_sequence db + 1))))"
    using find_unique[OF di r2] r(4) by (simp add: stored_envelope_def)
qed

text \<open>
  C13: What is published is what was appended: after a committed \<^verbatim>\<open>Append\<close>, and whatever commits after it, every
  delivery of that event, when a dispatcher claims it, is publishable and decodes to the producer's envelope with its stream
  position set to the event's place in the stream and with its data in the normal form of the \<^verbatim>\<open>jsonb\<close> column: the data says what the
  producer's data said (the same members, each name once with the last of its values, the same elements and texts, numbers of the same value), while the order of its
  members and the spelling of its numbers may differ. No appended event is ever dead-lettered as undecodable.
\<close>

theorem published_as_appended:
  assumes "reachable db" "wf_envelope e" "Append env tx agg e opts db = (Inr (), db1)" "committed\<^sup>*\<^sup>* db1 db2"
    "d \<in> set (outbox_delivery db2)" "d_created_at d = tx_now env" "d_event_id d = String (e_ID e)"
  shows "\<exists>payload. e_Data e = Document payload
    \<and> publishable err_text (to_claimed db2 d) =
        Inr (e\<lparr>e_Data := Document (jsonb payload), e_StreamPosition := outbox_sequence db + 1\<rparr>)
    \<and> denotes (jsonb payload) = denotes payload \<and> unique_members (jsonb payload)"
proof -
  have "reachable db1" using assms(1) c_append[OF assms(3)] by (simp add: reachable_def)
  from assms(3) obtain p envelope n where a: "MarshalJSON e = Inr envelope"
    "append_statement env (String (e_ID e)) (e_Type e) (String agg) (a_priority (resolve_options opts)) p envelope
       (a_only (resolve_options opts)) db = (Inr n, db1)" by (rule Append_Inr)
  obtain payload where p: "e_Data e = Document payload" using marshalled_data[OF a(1)] by blast
  note r = appended_row[OF assms(1) a(2) \<open>reachable db1\<close> assms(4-7)]
  have "publishable err_text (to_claimed db2 d) = Inr (stored_form e payload (outbox_sequence db + 1))"
    by (rule publishable_stamped[OF assms(2) a(1) p])
      (use r append_statement_Inr(2)[OF a(2)] in \<open>simp_all add: to_claimed_def\<close>)
  then show ?thesis using p jsonb_denotes jsonb_unique by (simp add: stored_form_def WithStreamPosition_def)
qed

theorem published_as_appended_witness:
  "\<exists>db. reachable db \<and> sample_delivery \<in> set (outbox_delivery db)
     \<and> publishable error_text (to_claimed db sample_delivery) = Inr (sample_envelope\<lparr>e_StreamPosition := 1\<rparr>)"
proof -
  have r: "reachable sample_subscribed" unfolding reachable_def using c_subscribe[OF sample_subscribe] by (rule r_into_rtranclp)
  obtain db where db: "Append sample_env sample_tx (replicate 16 1) sample_envelope [] sample_subscribed = (Inr (), db)"
    "outbox_delivery db = [sample_delivery]" using sample_append by metis
  have "reachable db" using r c_append[OF db(1)] by (simp add: reachable_def)
  moreover have "outbox_sequence sample_subscribed = 0" by (simp add: sample_subscribed_def empty_database_def)
  moreover have "d_created_at sample_delivery = tx_now sample_env" "d_event_id sample_delivery = String (e_ID sample_envelope)"
    by (simp_all add: sample_delivery_def new_delivery_def sample_env_def)
  moreover have "numeric_text ''1'' = ''1''" by code_simp
  then have "sample_envelope\<lparr>e_Data := Document (jsonb p)\<rparr> = sample_envelope" if "e_Data sample_envelope = Document p" for p
    using that by (auto simp: sample_envelope_def put_all_def)
  ultimately show ?thesis
    using published_as_appended[OF r sample_wf db(1) rtranclp.rtrancl_refl, of sample_delivery error_text] db(2)
    by (intro exI[of _ db]) auto
qed

section \<open>Subscriptions\<close>

definition single_active :: "database \<Rightarrow> bool" where
  "single_active db \<longleftrightarrow> distinct (map s_consumer (filter active (subscriptions db)))"

lemma retired_active:
  "filter active (update_where (\<lambda>s. s_consumer s = c \<and> active s) (\<lambda>s. s\<lparr>s_retired_at := Some ts\<rparr>) ss)
     = filter (\<lambda>s. s_consumer s \<noteq> c) (filter active ss)"
  by (induction ss) (auto simp: update_where_def active_def)

lemma retire_effect:
  assumes "retire_statement env c db = (Inr n, db')"
  shows "filter active (subscriptions db') = filter (\<lambda>s. s_consumer s \<noteq> c) (filter active (subscriptions db))"
    "subscriptions db' = update_where (\<lambda>s. s_consumer s = c \<and> active s)
       (\<lambda>s. s\<lparr>s_retired_at := Some (stmt_now env RetireSubscription)\<rparr>) (subscriptions db)"
  using assms by (auto simp: retire_statement_def Let_def retired_active split: if_splits)

lemma insert_effect:
  assumes "insert_subscription env c types db = (Inr n, db')"
  shows "subscriptions db' = subscriptions db @ [\<lparr>s_consumer = c, s_event_types = types,
       s_subscribed_at = stmt_now env InsertSubscription, s_retired_at = None\<rparr>]"
    "\<forall>s \<in> set (subscriptions db). s_consumer s = c \<longrightarrow> \<not> active s"
  using assms by (auto simp: insert_subscription_def Let_def split: if_splits)

lemma Subscribe_Inr:
  assumes "Subscribe env tx consumer eventTypes db = (Inr (), db')"
  obtains types n m db1 where "collect_types eventTypes [] = Inr types" "trim_space consumer \<noteq> ''''" "eventTypes \<noteq> []"
    "retire_statement env (trim_space consumer) db = (Inr n, db1)"
    "insert_subscription env (trim_space consumer) types db1 = (Inr m, db')"
  using assms by (auto simp: Subscribe_def Let_def stm_Inr split: if_splits sum.splits)

lemma Unsubscribe_Inr:
  assumes "Unsubscribe env tx consumer db = (Inr (), db')"
  obtains n where "retire_statement env (trim_space consumer) db = (Inr n, db')"
  using assms by (auto simp: Unsubscribe_def Let_def stm_Inr split: if_splits)

lemma insert_single_active:
  "insert_subscription env c types db = (Inr n, db') \<Longrightarrow> single_active db \<Longrightarrow> single_active db'"
  by (frule insert_effect(1), drule insert_effect(2)) (auto simp: single_active_def active_def)

lemma retire_single_active: "retire_statement env c db = (Inr n, db') \<Longrightarrow> single_active db \<Longrightarrow> single_active db'"
  unfolding single_active_def by (drule retire_effect(1)) (metis distinct_map_filter)

lemma dead_letter_subscriptions:
  "dead_letter_statement env created eid class detail n consumer db = (Inr (), db') \<Longrightarrow> subscriptions db' = subscriptions db"
  by (auto simp: dead_letter_statement_def split: option.splits if_splits)

lemma receipt_subscriptions: "record_receipt env eid consumer typ ev db = (Inr (), db') \<Longrightarrow> subscriptions db' = subscriptions db"
  by (auto simp: record_receipt_def split: if_splits)

lemma release_subscriptions:
  "release_body env cfg rows lease db = (Inr (), db') \<Longrightarrow> subscriptions db' = subscriptions db"
proof (induction env cfg rows lease arbitrary: db rule: release_body.induct)
  case (2 env cfg row rows lease)
  then show ?case by (fastforce simp: stm_Inr update_deliveries_def)
qed simp

lemma committed_single_active: "committed db db' \<Longrightarrow> single_active db \<Longrightarrow> single_active db'"
proof (induction rule: committed.induct)
  case (c_append env tx agg e opts db db')
  from c_append(1) show ?case by (rule Append_Inr) (drule append_statement_Inr(6), use c_append(2) in \<open>simp add: single_active_def\<close>)
next
  case (c_subscribe env tx consumer types db db')
  from c_subscribe(1) show ?case
    by (rule Subscribe_Inr) (use c_subscribe(2) in \<open>blast intro: insert_single_active retire_single_active\<close>)
next
  case (c_unsubscribe env tx consumer db db')
  from c_unsubscribe(1) show ?case by (rule Unsubscribe_Inr) (use c_unsubscribe(2) in \<open>blast intro: retire_single_active\<close>)
next
  case (c_abandon env tx consumer reason db n db')
  then show ?case by (auto dest!: Abandon_Inr(2) simp: abandon_statement_def Let_def single_active_def)
next
  case (c_release env cfg rows lease db db')
  then show ?case by (auto simp: single_active_def dest!: release_subscriptions)
qed (auto simp: claim_Inr publish_Inr dead_letter_Inr retry_body_def Let_def fenced_Inr discard_def single_active_def
    dest!: receipt_subscriptions dead_letter_subscriptions)

lemma single_active_empty: "single_active empty_database"
  by (simp add: single_active_def empty_database_def)

lemma reachable_single_active: "reachable db \<Longrightarrow> single_active db"
  unfolding reachable_def by (induction rule: rtranclp_induct) (auto intro: committed_single_active single_active_empty)

lemma collect_types_Inr:
  "collect_types ts acc = Inr types \<Longrightarrow> distinct acc \<Longrightarrow>
     distinct types \<and> set types = set acc \<union> set ts \<and> (\<forall>t \<in> set ts. ParseType t = Inr t)"
  by (induction ts acc rule: collect_types.induct) (auto split: sum.splits if_splits dest: ParseType_unchanged)

text \<open>
  \<^verbatim>\<open>Subscribe\<close> replaces: after it commits the consumer has exactly one active subscription,
  to exactly the event types named, each a well-formed type kept once; the previous one, if any, is kept as
  history with its retirement time, and no other consumer's subscriptions change. The consumers of active subscriptions are always distinct.
\<close>

theorem Subscribe_replaces:
  assumes "Subscribe env tx consumer eventTypes db = (Inr (), db')" "reachable db"
  shows "\<exists>types. filter (\<lambda>s. active s \<and> s_consumer s = trim_space consumer) (subscriptions db') =
      [\<lparr>s_consumer = trim_space consumer, s_event_types = types, s_subscribed_at = stmt_now env InsertSubscription, s_retired_at = None\<rparr>]
    \<and> distinct types \<and> set types = set eventTypes \<and> (\<forall>t \<in> set eventTypes. ParseType t = Inr t)
    \<and> filter (\<lambda>s. s_consumer s \<noteq> trim_space consumer) (subscriptions db') = filter (\<lambda>s. s_consumer s \<noteq> trim_space consumer) (subscriptions db)
    \<and> length (subscriptions db') = Suc (length (subscriptions db)) \<and> distinct (map s_consumer (filter active (subscriptions db')))"
proof -
  obtain types n m db1 where s: "collect_types eventTypes [] = Inr types"
    "retire_statement env (trim_space consumer) db = (Inr n, db1)"
    "insert_subscription env (trim_space consumer) types db1 = (Inr m, db')"
    using assms(1) by (rule Subscribe_Inr)
  let ?new = "\<lparr>s_consumer = trim_space consumer, s_event_types = types, s_subscribed_at = stmt_now env InsertSubscription, s_retired_at = None\<rparr>"
  note i = insert_effect[OF s(3)] and r = retire_effect(2)[OF s(2)]
  have "filter (\<lambda>s. active s \<and> s_consumer s = trim_space consumer) (subscriptions db1) = []" using i(2) by (auto simp: filter_empty_conv)
  then have "filter (\<lambda>s. active s \<and> s_consumer s = trim_space consumer) (subscriptions db') = [?new]"
    by (simp add: i(1) active_def)
  moreover have "filter (\<lambda>s. s_consumer s \<noteq> trim_space consumer) (update_where (\<lambda>s. s_consumer s = trim_space consumer \<and> active s) f ss)
      = filter (\<lambda>s. s_consumer s \<noteq> trim_space consumer) ss" if "\<And>s. s_consumer (f s) = s_consumer s" for f ss
    using that by (induction ss) (auto simp: update_where_def)
  then have "filter (\<lambda>s. s_consumer s \<noteq> trim_space consumer) (subscriptions db') = filter (\<lambda>s. s_consumer s \<noteq> trim_space consumer) (subscriptions db)"
    by (simp add: i(1) r)
  moreover have "single_active db'"
    using insert_single_active[OF s(3) retire_single_active[OF s(2) reachable_single_active[OF assms(2)]]] .
  moreover have "length (subscriptions db') = Suc (length (subscriptions db))" by (simp add: i(1) r)
  ultimately show ?thesis using collect_types_Inr[OF s(1)] unfolding single_active_def by (intro exI[of _ types]) simp
qed

theorem Subscribe_replaces_witness:
  "\<exists>types. filter (\<lambda>s. active s \<and> s_consumer s = ''crm'') (subscriptions sample_subscribed) =
      [\<lparr>s_consumer = ''crm'', s_event_types = types, s_subscribed_at = stmt_now sample_env InsertSubscription, s_retired_at = None\<rparr>]
    \<and> set types = {sample_type}"
proof -
  have "reachable empty_database" by (simp add: reachable_def)
  from Subscribe_replaces[OF sample_subscribe this] show ?thesis by auto
qed

section \<open>What an append owes\<close>

lemma owed_consumers_distinct: "single_active db \<Longrightarrow> distinct (map s_consumer (owed_subscriptions typ only db))"
proof -
  assume a: "single_active db"
  have "owed_subscriptions typ only db =
      filter (\<lambda>s. typ \<in> set (s_event_types s) \<and> (only = '''' \<or> s_consumer s = only)) (filter active (subscriptions db))"
    unfolding owed_subscriptions_def filter_filter by (rule filter_cong) auto
  then show ?thesis using distinct_map_filter[OF a[unfolded single_active_def]] by simp
qed

lemma owed_keys_distinct:
  assumes "reachable db" "\<forall>r \<in> set (outbox db). outbox_key r \<noteq> (created, eid)"
  shows "distinct (map delivery_key (outbox_delivery db @ map (new_delivery created eid pos typ prio) (owed_subscriptions typ only db)))"
proof -
  have c: "consistent db" using assms(1) by (rule reachable_consistent)
  have "map delivery_key (map (new_delivery created eid pos typ prio) ss) = map (\<lambda>c. (created, eid, c)) (map s_consumer ss)" for ss
    by (simp add: delivery_key_def new_delivery_def)
  then have "distinct (map delivery_key (map (new_delivery created eid pos typ prio) (owed_subscriptions typ only db)))"
    using owed_consumers_distinct[OF reachable_single_active[OF assms(1)], of "typ" "only"] by (simp only: distinct_map inj_on_def) auto
  moreover have "(d_created_at d, d_event_id d) \<noteq> (created, eid)" if "d \<in> set (outbox_delivery db)" for d
    using consistent_row[OF c that] assms(2) by (auto simp: event_of_def outbox_key_def)
  ultimately show ?thesis using c by (auto simp: consistent_def delivery_key_def new_delivery_def)
qed

lemma append_statement_ok:
  assumes "reachable db" "\<forall>r \<in> set (outbox db). outbox_key r \<noteq> (tx_now env, eid)" "outbox_sequence db + 1 < 2 ^ 63"
  shows "\<exists>db'. append_statement env eid typ agg prio payload envelope only db = (Inr (length (owed_subscriptions typ only db)), db')
    \<and> outbox_delivery db' = outbox_delivery db @
        map (new_delivery (tx_now env) eid (outbox_sequence db + 1) typ prio) (owed_subscriptions typ only db)"
proof -
  have "\<not> (\<exists>r \<in> set (outbox db). (o_created_at r, o_event_id r) = (tx_now env, eid))"
    using assms(2) by (auto simp: outbox_key_def)
  then show ?thesis
    using owed_keys_distinct[OF assms(1,2)] assms(3) unfolding append_statement_def Let_def by simp
qed

text \<open>
  C14: An append of a valid envelope with a fresh key, in a transaction that reaches the database,
  owes exactly one delivery to each consumer with an active subscription naming the event's type (to the one consumer, when
  addressed with \<^verbatim>\<open>To\<close>), each unpublished, unleased, at the event's position and priority; an append addressed to a
  consumer that does not subscribe to the type fails with \<^verbatim>\<open>ErrNotSubscribed\<close>, and the transaction leaves no trace but a gap in the sequence.
\<close>

theorem Append_owes:
  assumes "reachable db" "healthy env" "\<not> IsNilTx tx" "\<not> IsNil agg" "Validate e = Inr ()" "e_Data e = Document payload"
    "\<forall>r \<in> set (outbox db). outbox_key r \<noteq> (tx_now env, String (e_ID e))" "outbox_sequence db + 1 < 2 ^ 63"
  shows "let only = a_only (resolve_options opts); prio = a_priority (resolve_options opts);
      subs = filter (\<lambda>s. active s \<and> e_Type e \<in> set (s_event_types s) \<and> (only = '''' \<or> s_consumer s = only)) (subscriptions db) in
    if only \<noteq> '''' \<and> subs = []
    then \<exists>err. in_tx env (Append env tx agg e opts) db = (Inl err, db\<lparr>outbox_sequence := outbox_sequence db + 1\<rparr>)
      \<and> is_error err ErrNotSubscribed
    else \<exists>db'. in_tx env (Append env tx agg e opts) db = (Inr (), db')
      \<and> outbox_delivery db' = outbox_delivery db @ map (new_delivery (tx_now env) (String (e_ID e)) (outbox_sequence db + 1) (e_Type e) prio) subs
      \<and> distinct (map s_consumer subs)"
proof -
  define only prio where "only = a_only (resolve_options opts)" and "prio = a_priority (resolve_options opts)"
  define subs where "subs = owed_subscriptions (e_Type e) only db"
  obtain j where j: "MarshalJSON e = Inr j" using assms(5,6) by (auto simp: MarshalJSON_Inr encode_wire_def wire_of_def)
  obtain db' where db': "append_statement env (String (e_ID e)) (e_Type e) (String agg) prio payload j only db = (Inr (length subs), db')"
    "outbox_delivery db' = outbox_delivery db @ map (new_delivery (tx_now env) (String (e_ID e)) (outbox_sequence db + 1) (e_Type e) prio) subs"
    using append_statement_ok[OF assms(1,7,8)] unfolding subs_def by blast
  have step: "Append env tx agg e opts db =
      (if only \<noteq> '''' \<and> subs = [] then (Inl (Wrapf ''outbox: appending'' [ErrNotSubscribed]), db') else (Inr (), db'))"
    using assms(2-6) db'(1) j unfolding only_def prio_def resolve_options_def
    by (simp add: Append_def Let_def bind_stm_def wrap_def exec_def healthy_def return_def throw_def)
  have e: "is_error (Wrapf ''outbox: appending'' [ErrNotSubscribed]) ErrNotSubscribed" by (simp add: ErrNotSubscribed_def)
  have d: "discard db db' = db\<lparr>outbox_sequence := outbox_sequence db + 1\<rparr>"
    using append_statement_Inr(1)[OF db'(1)] by (simp add: discard_def)
  have di: "distinct (map s_consumer subs)"
    unfolding subs_def by (rule owed_consumers_distinct[OF reachable_single_active[OF assms(1)]])
  show ?thesis
    unfolding only_def[symmetric] prio_def[symmetric] Let_def owed_subscriptions_def[symmetric] subs_def[symmetric]
    using step e di db'(2) in_tx_healthy[OF assms(2), of "Append env tx agg e opts" db "()" db']
      in_tx_healthy_error[OF assms(2), of "Append env tx agg e opts" db "Wrapf ''outbox: appending'' [ErrNotSubscribed]" db']
    by (simp add: d split: if_splits)
qed

theorem Append_owes_witness:
  "\<exists>err db'. in_tx sample_env (Append sample_env sample_tx (replicate 16 1) sample_envelope [To ''crm'']) empty_database = (Inl err, db')
     \<and> is_error err ErrNotSubscribed"
proof -
  have "reachable empty_database" "\<not> IsNil (replicate 16 1)" by (simp_all add: reachable_def IsNil_def Nil_uuid_def)
  moreover have "e_Data sample_envelope = Document (JObj [(''version'', JNum ''1'')])" by (simp add: sample_envelope_def)
  ultimately show ?thesis
    using Append_owes[OF _ sample_env_healthy sample_tx_live _ sample_valid, of empty_database "replicate 16 1" _ "[To ''crm'']"]
    by (auto simp: empty_database_def resolve_options_def To_def Let_def)
qed

text \<open>
  \<^verbatim>\<open>Abandon\<close> closes exactly what is still owed to a consumer that no longer subscribes: it is refused with
  \<^verbatim>\<open>ErrStillSubscribed\<close> while the consumer has an active subscription; otherwise it reports the number of deliveries
  it closed, afterwards nothing is owed to the consumer, each closed one says why (redacted), and every other delivery,
  receipt and incident is as before.
\<close>

theorem Abandon_closes:
  assumes "healthy env" "\<not> IsNilTx tx" "trim_space consumer \<noteq> ''''" "trim_space reason \<noteq> ''''"
  shows "if \<exists>s \<in> set (subscriptions db). active s \<and> s_consumer s = trim_space consumer
    then \<exists>err. in_tx env (Abandon env tx consumer reason) db = (Inl err, db) \<and> is_error err ErrStillSubscribed
    else \<exists>db'. in_tx env (Abandon env tx consumer reason) db =
        (Inr (length (filter (\<lambda>d. d_consumer d = trim_space consumer \<and> \<not> d_published d) (outbox_delivery db))), db')
      \<and> (\<forall>d \<in> set (outbox_delivery db'). d_consumer d = trim_space consumer \<longrightarrow> d_published d)
      \<and> list_all2 (\<lambda>d d'. if d_consumer d = trim_space consumer \<and> \<not> d_published d
            then same_delivery d d' \<and> (d_published_at d = None \<longrightarrow> abandoned d')
              \<and> d_last_error d' = Some (redact_string (trim_space reason)) \<and> d_attempts d' = d_attempts d
            else d' = d) (outbox_delivery db) (outbox_delivery db')
      \<and> outbox db' = outbox db \<and> delivery_receipts db' = delivery_receipts db \<and> dead_letters db' = dead_letters db
      \<and> subscriptions db' = subscriptions db"
proof (cases "\<exists>s \<in> set (subscriptions db). active s \<and> s_consumer s = trim_space consumer")
  case True
  then have "Abandon env tx consumer reason db = (Inl (Wrapf ''unsubscribe it first'' [ErrStillSubscribed]), db)"
    using assms by (auto simp: Abandon_def Let_def bind_stm_def wrap_def exec_def healthy_def return_def throw_def)
  moreover have "is_error (Wrapf ''unsubscribe it first'' [ErrStillSubscribed]) ErrStillSubscribed" by (simp add: ErrStillSubscribed_def)
  ultimately show ?thesis
    using True in_tx_healthy_error[OF assms(1), of "Abandon env tx consumer reason" db] by auto
next
  case False
  define P :: "delivery \<Rightarrow> bool" where "P = (\<lambda>d. d_consumer d = trim_space consumer \<and> \<not> d_published d)"
  define f :: "delivery \<Rightarrow> delivery" where "f = (\<lambda>d. d\<lparr>d_published := True, d_failure_class := Some ''abandoned'', d_last_error := Some (redact_string (trim_space reason)),
      d_next_attempt_at := None, d_lease_id := None, d_leased_until := None\<rparr>)"
  define db' where "db' = db\<lparr>outbox_delivery := update_where P f (outbox_delivery db)\<rparr>"
  have "\<not> (\<exists>s \<in> set (subscriptions db). s_consumer s = trim_space consumer \<and> active s)" using False by auto
  then have "Abandon env tx consumer reason db = (Inr (length (filter P (outbox_delivery db))), db')"
    using assms unfolding P_def f_def db'_def
    by (simp add: Abandon_def Let_def bind_stm_def wrap_def exec_def healthy_def return_def abandon_statement_def affected_def)
  then have "in_tx env (Abandon env tx consumer reason) db = (Inr (length (filter P (outbox_delivery db))), db')"
    by (rule in_tx_healthy[OF assms(1)])
  moreover have "\<forall>d \<in> set (outbox_delivery db'). d_consumer d = trim_space consumer \<longrightarrow> d_published d"
    by (auto simp: db'_def set_update_where P_def f_def)
  moreover have "list_all2 (\<lambda>d d'. if P d
            then same_delivery d d' \<and> (d_published_at d = None \<longrightarrow> abandoned d')
              \<and> d_last_error d' = Some (redact_string (trim_space reason)) \<and> d_attempts d' = d_attempts d
            else d' = d) (outbox_delivery db) (outbox_delivery db')"
    by (simp add: db'_def update_where_def list_all2_conv_all_nth f_def same_delivery_def delivery_key_def abandoned_def)
  ultimately show ?thesis using False by (auto simp: db'_def P_def)
qed

theorem Abandon_closes_witness:
  "\<exists>err. in_tx sample_env (Abandon sample_env sample_tx ''crm'' ''gone'') sample_subscribed = (Inl err, sample_subscribed)
     \<and> is_error err ErrStillSubscribed"
proof -
  have "trim_space ''gone'' \<noteq> ''''" by code_simp
  from Abandon_closes[OF sample_env_healthy sample_tx_live _ this, of "''crm''" sample_subscribed]
  show ?thesis by (auto simp: sample_subscribed_def active_def)
qed

end
