(* ===== verification/Maintenance.thy ===== *)
theory Maintenance
  imports Delivery
begin

text \<open>
  \<^verbatim>\<open>src/outbox/maintenance.go\<close>: removing the data of settled dead letters, counting the ones that
  should alert, and pruning delivery receipts. A \<^verbatim>\<open>time.Time\<close> argument is its instant, so \<^verbatim>\<open>UTC()\<close>
  is the identity.
\<close>

section \<open>Dead letters\<close>

definition disposable :: "time \<Rightarrow> dead_letter \<Rightarrow> bool" where
  "disposable ts l \<longleftrightarrow>
     ((case l_resolved_at l of None \<Rightarrow> False | Some t \<Rightarrow> t \<le> ts) \<or> (case l_waived_at l of None \<Rightarrow> False | Some t \<Rightarrow> t \<le> ts))
     \<and> (l_envelope l \<noteq> None \<or> l_payload l \<noteq> None)"

definition dispose_statement :: "time \<Rightarrow> nat stm" where
  "dispose_statement ts db =
     (Inr (affected (disposable ts) (dead_letters db)),
      db\<lparr>dead_letters := update_where (disposable ts) (\<lambda>l. l\<lparr>l_envelope := None, l_payload := None\<rparr>) (dead_letters db)\<rparr>)"

definition DisposeResolvedDeadLetters :: "txenv \<Rightarrow> tx_value \<Rightarrow> time \<Rightarrow> nat stm" where
  "DisposeResolvedDeadLetters env tx resolvedBefore =
     (if IsNilTx tx then throw ErrNoTransaction
      else if resolvedBefore = 0 then throw (New ''outbox: dead-letter retention boundary is required'')
      else wrap ''outbox: disposing resolved dead letters''
        (exec env DisposeDeadLetters (dispose_statement resolvedBefore)))"

text \<open>\<^verbatim>\<open>waived_until IS NOT NULL AND waived_until > now()\<close>.\<close>

definition waived :: "txenv \<Rightarrow> dead_letter \<Rightarrow> bool" where
  "waived env l \<longleftrightarrow> (case l_waived_until l of None \<Rightarrow> False | Some t \<Rightarrow> t > tx_now env)"

definition stale :: "txenv \<Rightarrow> time \<Rightarrow> dead_letter \<Rightarrow> bool" where
  "stale env ts l \<longleftrightarrow> l_resolved_at l = None \<and> l_dead_lettered_at l \<le> ts \<and> \<not> waived env l"

definition CountStaleUnresolvedDeadLetters :: "txenv \<Rightarrow> tx_value \<Rightarrow> time \<Rightarrow> nat stm" where
  "CountStaleUnresolvedDeadLetters env tx olderThan =
     (if IsNilTx tx then throw ErrNoTransaction
      else if olderThan = 0 then throw (New ''outbox: unresolved age boundary is required'')
      else wrap ''outbox: counting stale unresolved dead letters''
        (exec env CountStaleDeadLetters (\<lambda>db. (Inr (affected (stale env olderThan) (dead_letters db)), db))))"

section \<open>Receipts\<close>

definition ReceiptReference :: "uuid_text \<Rightarrow> string \<Rightarrow> string" where
  "ReceiptReference eid consumer = ''platform.delivery_receipt:'' @ eid @ '':'' @ consumer"

definition open_incident :: "txenv \<Rightarrow> dead_letter \<Rightarrow> bool" where
  "open_incident env l \<longleftrightarrow> l_resolved_at l = None \<and> \<not> waived env l"

definition cited :: "database \<Rightarrow> receipt_row \<Rightarrow> bool" where
  "cited db c \<longleftrightarrow> (\<exists>l \<in> set (dead_letters db).
     l_resolution_reference l = Some (''platform.delivery_receipt:'' @ c_event_id c @ '':'' @ c_consumer c))"

definition prunable :: "txenv \<Rightarrow> time \<Rightarrow> database \<Rightarrow> receipt_row \<Rightarrow> bool" where
  "prunable env ts db c \<longleftrightarrow> c_recorded_at c \<le> ts \<and> \<not> (\<exists>l \<in> set (dead_letters db). open_incident env l) \<and> \<not> cited db c"

definition prune_statement :: "txenv \<Rightarrow> time \<Rightarrow> nat stm" where
  "prune_statement env ts db =
     (Inr (affected (prunable env ts db) (delivery_receipts db)),
      db\<lparr>delivery_receipts := filter (\<lambda>c. \<not> prunable env ts db c) (delivery_receipts db)\<rparr>)"

definition PruneDeliveryReceipts :: "txenv \<Rightarrow> tx_value \<Rightarrow> time \<Rightarrow> nat stm" where
  "PruneDeliveryReceipts env tx recordedBefore =
     (if IsNilTx tx then throw ErrNoTransaction
      else if recordedBefore = 0 then throw (New ''outbox: delivery-receipt retention boundary is required'')
      else wrap ''outbox: pruning delivery receipts''
        (exec env PruneReceipts (prune_statement env recordedBefore)))"

section \<open>What disposal keeps\<close>

text \<open>An incident without the data of its event.\<close>

definition incident :: "dead_letter \<Rightarrow> dead_letter" where
  "incident l = l\<lparr>l_envelope := None, l_payload := None\<rparr>"

lemma incident_fields [simp]: "letter_key (incident l) = letter_key l" "l_failure_class (incident l) = l_failure_class l"
  by (simp_all add: incident_def letter_key_def)

lemma Dispose_Inr:
  "DisposeResolvedDeadLetters env tx ts db = (Inr n, db') \<Longrightarrow> dispose_statement ts db = (Inr n, db')"
  by (auto simp: DisposeResolvedDeadLetters_def stm_Inr split: if_splits)

lemma consistent_letters:
  assumes "consistent db" "map incident letters = map incident (dead_letters db)"
  shows "consistent (db\<lparr>dead_letters := letters\<rparr>)"
proof -
  have same: "map g letters = map g (dead_letters db)" if "\<And>l. g (incident l) = g l" for g :: "dead_letter \<Rightarrow> 'k"
    using arg_cong[OF assms(2), of "map g"] that by (simp add: comp_def)
  have key: "map (\<lambda>l. (letter_key l, l_failure_class l)) letters = map (\<lambda>l. (letter_key l, l_failure_class l)) (dead_letters db)"
    and keys: "map letter_key letters = map letter_key (dead_letters db)" by (rule same, simp)+
  have "letter_justified (db\<lparr>dead_letters := letters\<rparr>) l" if "l \<in> set letters" for l
  proof -
    from that have "(letter_key l, l_failure_class l) \<in> (\<lambda>l. (letter_key l, l_failure_class l)) ` set (dead_letters db)"
      using key by (metis (no_types, lifting) image_eqI image_set)
    then obtain l' where "l' \<in> set (dead_letters db)" "letter_key l' = letter_key l" "l_failure_class l' = l_failure_class l" by auto
    moreover have "letter_justified db l'" using assms(1) calculation(1) by (simp add: consistent_def)
    ultimately show ?thesis by (simp add: letter_justified_def)
  qed
  moreover have "letter_key ` set letters = letter_key ` set (dead_letters db)" using keys by (metis list.set_map)
  ultimately show ?thesis
    using assms(1) keys
    by (simp add: consistent_def event_of_def accounted_def has_receipt_def has_incident_def receipt_justified_def)
qed

text \<open>
  Disposal removes data and never an incident: it clears the envelope and the payload of exactly the dead letters resolved or
  waived at or before the boundary and reports how many; every incident keeps all its other columns, and every invariant
  of the deliveries holds as before. Run again at the same boundary it finds nothing to do.
\<close>

theorem Dispose_keeps_incidents:
  assumes "DisposeResolvedDeadLetters env tx ts db = (Inr n, db')"
  shows "map incident (dead_letters db') = map incident (dead_letters db)
    \<and> n = length (filter (disposable ts) (dead_letters db))
    \<and> list_all2 (\<lambda>l l'. l' = (if disposable ts l then incident l else l)) (dead_letters db) (dead_letters db')
    \<and> (consistent db \<longrightarrow> consistent db') \<and> DisposeResolvedDeadLetters env tx ts db' = (Inr 0, db')"
proof -
  have s: "n = length (filter (disposable ts) (dead_letters db))"
    "db' = db\<lparr>dead_letters := update_where (disposable ts) incident (dead_letters db)\<rparr>"
    using Dispose_Inr[OF assms] by (auto simp: dispose_statement_def affected_def incident_def[abs_def])
  have i: "incident (incident l) = incident l" "\<not> disposable ts (incident l)" for l
    by (simp_all add: incident_def disposable_def)
  have m: "map incident (dead_letters db') = map incident (dead_letters db)"
    by (simp add: s(2) map_update_where i(1))
  have again: "update_where (disposable ts) incident (dead_letters db') = dead_letters db'"
    "affected (disposable ts) (dead_letters db') = 0"
    using i(2) by (auto simp: s(2) update_where_def affected_def filter_empty_conv)
  have "DisposeResolvedDeadLetters env tx ts db' = (Inr 0, db')"
    using assms again
    by (auto simp: DisposeResolvedDeadLetters_def exec_def wrap_def dispose_statement_def incident_def[abs_def] throw_def
        split: if_splits option.splits)
  moreover have "consistent db \<longrightarrow> consistent db'"
    using consistent_letters[of db "dead_letters db'"] m by (simp add: s(2))
  moreover have "list_all2 (\<lambda>l l'. l' = (if disposable ts l then incident l else l)) (dead_letters db) (dead_letters db')"
    by (simp add: s(2) update_where_def list_all2_conv_all_nth)
  ultimately show ?thesis using m s(1) by blast
qed

definition sample_letter :: dead_letter where
  "sample_letter = \<lparr>l_event_id = ''e'', l_event_type = ''t'', l_envelope = Some JNull, l_payload = Some JNull, l_aggregate_id = None,
     l_priority = None, l_failure_class = ''poison'', l_failure_detail = '''', l_attempts = 1, l_first_failed_at = 1,
     l_consumer = Some ''crm'', l_dead_lettered_at = 1, l_resolved_at = Some 5, l_resolution_reference = Some ''platform.delivery_receipt:e:crm'',
     l_waived_at = None, l_waived_until = None\<rparr>"

definition sample_settled :: database where
  "sample_settled = empty_database\<lparr>dead_letters := [sample_letter],
     delivery_receipts := [\<lparr>c_event_id = ''e'', c_consumer = ''crm'', c_event_type = ''t'', c_evidence = EvidenceConsumerApplied, c_recorded_at = 1\<rparr>,
       \<lparr>c_event_id = ''f'', c_consumer = ''crm'', c_event_type = ''t'', c_evidence = EvidenceConsumerApplied, c_recorded_at = 1\<rparr>]\<rparr>"

definition calm_env :: txenv where
  "calm_env = \<lparr>env_open = True, env_bound = Inr (), env_driver = \<lparr>begin_err = None, commit_ack = CommitOk\<rparr>,
     tx_now = 10, stmt_now = (\<lambda>_. 10), fault = (\<lambda>_. None), row_locked = (\<lambda>_. False)\<rparr>"

lemma calm_exec [simp]: "exec calm_env s run = run"
  by (simp add: exec_def calm_env_def fun_eq_iff)

theorem Dispose_keeps_incidents_witness:
  "\<exists>db'. DisposeResolvedDeadLetters calm_env (TxValue OtherKind False) 7 sample_settled = (Inr 1, db')
     \<and> map incident (dead_letters db') = [incident sample_letter]"
proof -
  obtain db' where d: "DisposeResolvedDeadLetters calm_env (TxValue OtherKind False) 7 sample_settled = (Inr 1, db')"
    by (simp add: DisposeResolvedDeadLetters_def IsNilTx_def wrap_def dispose_statement_def affected_def
        sample_settled_def empty_database_def disposable_def sample_letter_def)
  from Dispose_keeps_incidents[OF d] d show ?thesis by (intro exI[of _ db']) (simp add: sample_settled_def)
qed

section \<open>What pruning keeps\<close>

lemma ReceiptReference_inject:
  assumes "wf_uuid u" "wf_uuid v"
  shows "ReceiptReference (String u) c = ReceiptReference (String v) d \<longleftrightarrow> String u = String v \<and> c = d"
  using String_segments(1)[OF assms(1)] String_segments(1)[OF assms(2)] by (auto simp: ReceiptReference_def)

lemma Prune_Inr: "PruneDeliveryReceipts env tx ts db = (Inr n, db') \<Longrightarrow> prune_statement env ts db = (Inr n, db')"
  by (auto simp: PruneDeliveryReceipts_def stm_Inr split: if_splits)

text \<open>
  Pruning keeps every receipt a closure could need: while an incident is unresolved and not under an unexpired waiver nothing is
  deleted; a receipt cited by a closure with \<^verbatim>\<open>ReceiptReference\<close> and one recorded after the boundary are kept; every other is deleted, and the
  number reported is the number deleted. Nothing but receipts changes, and no two receipts of events with identifiers have the same reference.
\<close>

theorem Prune_keeps_evidence:
  assumes "PruneDeliveryReceipts env tx ts db = (Inr n, db')"
  shows "delivery_receipts db' = (if \<exists>l \<in> set (dead_letters db). open_incident env l then delivery_receipts db
      else filter (\<lambda>c. ts < c_recorded_at c
        \<or> Some (ReceiptReference (c_event_id c) (c_consumer c)) \<in> l_resolution_reference ` set (dead_letters db)) (delivery_receipts db))
    \<and> n + length (delivery_receipts db') = length (delivery_receipts db)
    \<and> db' = db\<lparr>delivery_receipts := delivery_receipts db'\<rparr>
    \<and> (\<forall>u v c d. wf_uuid u \<and> wf_uuid v \<and> \<not> IsNil u \<and> \<not> IsNil v \<and> ReceiptReference (String u) c = ReceiptReference (String v) d
          \<longrightarrow> u = v \<and> c = d)"
proof -
  have s: "n = length (filter (prunable env ts db) (delivery_receipts db))"
    "db' = db\<lparr>delivery_receipts := filter (\<lambda>c. \<not> prunable env ts db c) (delivery_receipts db)\<rparr>"
    using Prune_Inr[OF assms] by (auto simp: prune_statement_def affected_def)
  have c: "cited db c \<longleftrightarrow> Some (ReceiptReference (c_event_id c) (c_consumer c)) \<in> l_resolution_reference ` set (dead_letters db)" for c
    unfolding cited_def ReceiptReference_def image_iff by (metis append_assoc)
  have "delivery_receipts db' = (if \<exists>l \<in> set (dead_letters db). open_incident env l then delivery_receipts db
      else filter (\<lambda>c. ts < c_recorded_at c
        \<or> Some (ReceiptReference (c_event_id c) (c_consumer c)) \<in> l_resolution_reference ` set (dead_letters db)) (delivery_receipts db))"
    unfolding c[symmetric] by (auto simp: s(2) prunable_def not_le intro!: filter_cong)
  moreover have "n + length (delivery_receipts db') = length (delivery_receipts db)"
    by (simp add: s sum_length_filter_compl)
  moreover have "u = v \<and> c = d" if "wf_uuid u" "wf_uuid v" "\<not> IsNil u" "\<not> IsNil v"
      "ReceiptReference (String u) c = ReceiptReference (String v) d" for u v c d
  proof -
    have "String u = String v" "c = d" using ReceiptReference_inject[OF that(1,2)] that(5) by blast+
    with Parse_String_wf[OF that(1,3)] Parse_String_wf[OF that(2,4)] show ?thesis by (metis sum.inject(2))
  qed
  moreover have "db' = db\<lparr>delivery_receipts := delivery_receipts db'\<rparr>" unfolding s(2) by simp
  ultimately show ?thesis by blast
qed

theorem Prune_keeps_evidence_witness:
  "\<exists>db'. PruneDeliveryReceipts calm_env (TxValue OtherKind False) 7 sample_settled = (Inr 1, db')
     \<and> map c_event_id (delivery_receipts db') = [''e'']"
proof -
  obtain db' where d: "PruneDeliveryReceipts calm_env (TxValue OtherKind False) 7 sample_settled = (Inr 1, db')"
    by (simp add: PruneDeliveryReceipts_def IsNilTx_def wrap_def prune_statement_def affected_def
        sample_settled_def empty_database_def prunable_def open_incident_def cited_def sample_letter_def)
  from Prune_keeps_evidence[OF d, THEN conjunct1] have "map c_event_id (delivery_receipts db') = [''e'']"
    by (simp add: sample_settled_def empty_database_def open_incident_def sample_letter_def ReceiptReference_def)
  with d show ?thesis by (intro exI[of _ db'] conjI)
qed

end
