(* ===== verification/Preflight.thy ===== *)
theory Preflight
  imports Dispatcher
begin

text \<open>
  \<^verbatim>\<open>src/outbox/preflight.go\<close>: the database contract the dispatcher checks before it starts a worker. The catalogue of
  the database is an argument: what each of the four queries answers for the connection's role, or the error it returns.
\<close>

datatype probe =
    SchemaUsage
  | Present string
  | ColumnExists string string
  | Permitted string string

definition ErrPrerequisite :: goerror where
  "ErrPrerequisite = New ''outbox: the database does not satisfy the dispatcher's contract''"

record requirement =
  q_table :: string
  q_privileges :: "string list"
  q_columns :: "string list"
  q_because :: string

definition dispatcherRequirements :: "requirement list" where
  "dispatcherRequirements =
    [\<lparr>q_table = ''platform.outbox'', q_privileges = [''SELECT''], q_columns = [],
      q_because = ''claimStatement reads each claimed event's envelope; deadLetterStatement copies the event into the incident''\<rparr>,
     \<lparr>q_table = ''platform.outbox_delivery'', q_privileges = [''SELECT'', ''UPDATE''],
      q_columns = [''consumer'', ''lease_id'', ''leased_until''],
      q_because = ''claimStatement leases this consumer's deliveries; markPublished and recordFailure write the outcome back''\<rparr>,
     \<lparr>q_table = ''platform.dead_letter'', q_privileges = [''INSERT'', ''SELECT''], q_columns = [],
      q_because = ''deadLetterStatement inserts the incident, and its ON CONFLICT target requires SELECT''\<rparr>,
     \<lparr>q_table = ''platform.delivery_receipt'', q_privileges = [''INSERT'', ''SELECT''], q_columns = [],
      q_because = ''recordReceiptStatement records what each delivery established, and its ON CONFLICT target requires SELECT''\<rparr>]"

definition absent_text :: "string \<Rightarrow> string \<Rightarrow> string" where
  "absent_text what because =
     what @ '' does not exist; the foundation-platform migrations for this version have not been applied ('' @ because @ '')''"

definition grant_text :: "string \<Rightarrow> string \<Rightarrow> string \<Rightarrow> string" where
  "grant_text privilege tbl because =
     ''no '' @ privilege @ '' on '' @ tbl @ ''; the grant for this role was not applied ('' @ because @ '')''"

text \<open>A loop of queries, each adding its problem when the answer is no; the first error ends it.\<close>

fun probe_each :: "(probe \<Rightarrow> bool result) \<Rightarrow> (probe \<times> string) list \<Rightarrow> string list \<Rightarrow> string list result" where
  "probe_each answer [] found = Inr found"
| "probe_each answer ((p, text) # ps) found =
     (case answer p of
        Inl e \<Rightarrow> Inl e
      | Inr yes \<Rightarrow> probe_each answer ps (if yes then found else found @ [text]))"

definition table_probes :: "requirement \<Rightarrow> (probe \<times> string) list" where
  "table_probes q =
     map (\<lambda>c. (ColumnExists (q_table q) c, absent_text (q_table q @ ''.'' @ c) (q_because q))) (q_columns q)
     @ map (\<lambda>p. (Permitted (q_table q) p, grant_text p (q_table q) (q_because q))) (q_privileges q)"

fun check_tables :: "(probe \<Rightarrow> bool result) \<Rightarrow> requirement list \<Rightarrow> string list \<Rightarrow> string list result" where
  "check_tables answer [] found = Inr found"
| "check_tables answer (q # qs) found =
     (case answer (Present (q_table q)) of
        Inl e \<Rightarrow> Inl e
      | Inr False \<Rightarrow> check_tables answer qs (found @ [absent_text (q_table q) (q_because q)])
      | Inr True \<Rightarrow> bind_result (probe_each answer (table_probes q) found) (check_tables answer qs))"

definition preflight_body :: "(probe \<Rightarrow> bool result) \<Rightarrow> string list result" where
  "preflight_body answer =
     (case answer SchemaUsage of
        Inl e \<Rightarrow> Inl e
      | Inr mayEnter \<Rightarrow> check_tables answer dispatcherRequirements
          (if mayEnter then [] else [''no USAGE on schema platform, so every table privilege below it is unusable'']))"

definition checkPrerequisites :: "txenv \<Rightarrow> (probe \<Rightarrow> bool result) \<Rightarrow> database \<Rightarrow> unit result" where
  "checkPrerequisites env answer db =
     (case in_tx env (\<lambda>db. (preflight_body answer, db)) db of
        (Inl e, _) \<Rightarrow> Inl (Wrapf ''outbox: the dispatcher's prerequisites could not be checked'' [e])
      | (Inr found, _) \<Rightarrow>
          if found \<noteq> [] then Inl (Wrapf (concat (map (\<lambda>p. ''  - '' @ p) found)) [ErrPrerequisite]) else Inr ())"

definition CheckDispatcherPrerequisites :: "bool \<Rightarrow> txenv \<Rightarrow> (probe \<Rightarrow> bool result) \<Rightarrow> database \<Rightarrow> unit result" where
  "CheckDispatcherPrerequisites pool_nil env answer db =
     (if pool_nil then Inl (New ''outbox: a pool is required'') else checkPrerequisites env answer db)"

section \<open>What it answers\<close>

text \<open>The contract as a set of facts about the database.\<close>

definition satisfied :: "(probe \<Rightarrow> bool result) \<Rightarrow> requirement \<Rightarrow> bool" where
  "satisfied answer q \<longleftrightarrow> answer (Present (q_table q)) = Inr True
     \<and> (\<forall>c \<in> set (q_columns q). answer (ColumnExists (q_table q) c) = Inr True)
     \<and> (\<forall>p \<in> set (q_privileges q). answer (Permitted (q_table q) p) = Inr True)"

definition contract :: "(probe \<Rightarrow> bool result) \<Rightarrow> bool" where
  "contract answer \<longleftrightarrow> answer SchemaUsage = Inr True \<and> (\<forall>q \<in> set dispatcherRequirements. satisfied answer q)"

text \<open>The queries in the order they are asked when none fails: the columns and grants of a table only when the table is there.\<close>

definition asked_of :: "(probe \<Rightarrow> bool result) \<Rightarrow> requirement \<Rightarrow> probe list" where
  "asked_of answer q = Present (q_table q) #
     (if answer (Present (q_table q)) = Inr False then []
      else map (ColumnExists (q_table q)) (q_columns q) @ map (Permitted (q_table q)) (q_privileges q))"

definition asked :: "(probe \<Rightarrow> bool result) \<Rightarrow> probe list" where
  "asked answer = SchemaUsage # concat (map (asked_of answer) dispatcherRequirements)"

fun first_error :: "(probe \<Rightarrow> bool result) \<Rightarrow> probe list \<Rightarrow> goerror option" where
  "first_error answer [] = None"
| "first_error answer (p # ps) = (case answer p of Inl e \<Rightarrow> Some e | Inr _ \<Rightarrow> first_error answer ps)"

text \<open>What is unmet of a table, and of the whole contract.\<close>

definition unmet_of :: "(probe \<Rightarrow> bool result) \<Rightarrow> requirement \<Rightarrow> string list" where
  "unmet_of answer q =
     (if answer (Present (q_table q)) = Inr False then [absent_text (q_table q) (q_because q)]
      else [absent_text (q_table q @ ''.'' @ c) (q_because q). c \<leftarrow> q_columns q, answer (ColumnExists (q_table q) c) = Inr False]
         @ [grant_text p (q_table q) (q_because q). p \<leftarrow> q_privileges q, answer (Permitted (q_table q) p) = Inr False])"

definition unmet :: "(probe \<Rightarrow> bool result) \<Rightarrow> string list" where
  "unmet answer = (if answer SchemaUsage = Inr False then [''no USAGE on schema platform, so every table privilege below it is unusable''] else [])
     @ concat (map (unmet_of answer) dispatcherRequirements)"

lemma first_error_append:
  "first_error answer (ps @ qs) = (case first_error answer ps of None \<Rightarrow> first_error answer qs | Some e \<Rightarrow> Some e)"
  by (induction ps) (auto split: sum.split)

lemma first_error_None: "first_error answer ps = None \<longleftrightarrow> (\<forall>p \<in> set ps. \<exists>b. answer p = Inr b)"
  by (induction ps) (auto split: sum.split)

lemma first_error_Some: "first_error answer ps = Some e \<Longrightarrow> \<exists>p \<in> set ps. answer p = Inl e"
  by (induction ps) (auto split: sum.splits)

lemma probe_each_answer:
  "probe_each answer ps found =
     (case first_error answer (map fst ps) of
        Some e \<Rightarrow> Inl e
      | None \<Rightarrow> Inr (found @ map snd (filter (\<lambda>x. answer (fst x) = Inr False) ps)))"
  by (induction answer ps found rule: probe_each.induct) (auto split: sum.split option.split)

lemma table_probes_first: "map fst (table_probes q) = map (ColumnExists (q_table q)) (q_columns q) @ map (Permitted (q_table q)) (q_privileges q)"
  by (simp add: table_probes_def)

lemma table_probes_unmet:
  "answer (Present (q_table q)) = Inr True \<Longrightarrow> map snd (filter (\<lambda>x. answer (fst x) = Inr False) (table_probes q)) = unmet_of answer q"
proof -
  have m: "map snd (filter (\<lambda>x. P (fst x)) (map (\<lambda>c. (f c, g c)) cs)) = [g c. c \<leftarrow> cs, P (f c)]" for P :: "probe \<Rightarrow> bool" and f and g :: "string \<Rightarrow> string" and cs
    by (induction cs) auto
  show "answer (Present (q_table q)) = Inr True \<Longrightarrow> ?thesis" 
    by (simp add: table_probes_def unmet_of_def m[where P = "\<lambda>p. answer p = Inr False", simplified] cong: if_cong)
qed

lemma check_tables_answer:
  "check_tables answer qs found =
     (case first_error answer (concat (map (asked_of answer) qs)) of
        Some e \<Rightarrow> Inl e
      | None \<Rightarrow> Inr (found @ concat (map (unmet_of answer) qs)))"
proof (induction answer qs found rule: check_tables.induct)
  case (2 answer q qs found)
  consider e where "answer (Present (q_table q)) = Inl e" | "answer (Present (q_table q)) = Inr False" | "answer (Present (q_table q)) = Inr True"
    by (metis (full_types) sum.exhaust)
  then show ?case
  proof cases
    case 1
    then show ?thesis by (simp add: asked_of_def)
  next
    case f: 2
    then show ?thesis using "2.IH"(2)[OF f] by (auto simp: asked_of_def unmet_of_def[of _ q] split: option.split)
  next
    case t: 3
    define rest where "rest = map (ColumnExists (q_table q)) (q_columns q) @ map (Permitted (q_table q)) (q_privileges q)"
    have "asked_of answer q = Present (q_table q) # rest" using t by (simp add: asked_of_def rest_def)
    then have a: "first_error answer (concat (map (asked_of answer) (q # qs))) =
        (case first_error answer rest of None \<Rightarrow> first_error answer (concat (map (asked_of answer) qs)) | Some e \<Rightarrow> Some e)"
      using t by (simp add: first_error_append)
    have p: "probe_each answer (table_probes q) found = (case first_error answer rest of Some e \<Rightarrow> Inl e | None \<Rightarrow> Inr (found @ unmet_of answer q))"
      using table_probes_unmet[of answer q, OF t] by (simp add: probe_each_answer table_probes_first rest_def del: map_append split: option.split)
    show ?thesis
      unfolding a using "2.IH"(1)[OF t] t by (cases "first_error answer rest") (auto simp: p split: option.split)
  qed
qed simp

lemma preflight_body_answer:
  "preflight_body answer = (case first_error answer (asked answer) of Some e \<Rightarrow> Inl e | None \<Rightarrow> Inr (unmet answer))"
  by (auto simp: preflight_body_def asked_def unmet_def check_tables_answer split: sum.split option.split)

lemma unmet_contract:
  assumes "first_error answer (asked answer) = None"
  shows "unmet answer = [] \<longleftrightarrow> contract answer"
proof -
  have s: "\<exists>b. answer SchemaUsage = Inr b" using assms unfolding first_error_None by (simp add: asked_def)
  have "unmet_of answer q = [] \<longleftrightarrow> satisfied answer q" if "q \<in> set dispatcherRequirements" for q
  proof -
    have k: "\<forall>p \<in> set (asked_of answer q). \<exists>b. answer p = Inr b" using assms that unfolding first_error_None by (auto simp: asked_def)
    then have "\<exists>b. answer (Present (q_table q)) = Inr b" by (simp add: asked_of_def)
    moreover have "answer p = Inr True \<longleftrightarrow> answer p \<noteq> Inr False" if "p \<in> set (asked_of answer q)" for p using k that by (metis (full_types) sum.inject(2))
    ultimately show ?thesis by (auto simp: unmet_of_def satisfied_def asked_of_def split: if_splits)
  qed
  with s show ?thesis by (auto simp: unmet_def contract_def)
qed

text \<open>
  C30: The preflight decides exactly the contract. On a database that can be reached, when every query it asks is answered (whether the role may enter the schema, whether each table is there and,
  for a table that is, whether its columns and grants are), it passes if and only if all answers are yes, and otherwise fails with \<^verbatim>\<open>ErrPrerequisite\<close> and a text that
  lists every unmet item in order. When a query fails, whichever it is, the first failure is reported as itself, and so is a transaction that cannot begin; neither is
  reported as an unmet contract. And it decides whether the dispatcher runs: \<^verbatim>\<open>Run\<close> starts its workers, all of them, exactly when it is not cancelled and the preflight passed.
\<close>

theorem preflight_decides_contract:
  fixes answer :: "probe \<Rightarrow> bool result"
  defines "could_not_check \<equiv> \<lambda>e. Inl (Wrapf ''outbox: the dispatcher's prerequisites could not be checked'' [e]) :: unit result"
  shows "(healthy env \<longrightarrow> (case first_error answer (asked answer) of
        Some e \<Rightarrow> checkPrerequisites env answer db = could_not_check e
      | None \<Rightarrow> checkPrerequisites env answer db =
          (if contract answer then Inr () else Inl (Wrapf (concat (map (\<lambda>p. ''  - '' @ p) (unmet answer))) [ErrPrerequisite]))))
    \<and> (\<forall>e. begin_err (env_driver env) = Some e \<and> env_open env \<longrightarrow> checkPrerequisites env answer db = could_not_check (Wrapf ''db: beginning transaction'' [e]))
    \<and> fst (Run cfg cancelled (checkPrerequisites env answer db) ctx_err) =
      (if cancelled = None \<and> checkPrerequisites env answer db = Inr ()
       then replicate (nat (Workers cfg)) False @ replicate (nat (PriorityWorkers cfg)) True else [])"
proof -
  have h: "case first_error answer (asked answer) of
        Some e \<Rightarrow> checkPrerequisites env answer db = could_not_check e
      | None \<Rightarrow> checkPrerequisites env answer db =
          (if contract answer then Inr () else Inl (Wrapf (concat (map (\<lambda>p. ''  - '' @ p) (unmet answer))) [ErrPrerequisite]))" if "healthy env"
  proof (cases "first_error answer (asked answer)")
    case None
    have "in_tx env (\<lambda>db. (preflight_body answer, db)) db = (Inr (unmet answer), db)"
      by (rule in_tx_healthy[OF that]) (simp add: preflight_body_answer None)
    then show ?thesis using unmet_contract[OF None] None by (simp add: checkPrerequisites_def)
  next
    case (Some e)
    have "fst (in_tx env (\<lambda>db. (preflight_body answer, db)) db) = Inl e"
      using in_tx_healthy_error[OF that, of "\<lambda>db. (preflight_body answer, db)" db e db] Some by (simp add: preflight_body_answer)
    then show ?thesis using Some by (auto simp: checkPrerequisites_def could_not_check_def split: prod.split)
  qed
  have b: "checkPrerequisites env answer db = could_not_check (Wrapf ''db: beginning transaction'' [e])"
    if "begin_err (env_driver env) = Some e" "env_open env" for e
    using that by (simp add: checkPrerequisites_def in_tx_def run_in_tx_unfold withinTx_def could_not_check_def)
  have "fst (Run cfg cancelled (checkPrerequisites env answer db) ctx_err) =
      (if cancelled = None \<and> checkPrerequisites env answer db = Inr ()
       then replicate (nat (Workers cfg)) False @ replicate (nat (PriorityWorkers cfg)) True else [])"
    by (cases "checkPrerequisites env answer db") (auto simp: Run_def split: option.split)
  with h b show ?thesis by blast
qed

theorem preflight_decides_contract_witness:
  "\<exists>env :: txenv. \<exists>db e. checkPrerequisites env (\<lambda>p. if p = Present ''platform.dead_letter'' then Inl (New ''connection reset'') else Inr True) db = Inl e
     \<and> \<not> is_error e ErrPrerequisite"
proof -
  define env :: txenv where "env = \<lparr>env_open = True, env_bound = Inr (), env_driver = \<lparr>begin_err = None, commit_ack = CommitOk\<rparr>,
     tx_now = 1, stmt_now = (\<lambda>_. 1), fault = (\<lambda>_. None), row_locked = (\<lambda>_. False)\<rparr>"
  define answer :: "probe \<Rightarrow> bool result" where "answer = (\<lambda>p. if p = Present ''platform.dead_letter'' then Inl (New ''connection reset'') else Inr True)"
  have h: "healthy env" by (simp add: healthy_def env_def)
  fix db :: database
  have "first_error answer (asked answer) = Some (New ''connection reset'')"
    by (simp add: asked_def asked_of_def dispatcherRequirements_def answer_def)
  with preflight_decides_contract[of env answer db] h
  have "checkPrerequisites env answer db = Inl (Wrapf ''outbox: the dispatcher's prerequisites could not be checked'' [New ''connection reset''])" by simp
  then show ?thesis unfolding answer_def by (intro exI conjI, assumption) (simp add: ErrPrerequisite_def)
qed

end
