(* ===== verification/Inbox.thy ===== *)
theory Inbox
  imports Store
begin

text \<open>
  \<^verbatim>\<open>src/inbox/inbox.go\<close>: the guard a consumer runs in the transaction that applies an event's effect. The effect itself is an argument.
\<close>

definition ErrNoTransaction :: goerror where "ErrNoTransaction = New ''inbox: a transaction handle is required''"

definition ErrNoConsumer :: goerror where "ErrNoConsumer = New ''inbox: consumer is required''"

definition ErrNoEvent :: goerror where "ErrNoEvent = New ''inbox: event identifier is required''"

definition ErrNoEventType :: goerror where "ErrNoEventType = New ''inbox: event type is required''"

definition ErrConsumerTooLong :: goerror where "ErrConsumerTooLong = New ''inbox: consumer exceeds 255 bytes''"

definition guard_statement :: "txenv \<Rightarrow> uuid_text \<Rightarrow> string \<Rightarrow> string \<Rightarrow> nat stm" where
  "guard_statement env eid consumer typ db =
     (if \<exists>x \<in> set (processed_events db). x_event_id x = eid \<and> x_consumer x = consumer then (Inr 0, db)
      else (Inr 1, db\<lparr>processed_events := processed_events db @
              [\<lparr>x_event_id = eid, x_consumer = consumer, x_event_type = typ, x_processed_at = tx_now env\<rparr>]\<rparr>))"

definition Guard :: "txenv \<Rightarrow> tx_value \<Rightarrow> string \<Rightarrow> uuid \<Rightarrow> event_type \<Rightarrow> bool stm" where
  "Guard env tx consumer0 eventID eventType =
     (if IsNilTx tx then throw ErrNoTransaction
      else let consumer = trim_space consumer0 in
      if consumer = '''' then throw ErrNoConsumer
      else if length consumer > 255 then throw ErrConsumerTooLong
      else if IsNil eventID then throw ErrNoEvent
      else if eventType = '''' then throw ErrNoEventType
      else bind_stm (wrap ''inbox: guarding'' (exec env InsertProcessed (guard_statement env (String eventID) consumer eventType)))
        (\<lambda>n. return (n = 1)))"

section \<open>Exactly once\<close>

lemma Guard_Inr:
  "Guard env tx consumer eid typ db = (Inr first, db') \<Longrightarrow>
     guard_statement env (String eid) (trim_space consumer) typ db = (Inr (if first then 1 else 0), db')"
  by (auto simp: Guard_def Let_def stm_Inr guard_statement_def split: if_splits)

definition recorded :: "database \<Rightarrow> string \<Rightarrow> uuid_text \<Rightarrow> bool" where
  "recorded db consumer eid \<longleftrightarrow> (\<exists>x \<in> set (processed_events db). x_event_id x = eid \<and> x_consumer x = consumer)"

lemma Guard_effect:
  assumes "Guard env tx consumer eid typ db = (Inr first, db')"
  shows "first \<longleftrightarrow> \<not> recorded db (trim_space consumer) (String eid)" "recorded db' (trim_space consumer) (String eid)"
    "\<not> first \<Longrightarrow> db' = db"
    "recorded db c e \<Longrightarrow> recorded db' c e"
  using Guard_Inr[OF assms] by (auto simp: guard_statement_def recorded_def split: if_splits)

section \<open>A consumer that uses the guard\<close>

text \<open>
  The consumer's own tables are a state beside the platform tables, in the same database; a delivery is handled in one
  transaction, the guard first and the effect only on a first sight.
\<close>

definition discard_both :: "database \<times> 's \<Rightarrow> database \<times> 's \<Rightarrow> database \<times> 's" where
  "discard_both st st' = (discard (fst st) (fst st'), snd st)"

definition consumer_tx :: "txenv \<Rightarrow> (database \<times> 's \<Rightarrow> 'a result \<times> (database \<times> 's)) \<Rightarrow> database \<times> 's \<Rightarrow> 'a result \<times> (database \<times> 's)" where
  "consumer_tx env fn st = run_in_tx discard_both (env_open env) (env_bound env) (env_driver env) \<lparr>tx_marker = False\<rparr> fn st"

interpretation ctx_tx: transactor "consumer_tx env" discard_both for env
  by unfold_locales (auto simp: consumer_tx_def discard_both_def dest: run_in_tx_committed run_in_tx_aborted)

definition guarded ::
  "txenv \<Rightarrow> tx_value \<Rightarrow> string \<Rightarrow> uuid \<Rightarrow> event_type \<Rightarrow> ('s \<Rightarrow> 's) \<Rightarrow> database \<times> 's \<Rightarrow> unit result \<times> (database \<times> 's)" where
  "guarded env tx consumer eid typ effect st =
     (case Guard env tx consumer eid typ (fst st) of
        (Inl e, db') \<Rightarrow> (Inl e, (db', snd st))
      | (Inr first, db') \<Rightarrow> (Inr (), (db', if first then effect (snd st) else snd st)))"

text \<open>Deliveries, redeliveries and retries in any order; the effect counts the applications per consumer and event.\<close>

record arrival =
  v_env :: txenv
  v_tx :: tx_value
  v_consumer :: string
  v_event :: uuid
  v_type :: event_type

type_synonym applications = "string \<times> uuid_text \<Rightarrow> nat"

definition arrival_key :: "arrival \<Rightarrow> string \<times> uuid_text" where
  "arrival_key v = (trim_space (v_consumer v), String (v_event v))"

definition handle_arrival :: "arrival \<Rightarrow> database \<times> applications \<Rightarrow> unit result \<times> (database \<times> applications)" where
  "handle_arrival v =
     consumer_tx (v_env v) (guarded (v_env v) (v_tx v) (v_consumer v) (v_event v) (v_type v)
       (\<lambda>s. s(arrival_key v := s (arrival_key v) + 1)))"

fun handle_arrivals :: "arrival list \<Rightarrow> database \<times> applications \<Rightarrow> unit result list \<times> (database \<times> applications)" where
  "handle_arrivals [] st = ([], st)"
| "handle_arrivals (v # vs) st =
     (let (r, st') = handle_arrival v st; (rs, st'') = handle_arrivals vs st' in (r # rs, st''))"

text \<open>The invariant: an effect has been applied exactly to what the table records.\<close>

definition once :: "database \<times> applications \<Rightarrow> bool" where
  "once st \<longleftrightarrow> (\<forall>c e. snd st (c, e) = (if recorded (fst st) c e then 1 else 0))"

lemma Guard_other:
  assumes "Guard env tx consumer eid typ db = (Inr first, db')" "(c, e) \<noteq> (trim_space consumer, String eid)"
  shows "recorded db' c e \<longleftrightarrow> recorded db c e"
  using Guard_Inr[OF assms(1)] assms(2) by (auto simp: guard_statement_def recorded_def split: if_splits)

lemma guarded_once:
  assumes "once st" "guarded env tx consumer eid typ (\<lambda>s. s((trim_space consumer, String eid) := s (trim_space consumer, String eid) + 1)) st = (Inr x, st')"
  shows "once st' \<and> recorded (fst st') (trim_space consumer) (String eid) \<and> (\<forall>c e. recorded (fst st) c e \<longrightarrow> recorded (fst st') c e)"
proof -
  obtain first db' where g: "Guard env tx consumer eid typ (fst st) = (Inr first, db')"
    and st': "st' = (db', if first then (snd st)((trim_space consumer, String eid) := snd st (trim_space consumer, String eid) + 1) else snd st)"
    using assms(2) by (auto simp: guarded_def split: prod.splits sum.splits)
  note e = Guard_effect[OF g]
  have "snd st' (c, ev) = (if recorded (fst st') c ev then 1 else 0)" for c ev
    using assms(1) e(1,2) Guard_other[OF g, of c ev] unfolding once_def st' by auto
  then show ?thesis using e unfolding once_def st' by auto
qed

lemma once_discard: "once st \<Longrightarrow> once (discard_both st st') \<and> (recorded (fst (discard_both st st')) c e \<longleftrightarrow> recorded (fst st) c e)"
  by (simp add: once_def discard_both_def discard_def recorded_def)

lemma arrival_once:
  assumes "once st" "handle_arrival v st = (r, st')"
  shows "once st' \<and> (r = Inr () \<longrightarrow> recorded (fst st') (trim_space (v_consumer v)) (String (v_event v)))
    \<and> (\<forall>c e. recorded (fst st) c e \<longrightarrow> recorded (fst st') c e)"
proof -
  let ?fn = "guarded (v_env v) (v_tx v) (v_consumer v) (v_event v) (v_type v) (\<lambda>s. s(arrival_key v := s (arrival_key v) + 1))"
  have t: "consumer_tx (v_env v) ?fn st = (r, st')" using assms(2) by (simp add: handle_arrival_def)
  have ok: "once st' \<and> recorded (fst st') (trim_space (v_consumer v)) (String (v_event v)) \<and> (\<forall>c e. recorded (fst st) c e \<longrightarrow> recorded (fst st') c e)"
    if "?fn st = (Inr x, st')" for x
    using guarded_once[OF assms(1)] that unfolding arrival_key_def by blast
  show ?thesis
  proof (cases r)
    case (Inl e)
    from ctx_tx.effects[OF t] consider "st' = st" | "st' = discard_both st (snd (?fn st))" | x where "?fn st = (Inr x, st')" by blast
    then have "once st' \<and> (\<forall>c e. recorded (fst st) c e \<longrightarrow> recorded (fst st') c e)"
      by cases (use assms(1) ok in \<open>auto simp only: once_discard\<close>)
    with Inl show ?thesis by simp
  next
    case (Inr x)
    have "?fn st = (Inr x, st')" by (rule ctx_tx.committed[OF t[unfolded Inr]])
    from ok[OF this] show ?thesis by simp
  qed
qed

lemma arrivals_once:
  assumes "once st" "handle_arrivals vs st = (rs, st')"
  shows "once st' \<and> (\<forall>c e. recorded (fst st) c e \<longrightarrow> recorded (fst st') c e) \<and> length rs = length vs
    \<and> (\<forall>i < length vs. rs ! i = Inr () \<longrightarrow> recorded (fst st') (fst (arrival_key (vs ! i))) (snd (arrival_key (vs ! i))))"
  using assms
proof (induction vs arbitrary: st rs)
  case (Cons v vs)
  obtain r st1 rs1 where s: "handle_arrival v st = (r, st1)" "handle_arrivals vs st1 = (rs1, st')" "rs = r # rs1"
    using Cons.prems(2) by (auto split: prod.splits)
  note a = arrival_once[OF Cons.prems(1) s(1)]
  note i = Cons.IH[OF conjunct1[OF a] s(2)]
  have "rs ! k = Inr () \<longrightarrow> recorded (fst st') (fst (arrival_key ((v # vs) ! k))) (snd (arrival_key ((v # vs) ! k)))"
    if "k < length (v # vs)" for k
    using that a i s(3) by (cases k) (auto simp: arrival_key_def)
  then show ?case using a i s(3) by auto
qed simp

text \<open>
  C5: The inbox makes at-least-once delivery exactly once: whatever deliveries, redeliveries and retries a consumer handles, in any order,
  with transactions that fail, are rolled back or whose commit answer is lost, an event's effect is applied at most once per consumer, and exactly once
  as soon as one handling of it returned without an error.
\<close>

theorem inbox_exactly_once:
  assumes "processed_events db = []"
  shows "let (rs, db', applied) = handle_arrivals vs (db, \<lambda>_. 0) in
    (\<forall>k. applied k \<le> 1)
    \<and> (\<forall>i < length vs. rs ! i = Inr () \<longrightarrow> applied (arrival_key (vs ! i)) = 1)
    \<and> (\<forall>c e. applied (c, e) = 1 \<longleftrightarrow> (\<exists>x \<in> set (processed_events db'). x_event_id x = e \<and> x_consumer x = c))"
proof -
  obtain rs db' applied where h: "handle_arrivals vs (db, \<lambda>_. 0) = (rs, db', applied)" by (metis prod.exhaust)
  have "once (db, \<lambda>_. 0)" using assms by (simp add: once_def recorded_def)
  from arrivals_once[OF this h] have o: "\<And>c e. applied (c, e) = (if recorded db' c e then 1 else 0)"
    "\<forall>i < length vs. rs ! i = Inr () \<longrightarrow> recorded db' (fst (arrival_key (vs ! i))) (snd (arrival_key (vs ! i)))"
    by (auto simp: once_def)
  have "applied k \<le> 1" for k using o(1)[of "fst k" "snd k"] by simp
  moreover have "applied (arrival_key (vs ! i)) = 1" if "i < length vs" "rs ! i = Inr ()" for i
    using o(1)[of "fst (arrival_key (vs ! i))" "snd (arrival_key (vs ! i))"] o(2) that by simp
  ultimately show ?thesis unfolding h using o(1) by (auto simp: recorded_def)
qed

theorem inbox_exactly_once_witness:
  "\<exists>db v. processed_events db = [] \<and> fst (handle_arrivals [v, v] (db, \<lambda>_. 0)) = [Inr (), Inr ()]
     \<and> snd (snd (handle_arrivals [v, v] (db, \<lambda>_. 0))) (''crm'', String (replicate 16 1)) = 1"
proof -
  define env :: txenv where "env = \<lparr>env_open = True, env_bound = Inr (), env_driver = \<lparr>begin_err = None, commit_ack = CommitOk\<rparr>,
     tx_now = 1, stmt_now = (\<lambda>_. 1), fault = (\<lambda>_. None), row_locked = (\<lambda>_. False)\<rparr>"
  define v where "v = \<lparr>v_env = env, v_tx = TxValue OtherKind False, v_consumer = ''crm'', v_event = replicate 16 1, v_type = ''t''\<rparr>"
  define db :: database where "db = \<lparr>outbox = [], outbox_delivery = [], subscriptions = [], dead_letters = [], delivery_receipts = [],
     processed_events = [], idempotency_keys = [], outbox_sequence = 0\<rparr>"
  have trim: "trim_space ''crm'' = ''crm''" by code_simp
  have nil: "\<not> IsNil (replicate 16 1)" by (simp add: IsNil_def Nil_uuid_def)
  have "\<exists>st'. handle_arrival v st = (Inr (), st')" for st
    by (simp add: handle_arrival_def consumer_tx_def run_in_tx_unfold env_def v_def withinTx_def guarded_def Guard_def IsNilTx_def
        Let_def trim nil bind_stm_def wrap_def exec_def guard_statement_def return_def)
  then have a: "fst (handle_arrival v st) = Inr ()" for st by (metis fst_conv)
  have r: "fst (handle_arrivals [v, v] st) = [Inr (), Inr ()]" for st
    using a[of st] a[of "snd (handle_arrival v st)"] by (simp add: case_prod_unfold Let_def)
  have "arrival_key v = (''crm'', String (replicate 16 1))" by (simp add: arrival_key_def v_def trim)
  with inbox_exactly_once[of db "[v, v]"] r[of "(db, \<lambda>_. 0)"]
  have "snd (snd (handle_arrivals [v, v] (db, \<lambda>_. 0))) (''crm'', String (replicate 16 1)) = 1"
    by (auto simp: db_def Let_def split: prod.splits)
  then show ?thesis using r by (intro exI[of _ db] exI[of _ v]) (simp add: db_def)
qed

end
