(* ===== verification/Idempotency.thy ===== *)
theory Idempotency
  imports Store Jsonb
begin

text \<open>
  \<^verbatim>\<open>src/idempotency/idempotency.go\<close> and \<^verbatim>\<open>src/idempotency/retention.go\<close>: claiming a mutation key, recording the
  response, and expiring completed keys (with \<^verbatim>\<open>platform.purge_idempotency_keys\<close> of migration 0011). SHA-256 is the argument
  \<open>sha\<close> of \<open>Digest\<close>.
\<close>

definition ErrNoTransaction :: goerror where "ErrNoTransaction = New ''idempotency: a transaction handle is required''"

definition ErrNoScope :: goerror where "ErrNoScope = New ''idempotency: caller scope is required''"

definition ErrNoKey :: goerror where "ErrNoKey = New ''idempotency: key is required''"

definition ErrNoDigest :: goerror where "ErrNoDigest = New ''idempotency: request digest is required''"

definition ErrConflict :: goerror where "ErrConflict = New ''idempotency: key was used for a different request''"

definition ErrInProgress :: goerror where "ErrInProgress = New ''idempotency: request is already in progress''"

definition ErrNotClaimed :: goerror where "ErrNotClaimed = New ''idempotency: key has not been claimed with this digest''"

definition ErrScopeTooLong :: goerror where "ErrScopeTooLong = New ''idempotency: caller scope exceeds 512 bytes''"

definition ErrKeyTooLong :: goerror where "ErrKeyTooLong = New ''idempotency: key exceeds 255 bytes''"

definition ErrDigestTooLong :: goerror where "ErrDigestTooLong = New ''idempotency: request digest exceeds 256 bytes''"

section \<open>The digest\<close>

definition size_bytes :: "nat \<Rightarrow> byte list" where
  "size_bytes n = map (\<lambda>i. ucast (drop_bit ((7 - i) * 8) (of_nat n :: 64 word))) [0..<8]"

definition framed :: "byte list list \<Rightarrow> byte list" where
  "framed parts = concat (map (\<lambda>part. size_bytes (length part) @ part) parts)"

definition Digest :: "(byte list \<Rightarrow> byte list) \<Rightarrow> byte list list \<Rightarrow> string" where
  "Digest sha parts = hex_encode (sha (framed parts))"

section \<open>Claiming and completing\<close>

datatype state = StateZero | StateClaimed | StateReplay | StateInProgress

record key_result =
  State :: state
  Status :: int
  Body :: "json option"

definition zero_result :: key_result where
  "zero_result = \<lparr>State = StateZero, Status = 0, Body = None\<rparr>"

definition validate :: "tx_value \<Rightarrow> string \<Rightarrow> string \<Rightarrow> string \<Rightarrow> unit result" where
  "validate tx scope key digest =
     (if IsNilTx tx then Inl ErrNoTransaction
      else if trim_space scope = '''' then Inl ErrNoScope
      else if trim_space key = '''' then Inl ErrNoKey
      else if trim_space digest = '''' then Inl ErrNoDigest
      else if length (trim_space scope) > 512 then Inl ErrScopeTooLong
      else if length (trim_space key) > 255 then Inl ErrKeyTooLong
      else if length (trim_space digest) > 256 then Inl ErrDigestTooLong
      else Inr ())"

definition key_of :: "key_row \<Rightarrow> string \<times> string" where
  "key_of k = (k_scope k, k_key k)"

definition find_key :: "string \<Rightarrow> string \<Rightarrow> database \<Rightarrow> key_row option" where
  "find_key scope key db = find (\<lambda>k. key_of k = (scope, key)) (idempotency_keys db)"

definition claim_key_statement :: "txenv \<Rightarrow> string \<Rightarrow> string \<Rightarrow> string \<Rightarrow> nat stm" where
  "claim_key_statement env scope key digest db =
     (if find_key scope key db \<noteq> None then (Inr 0, db)
      else (Inr 1, db\<lparr>idempotency_keys := idempotency_keys db @
              [\<lparr>k_scope = scope, k_key = key, k_request_digest = digest, k_response_status = None, k_response_body = None,
                k_claimed_at = tx_now env, k_completed_at = None\<rparr>]\<rparr>))"

definition read_key_statement :: "string \<Rightarrow> string \<Rightarrow> key_row stm" where
  "read_key_statement scope key db =
     (case find_key scope key db of
        None \<Rightarrow> (Inl (New ''no rows in result set''), db)
      | Some k \<Rightarrow> (Inr k, db))"

text \<open>\<^verbatim>\<open>Claim\<close> returns a result beside an error when the request is in progress.\<close>

definition Claim :: "txenv \<Rightarrow> tx_value \<Rightarrow> string \<Rightarrow> string \<Rightarrow> string \<Rightarrow> database \<Rightarrow> (key_result \<times> goerror option) \<times> database" where
  "Claim env tx scope0 key0 digest0 db =
     (case validate tx scope0 key0 digest0 of
        Inl err \<Rightarrow> ((zero_result, Some err), db)
      | Inr _ \<Rightarrow>
          (let scope = trim_space scope0; key = trim_space key0; digest = trim_space digest0 in
           case exec env ClaimKey (claim_key_statement env scope key digest) db of
             (Inl err, db1) \<Rightarrow> ((zero_result, Some (Wrapf ''idempotency: claiming key'' [err])), db1)
           | (Inr n, db1) \<Rightarrow>
               if n = 1 then ((zero_result\<lparr>State := StateClaimed\<rparr>, None), db1)
               else (case exec env LoadKey (read_key_statement scope key) db1 of
                   (Inl err, db2) \<Rightarrow> ((zero_result, Some (Wrapf ''idempotency: reading existing key'' [err])), db2)
                 | (Inr stored, db2) \<Rightarrow>
                     if k_request_digest stored \<noteq> digest then ((zero_result, Some ErrConflict), db2)
                     else (case (k_completed_at stored, k_response_status stored) of
                         (Some _, Some status) \<Rightarrow>
                           ((\<lparr>State = StateReplay, Status = status, Body = k_response_body stored\<rparr>, None), db2)
                       | _ \<Rightarrow> ((zero_result\<lparr>State := StateInProgress\<rparr>, Some ErrInProgress), db2)))))"

definition complete_matches :: "string \<Rightarrow> string \<Rightarrow> string \<Rightarrow> key_row \<Rightarrow> bool" where
  "complete_matches scope key digest k \<longleftrightarrow>
     key_of k = (scope, key) \<and> k_request_digest k = digest \<and> k_completed_at k = None"

text \<open>The response body is a \<^verbatim>\<open>jsonb\<close> column: the row has the normal form of the document it was sent.\<close>

definition complete_statement :: "txenv \<Rightarrow> string \<Rightarrow> string \<Rightarrow> string \<Rightarrow> int \<Rightarrow> json \<Rightarrow> nat stm" where
  "complete_statement env scope key digest status body db =
     (Inr (affected (complete_matches scope key digest) (idempotency_keys db)),
      db\<lparr>idempotency_keys := update_where (complete_matches scope key digest)
           (\<lambda>k. k\<lparr>k_response_status := Some status, k_response_body := Some (jsonb body), k_completed_at := Some (tx_now env)\<rparr>)
           (idempotency_keys db)\<rparr>)"

definition Complete :: "txenv \<Rightarrow> tx_value \<Rightarrow> string \<Rightarrow> string \<Rightarrow> string \<Rightarrow> int \<Rightarrow> raw \<Rightarrow> unit stm" where
  "Complete env tx scope key digest status body =
     (case validate tx scope key digest of
        Inl err \<Rightarrow> throw err
      | Inr _ \<Rightarrow>
          if status < 100 \<or> status > 599 then throw (New ''idempotency: invalid HTTP status'')
          else case body of
            Document j \<Rightarrow>
              bind_stm (wrap ''idempotency: completing key'' (exec env CompleteKey
                (complete_statement env (trim_space scope) (trim_space key) (trim_space digest) status j)))
              (\<lambda>n. if n \<noteq> 1 then throw ErrNotClaimed else return ())
          | _ \<Rightarrow> throw (New ''idempotency: response body must be valid JSON''))"

section \<open>Retention\<close>

definition MinimumRetention :: duration where
  "MinimumRetention = 86400000000000"

definition ErrRetentionTooShort :: goerror where
  "ErrRetentionTooShort = New ''idempotency: key retention is shorter than 24 hours''"

definition day_ns :: int where
  "day_ns = 86400000000000"

definition expired :: "txenv \<Rightarrow> int \<Rightarrow> key_row \<Rightarrow> bool" where
  "expired env retain k \<longleftrightarrow> (case k_completed_at k of None \<Rightarrow> False | Some t \<Rightarrow> t \<le> tx_now env - retain)"

definition purge_statement :: "txenv \<Rightarrow> int \<Rightarrow> nat stm" where
  "purge_statement env retain db =
     (if retain < day_ns then (Inl (New ''idempotency key retention is shorter than 24 hours''), db)
      else (Inr (affected (expired env retain) (idempotency_keys db)),
            db\<lparr>idempotency_keys := filter (\<lambda>k. \<not> expired env retain k) (idempotency_keys db)\<rparr>))"

definition PurgeCompleted :: "txenv \<Rightarrow> tx_value \<Rightarrow> duration \<Rightarrow> nat stm" where
  "PurgeCompleted env tx retention =
     (if IsNilTx tx then throw ErrNoTransaction
      else if sint retention < sint MinimumRetention then throw ErrRetentionTooShort
      else wrap ''idempotency: purging completed keys''
        (exec env PurgeKeys (purge_statement env (make_interval (Seconds retention)))))"

section \<open>The digest separates its parts\<close>

lemma length_size_bytes [simp]: "length (size_bytes n) = 8"
  by (simp add: size_bytes_def)

lemma size_bytes_inject:
  assumes "size_bytes m = size_bytes n" "m < 2 ^ 64" "n < 2 ^ 64"
  shows "m = n"
proof -
  have nth: "(ucast (drop_bit ((7 - i) * 8) (of_nat m :: 64 word)) :: byte) = ucast (drop_bit ((7 - i) * 8) (of_nat n :: 64 word))"
    if "i < 8" for i
    using assms(1) that by (auto simp: size_bytes_def map_eq_conv)
  have "(of_nat m :: 64 word) = of_nat n"
  proof (rule bit_word_eqI)
    fix k assume k: "k < LENGTH(64)"
    have "bit (of_nat l :: 64 word) k = bit (ucast (drop_bit ((7 - (7 - k div 8)) * 8) (of_nat l :: 64 word)) :: byte) (k mod 8)" for l
      using k by (simp add: bit_ucast_iff bit_drop_bit_eq)
    then show "bit (of_nat m :: 64 word) k = bit (of_nat n :: 64 word) k" using nth[of "7 - k div 8"] by simp
  qed
  then have "unat (of_nat m :: 64 word) = unat (of_nat n :: 64 word)" by simp
  with assms(2,3) show ?thesis by (simp add: unat_of_nat)
qed

lemma framed_inject:
  "framed ps = framed qs \<Longrightarrow> \<forall>p \<in> set ps. length p < 2 ^ 64 \<Longrightarrow> \<forall>q \<in> set qs. length q < 2 ^ 64 \<Longrightarrow> ps = qs"
proof (induction ps arbitrary: qs)
  case Nil
  then show ?case using length_size_bytes by (cases qs) (auto simp: framed_def dest: arg_cong[of _ _ length])
next
  case (Cons p ps)
  then obtain q qs' where qs: "qs = q # qs'" by (cases qs) (auto simp: framed_def dest: arg_cong[of _ _ length])
  have e: "size_bytes (length p) @ p @ framed ps = size_bytes (length q) @ q @ framed qs'"
    using Cons.prems(1) by (simp add: framed_def qs)
  then have "size_bytes (length p) = size_bytes (length q)" "p @ framed ps = q @ framed qs'" by simp_all
  moreover from this have "length p = length q" using size_bytes_inject Cons.prems(2,3) by (simp add: qs)
  ultimately show ?case using Cons.IH[of qs'] Cons.prems(2,3) by (simp add: qs)
qed

text \<open>
  C35: The digest is unambiguous across part boundaries: the bytes fed to the hash determine the parts, so two requests with the same digest
  are the same list of parts, or their framings are two different inputs on which SHA-256 collides.
\<close>

theorem Digest_separates:
  assumes "Digest sha ps = Digest sha qs" "\<forall>p \<in> set ps. length p < 2 ^ 64" "\<forall>q \<in> set qs. length q < 2 ^ 64"
  shows "ps = qs \<or> framed ps \<noteq> framed qs \<and> sha (framed ps) = sha (framed qs)"
proof -
  have "sha (framed ps) = sha (framed qs)" using assms(1) hex_decode_encode by (metis Digest_def option.inject)
  with framed_inject[OF _ assms(2,3)] show ?thesis by blast
qed

theorem Digest_separates_witness: "Digest id [[1, 2], [3]] \<noteq> Digest id [[1], [2, 3]]"
proof
  assume "Digest id [[1, 2], [3]] = Digest id [[1], [2, 3]]"
  from Digest_separates[OF this] show False by simp
qed

section \<open>The life of a key\<close>

text \<open>
  One committed operation of a service on its keys, with the completions at or after \<open>lo\<close> and the purges at or before \<open>hi\<close>
  by the database's clock. A \<^verbatim>\<open>Claim\<close> that returned an error or a replay has changed nothing.
\<close>

inductive key_step :: "time \<Rightarrow> time \<Rightarrow> database \<Rightarrow> database \<Rightarrow> bool" for lo hi where
  s_claim: "Claim env tx scope key digest db = (out, db') \<Longrightarrow> key_step lo hi db db'"
| s_complete: "Complete env tx scope key digest status body db = (Inr (), db') \<Longrightarrow> lo \<le> tx_now env \<Longrightarrow> key_step lo hi db db'"
| s_purge: "PurgeCompleted env tx retention db = (Inr n, db') \<Longrightarrow> tx_now env \<le> hi \<Longrightarrow> key_step lo hi db db'"
| s_other: "idempotency_keys db' = idempotency_keys db \<Longrightarrow> key_step lo hi db db'"

definition keyed :: "database \<Rightarrow> bool" where
  "keyed db \<longleftrightarrow> distinct (map key_of (idempotency_keys db))"

lemma find_distinct: "distinct (map f xs) \<Longrightarrow> find (\<lambda>x. f x = y) xs = Some x \<longleftrightarrow> x \<in> set xs \<and> f x = y"
  by (induction xs) (auto simp: image_iff)

lemma find_key_Some: "keyed db \<Longrightarrow> find_key scope key db = Some k \<longleftrightarrow> k \<in> set (idempotency_keys db) \<and> key_of k = (scope, key)"
  by (simp add: keyed_def find_key_def find_distinct)

lemma find_key_None: "find_key scope key db = None \<longleftrightarrow> (scope, key) \<notin> key_of ` set (idempotency_keys db)"
  by (auto simp: find_key_def find_None_iff image_iff)

lemma Claim_keys:
  assumes "Claim env tx scope key digest db = (out, db')"
  shows "db' = db \<or> find_key (trim_space scope) (trim_space key) db = None
    \<and> idempotency_keys db' = idempotency_keys db @ [\<lparr>k_scope = trim_space scope, k_key = trim_space key,
        k_request_digest = trim_space digest, k_response_status = None, k_response_body = None,
        k_claimed_at = tx_now env, k_completed_at = None\<rparr>]"
  using assms
  by (auto simp: Claim_def Let_def exec_def claim_key_statement_def read_key_statement_def
      split: sum.splits option.splits prod.splits if_splits)

lemma Claim_fresh:
  assumes "Claim env tx scope key digest db = ((r, err), db')" "State r = StateClaimed"
  shows "idempotency_keys db' = idempotency_keys db @ [\<lparr>k_scope = trim_space scope, k_key = trim_space key,
        k_request_digest = trim_space digest, k_response_status = None, k_response_body = None,
        k_claimed_at = tx_now env, k_completed_at = None\<rparr>]"
  using assms
  by (auto simp: Claim_def Let_def exec_def claim_key_statement_def read_key_statement_def zero_result_def
      split: sum.splits option.splits prod.splits if_splits)

lemma Complete_keys:
  assumes "Complete env tx scope key digest status body db = (Inr (), db')"
  obtains j where "body = Document j" "validate tx scope key digest = Inr ()" "100 \<le> status" "status \<le> 599"
    "complete_statement env (trim_space scope) (trim_space key) (trim_space digest) status j db = (Inr 1, db')"
  using assms by (auto simp: Complete_def stm_Inr split: sum.splits raw.splits if_splits)

lemma affected_distinct:
  "distinct (map f rows) \<Longrightarrow> (\<And>r. P r \<Longrightarrow> f r = y) \<Longrightarrow> affected P rows \<le> 1"
proof (induction rows)
  case (Cons r rows)
  show ?case
  proof (cases "P r")
    case True
    then have "\<forall>s \<in> set rows. \<not> P s" using Cons.prems by (metis image_eqI list.set_map distinct.simps(2) list.simps(9))
    then show ?thesis by (simp add: affected_def filter_empty_conv)
  next
    case False
    then show ?thesis using Cons by (simp add: affected_def)
  qed
qed (simp add: affected_def)

lemma complete_statement_count:
  assumes "distinct (map key_of (idempotency_keys db))"
  shows "complete_statement env scope key digest status j db = (Inr 0, db) \<or> (\<exists>db'. complete_statement env scope key digest status j db = (Inr 1, db'))"
proof -
  let ?m = "complete_matches scope key digest"
  have "affected ?m (idempotency_keys db) \<le> 1"
    by (rule affected_distinct[OF assms]) (simp add: complete_matches_def)
  then consider "affected ?m (idempotency_keys db) = 0" | "affected ?m (idempotency_keys db) = 1" by linarith
  then show ?thesis by cases (simp_all add: complete_statement_def update_where_none)
qed

lemma Complete_failed:
  assumes "distinct (map key_of (idempotency_keys db))" "Complete env tx scope key digest status body db = (Inl e, db')"
  shows "db' = db"
proof (cases "\<exists>j. body = Document j \<and> fault env CompleteKey = None")
  case True
  then obtain j where j: "body = Document j" "fault env CompleteKey = None" by blast
  show ?thesis
    using assms(2) complete_statement_count[OF assms(1), of env "trim_space scope" "trim_space key" "trim_space digest" status j]
    by (auto simp: Complete_def j bind_stm_def wrap_def exec_def return_def throw_def split: sum.splits if_splits)
next
  case False
  with assms(2) show ?thesis
    by (auto simp: Complete_def bind_stm_def wrap_def exec_def throw_def split: sum.splits raw.splits if_splits option.splits)
qed

lemma Purge_keys:
  assumes "PurgeCompleted env tx retention db = (Inr n, db')"
  shows "\<exists>retain \<ge> day_ns. idempotency_keys db' = filter (\<lambda>k. \<not> expired env retain k) (idempotency_keys db)
    \<and> n = length (filter (expired env retain) (idempotency_keys db))"
  using assms
  by (intro exI[of _ "make_interval (Seconds retention)"])
    (auto simp: PurgeCompleted_def stm_Inr purge_statement_def affected_def split: if_splits)

lemma keys_cong: "idempotency_keys db' = idempotency_keys db \<Longrightarrow> find_key s k db' = find_key s k db \<and> keyed db' = keyed db"
  by (simp add: find_key_def keyed_def)

lemma keyed_step: "key_step lo hi db db' \<Longrightarrow> keyed db \<Longrightarrow> keyed db'"
proof (induction rule: key_step.induct)
  case (s_claim env tx scope key digest db out db')
  from Claim_keys[OF s_claim(1)] s_claim(2) show ?case by (auto simp: keyed_def find_key_None key_of_def)
next
  case (s_complete env tx scope key digest status body db db')
  from s_complete(1) show ?case
    by (rule Complete_keys) (use s_complete(3) in \<open>auto simp: keyed_def complete_statement_def key_of_def map_update_where\<close>)
next
  case (s_purge env tx retention db n db')
  from Purge_keys[OF s_purge(1)] s_purge(3) show ?case by (auto simp: keyed_def distinct_map_filter)
qed (use keys_cong in blast)

text \<open>A row in the window: not completed yet, or completed too recently for any purge to reach it.\<close>

definition retained :: "time \<Rightarrow> key_row \<Rightarrow> bool" where
  "retained hi k \<longleftrightarrow> (case k_completed_at k of None \<Rightarrow> True | Some t \<Rightarrow> hi < t + day_ns)"

definition settled :: "key_row \<Rightarrow> bool" where
  "settled k \<longleftrightarrow> k_completed_at k \<noteq> None"

lemma key_step_row:
  assumes "key_step lo hi db db'" "keyed db" "find_key s c db = Some k" "retained hi k" "settled k \<or> hi < lo + day_ns"
  shows "\<exists>k'. find_key s c db' = Some k' \<and> retained hi k' \<and> k_request_digest k' = k_request_digest k \<and> (settled k \<longrightarrow> k' = k)"
  using assms(1) keyed_step[OF assms(1,2)]
proof (cases rule: key_step.cases)
  case (s_claim env tx scope key digest out)
  with Claim_keys[OF s_claim(1)] assms(2-4) keyed_step[OF assms(1,2)] show ?thesis by (auto simp: find_key_Some)
next
  case (s_complete env tx scope key digest status body)
  define m where "m = complete_matches (trim_space scope) (trim_space key) (trim_space digest)"
  from s_complete(1) obtain j where "idempotency_keys db' = update_where m
      (\<lambda>k. k\<lparr>k_response_status := Some status, k_response_body := Some (jsonb j), k_completed_at := Some (tx_now env)\<rparr>) (idempotency_keys db)"
    by (rule Complete_keys) (auto simp: complete_statement_def m_def)
  moreover have "k \<in> set (idempotency_keys db)" "key_of k = (s, c)" using assms(2,3) by (simp_all add: find_key_Some)
  ultimately have "(if m k then k\<lparr>k_response_status := Some status, k_response_body := Some (jsonb j), k_completed_at := Some (tx_now env)\<rparr> else k)
      \<in> set (idempotency_keys db')" by (auto simp: set_update_where)
  moreover have "\<not> settled k" if "m k" using that by (simp add: m_def complete_matches_def settled_def)
  ultimately show ?thesis
    using assms(4,5) s_complete(2) \<open>key_of k = (s, c)\<close> find_key_Some[OF keyed_step[OF assms(1,2)]]
    by (cases "m k") (auto simp: retained_def key_of_def)
next
  case (s_purge env tx retention n)
  then obtain retain where r: "day_ns \<le> retain" "idempotency_keys db' = filter (\<lambda>k. \<not> expired env retain k) (idempotency_keys db)"
    using Purge_keys by blast
  have "\<not> expired env retain k" using assms(4) r(1) s_purge(2) by (auto simp: retained_def expired_def split: option.splits)
  then show ?thesis
    using assms(2-4) r(2) find_key_Some[OF keyed_step[OF assms(1,2)]] by (intro exI[of _ k]) (simp add: find_key_Some)
next
  case s_other
  then show ?thesis using assms(3,4) keys_cong[of db' db] by auto
qed

lemma key_steps_row:
  assumes "(key_step lo hi)\<^sup>*\<^sup>* db db'" "keyed db" "find_key s c db = Some k" "retained hi k" "settled k \<or> hi < lo + day_ns"
  shows "keyed db' \<and> (\<exists>k'. find_key s c db' = Some k' \<and> retained hi k' \<and> k_request_digest k' = k_request_digest k \<and> (settled k \<longrightarrow> k' = k))"
  using assms(1)
proof (induction rule: rtranclp_induct)
  case (step db1 db2)
  then obtain k' where k': "find_key s c db1 = Some k'" "retained hi k'" "k_request_digest k' = k_request_digest k" "settled k \<longrightarrow> k' = k"
    by blast
  have "settled k' \<or> hi < lo + day_ns" using k'(4) assms(5) by auto
  from key_step_row[OF step(2) conjunct1[OF step(3)] k'(1,2) this] keyed_step[OF step(2)] step(3) k' show ?case by auto
qed (use assms in auto)

text \<open>What a claim answers when the key is there.\<close>

lemma Claim_existing:
  assumes "validate tx scope key digest = Inr ()" "fault env ClaimKey = None" "fault env LoadKey = None"
    "find_key (trim_space scope) (trim_space key) db = Some k"
  shows "Claim env tx scope key digest db =
    ((if k_request_digest k \<noteq> trim_space digest then (zero_result, Some ErrConflict)
      else case (k_completed_at k, k_response_status k) of
          (Some _, Some status) \<Rightarrow> (\<lparr>State = StateReplay, Status = status, Body = k_response_body k\<rparr>, None)
        | _ \<Rightarrow> (zero_result\<lparr>State := StateInProgress\<rparr>, Some ErrInProgress)), db)"
  using assms by (simp add: Claim_def Let_def exec_def claim_key_statement_def read_key_statement_def split: option.split)

section \<open>A key from claim to replay\<close>

definition key_env :: txenv where
  "key_env = \<lparr>env_open = True, env_bound = Inr (), env_driver = \<lparr>begin_err = None, commit_ack = CommitOk\<rparr>,
     tx_now = 50, stmt_now = (\<lambda>_. 50), fault = (\<lambda>_. None), row_locked = (\<lambda>_. False)\<rparr>"

definition no_keys :: database where
  "no_keys = \<lparr>outbox = [], outbox_delivery = [], subscriptions = [], dead_letters = [], delivery_receipts = [],
     processed_events = [], idempotency_keys = [], outbox_sequence = 0\<rparr>"

definition sample_tx :: tx_value where
  "sample_tx = TxValue OtherKind False"

lemma sample_trims: "trim_space ''s'' = ''s''" "trim_space ''k'' = ''k''" "trim_space ''d'' = ''d''" "trim_space ''e'' = ''e''"
  by code_simp+

lemma sample_validate: "validate sample_tx ''s'' ''k'' ''d'' = Inr ()" "validate sample_tx ''s'' ''k'' ''e'' = Inr ()"
  by (simp_all add: validate_def sample_trims sample_tx_def IsNilTx_def)

lemma sample_claimed:
  obtains db where "Claim key_env sample_tx ''s'' ''k'' ''d'' no_keys = ((zero_result\<lparr>State := StateClaimed\<rparr>, None), db)"
    "idempotency_keys db = [\<lparr>k_scope = ''s'', k_key = ''k'', k_request_digest = ''d'', k_response_status = None,
        k_response_body = None, k_claimed_at = 50, k_completed_at = None\<rparr>]"
  by (simp add: Claim_def sample_validate Let_def exec_def key_env_def claim_key_statement_def find_key_def no_keys_def sample_trims)

text \<open>
  C7: A key executes once: when a claim reserved a key, then after whatever claims, completions and purges commit within the retention window
  no claim of the key, with whatever digest, reserves it again; a claim with another digest is refused with
  \<^verbatim>\<open>ErrConflict\<close>, and one with the same digest is in progress or a replay, and changes nothing.
\<close>

theorem claim_executes_once:
  assumes "keyed db" "Claim env tx scope key digest db = ((r, None), db1)" "State r = StateClaimed"
    "(key_step lo hi)\<^sup>*\<^sup>* db1 db2" "hi < lo + day_ns"
    "validate tx' scope key digest' = Inr ()" "fault env' ClaimKey = None" "fault env' LoadKey = None"
  shows "case Claim env' tx' scope key digest' db2 of ((r', err), db3) \<Rightarrow>
      db3 = db2 \<and> State r' \<noteq> StateClaimed
      \<and> (if trim_space digest' \<noteq> trim_space digest then err = Some ErrConflict
         else State r' = StateInProgress \<and> err = Some ErrInProgress \<or> State r' = StateReplay \<and> err = None)"
proof -
  define k where "k = \<lparr>k_scope = trim_space scope, k_key = trim_space key, k_request_digest = trim_space digest,
     k_response_status = None, k_response_body = None, k_claimed_at = tx_now env, k_completed_at = None\<rparr>"
  have k1: "keyed db1" using keyed_step[OF s_claim[OF assms(2)] assms(1)] .
  have k: "find_key (trim_space scope) (trim_space key) db1 = Some k" "k_completed_at k = None" "k_request_digest k = trim_space digest"
    using Claim_fresh[OF assms(2,3)] by (simp_all add: find_key_Some[OF k1] key_of_def k_def)
  obtain k' where "find_key (trim_space scope) (trim_space key) db2 = Some k'" "k_request_digest k' = trim_space digest"
    using key_steps_row[OF assms(4) k1 k(1)] k(2,3) assms(5) by (auto simp: retained_def)
  with Claim_existing[OF assms(6-8)] show ?thesis by (auto simp: zero_result_def split: option.split)
qed

theorem claim_executes_once_witness:
  "\<exists>db. fst (Claim key_env sample_tx ''s'' ''k'' ''e'' db) = (zero_result, Some ErrConflict) \<and> idempotency_keys db \<noteq> []"
proof -
  obtain db where c: "Claim key_env sample_tx ''s'' ''k'' ''d'' no_keys = ((zero_result\<lparr>State := StateClaimed\<rparr>, None), db)"
    and k: "idempotency_keys db = [\<lparr>k_scope = ''s'', k_key = ''k'', k_request_digest = ''d'', k_response_status = None,
        k_response_body = None, k_claimed_at = 50, k_completed_at = None\<rparr>]" using sample_claimed .
  have "keyed no_keys" by (simp add: keyed_def no_keys_def)
  from claim_executes_once[OF this c _ rtranclp.rtrancl_refl _ sample_validate(2), where lo = 0 and hi = 0 and env' = key_env]
  have "snd (fst (Claim key_env sample_tx ''s'' ''k'' ''e'' db)) = Some ErrConflict"
    by (auto simp: sample_trims key_env_def day_ns_def split: prod.splits)
  moreover have "find_key ''s'' ''k'' db = Some (hd (idempotency_keys db))" by (simp add: k find_key_def key_of_def)
  ultimately show ?thesis
    using Claim_existing[OF sample_validate(2), of key_env db] k by (intro exI[of _ db]) (simp add: sample_trims key_env_def)
qed

lemma completed_replays:
  assumes "keyed db" "Complete env tx scope key digest status body db = (Inr (), db1)"
    "(key_step lo hi)\<^sup>*\<^sup>* db1 db2" "hi < tx_now env + day_ns" "fault env' ClaimKey = None" "fault env' LoadKey = None"
  shows "\<exists>j. body = Document j \<and> 100 \<le> status \<and> status \<le> 599
    \<and> Claim env' tx scope key digest db2 = ((\<lparr>State = StateReplay, Status = status, Body = Some (jsonb j)\<rparr>, None), db2)"
proof -
  from assms(2) obtain j where j: "body = Document j" "validate tx scope key digest = Inr ()" "100 \<le> status" "status \<le> 599"
    "complete_statement env (trim_space scope) (trim_space key) (trim_space digest) status j db = (Inr 1, db1)"
    by (rule Complete_keys)
  define m where "m = complete_matches (trim_space scope) (trim_space key) (trim_space digest)"
  have k1: "keyed db1" using keyed_step[OF s_complete[OF assms(2) order_refl] assms(1)] .
  have "affected m (idempotency_keys db) = 1" using j(5) by (simp add: complete_statement_def m_def)
  then have "\<exists>k \<in> set (idempotency_keys db). m k" using affected_pos[of m "idempotency_keys db"] by simp
  then obtain k where k: "k \<in> set (idempotency_keys db)" "m k" by blast
  let ?k = "k\<lparr>k_response_status := Some status, k_response_body := Some (jsonb j), k_completed_at := Some (tx_now env)\<rparr>"
  have "idempotency_keys db1 = update_where m
      (\<lambda>k. k\<lparr>k_response_status := Some status, k_response_body := Some (jsonb j), k_completed_at := Some (tx_now env)\<rparr>) (idempotency_keys db)"
    using j(5) by (auto simp: complete_statement_def m_def)
  then have "?k \<in> set (idempotency_keys db1)" using k by (auto simp: set_update_where)
  then have f: "find_key (trim_space scope) (trim_space key) db1 = Some ?k"
    using k(2) k1 by (simp add: find_key_Some m_def complete_matches_def key_of_def)
  have "settled ?k" "retained hi ?k" using assms(4) by (simp_all add: settled_def retained_def)
  with key_steps_row[OF assms(3) k1 f] have "find_key (trim_space scope) (trim_space key) db2 = Some ?k" by auto
  from Claim_existing[OF j(2) assms(5,6) this] j k(2) show ?thesis by (simp add: m_def complete_matches_def)
qed

text \<open>
  C20: A completed response is replayed: after \<^verbatim>\<open>Complete\<close> commits, and whatever commits after it, every claim with the same
  key and digest answers the recorded status and a body that says what the completed body said: the same members, each name once with the last of its
  values, the same elements and texts, and numbers of the same value. The body is the normal form the \<^verbatim>\<open>jsonb\<close> column keeps, so its bytes
  may differ from those that were sent, and two replays do not differ. The claim changes nothing. This holds at least until a purge runs 24 hours after the completion.
\<close>

theorem replay_exact:
  assumes "keyed db" "Complete env tx scope key digest status body db = (Inr (), db1)"
    "(key_step lo hi)\<^sup>*\<^sup>* db1 db2" "hi < tx_now env + day_ns" "fault env' ClaimKey = None" "fault env' LoadKey = None"
  shows "\<exists>j. body = Document j \<and> 100 \<le> status \<and> status \<le> 599
    \<and> Claim env' tx scope key digest db2 = ((\<lparr>State = StateReplay, Status = status, Body = Some (jsonb j)\<rparr>, None), db2)
    \<and> denotes (jsonb j) = denotes j \<and> unique_members (jsonb j)"
  using completed_replays[OF assms] jsonb_denotes jsonb_unique by blast

theorem replay_exact_witness:
  "\<exists>db. Claim key_env sample_tx ''s'' ''k'' ''d'' db =
     ((\<lparr>State = StateReplay, Status = 201, Body = Some (JObj [(''id'', JBool True), (''state'', JNull)])\<rparr>, None), db)"
proof -
  obtain db where c: "Claim key_env sample_tx ''s'' ''k'' ''d'' no_keys = ((zero_result\<lparr>State := StateClaimed\<rparr>, None), db)"
    and k: "idempotency_keys db = [\<lparr>k_scope = ''s'', k_key = ''k'', k_request_digest = ''d'', k_response_status = None,
        k_response_body = None, k_claimed_at = 50, k_completed_at = None\<rparr>]" using sample_claimed .
  have kd: "keyed db" by (simp add: keyed_def k)
  let ?j = "JObj [(''state'', JNull), (''id'', JNull), (''id'', JBool True)]"
  obtain db1 where d: "Complete key_env sample_tx ''s'' ''k'' ''d'' 201 (Document ?j) db = (Inr (), db1)"
    by (simp add: Complete_def sample_validate bind_stm_def wrap_def exec_def key_env_def complete_statement_def affected_def
        complete_matches_def key_of_def k sample_trims return_def)
  have j: "jsonb ?j = JObj [(''id'', JBool True), (''state'', JNull)]" by (simp add: put_all_def jsonb_less_def)
  from replay_exact[OF kd d rtranclp.rtrancl_refl, where hi = 0 and env' = key_env] j
  show ?thesis by (auto simp: key_env_def day_ns_def)
qed

end
