(* ===== verification/Withhold.thy ===== *)
theory Withhold
  imports Idempotency
begin

text \<open>
  \<^verbatim>\<open>src/idempotency/withhold.go\<close>: the stored response beside the live one. A document decoded into \<^verbatim>\<open>any\<close> is a tree whose objects have their
  members once and in sorted order, which is how \<^verbatim>\<open>json.Marshal\<close> writes a map; the aliasing of the source's
  in-place deletion is trivial on a freshly decoded tree.
\<close>

definition ErrNotWithheld :: goerror where
  "ErrNotWithheld = New ''idempotency: a withheld member is not in the response''"

definition ErrNothingWithheld :: goerror where
  "ErrNothingWithheld = New ''idempotency: no member to withhold was named''"

definition ErrInvalidPointer :: goerror where
  "ErrInvalidPointer = New ''idempotency: invalid JSON Pointer''"

section \<open>Decoding\<close>

fun decode_any :: "json \<Rightarrow> json" where
  "decode_any (JObj ms) = JObj (put_all str_less (map (\<lambda>m. (fst m, decode_any (snd m))) ms))"
| "decode_any (JArr xs) = JArr (map decode_any xs)"
| "decode_any j = j"

text \<open>The source tells bytes that are no JSON from bytes after the one value by the text of the error only.\<close>

definition decodeDocument :: "raw \<Rightarrow> json result" where
  "decodeDocument body =
     (case body of
        Document j \<Rightarrow> Inr (decode_any j)
      | _ \<Rightarrow> Inl (New ''idempotency: response body must be valid JSON''))"

section \<open>Pointers\<close>

fun strip_escapes :: "string \<Rightarrow> string" where
  "strip_escapes (a # b # s) =
     (if a = CHR ''~'' \<and> (b = CHR ''0'' \<or> b = CHR ''1'') then strip_escapes s else a # strip_escapes (b # s))"
| "strip_escapes s = s"

fun replace_escape :: "char \<Rightarrow> char \<Rightarrow> string \<Rightarrow> string" where
  "replace_escape d r (a # b # s) =
     (if a = CHR ''~'' \<and> b = d then r # replace_escape d r s else a # replace_escape d r (b # s))"
| "replace_escape d r s = s"

definition unescape :: "string \<Rightarrow> string" where
  "unescape token = replace_escape (CHR ''0'') (CHR ''~'') (replace_escape (CHR ''1'') (CHR ''/'') token)"

definition pointer_tokens :: "string \<Rightarrow> string list result" where
  "pointer_tokens pointer =
     (if pointer = '''' \<or> \<not> has_prefix pointer ''/''
      then Inl (Wrapf ''must name a member, starting with /'' [ErrInvalidPointer])
      else let tokens = split_on (CHR ''/'') (drop 1 pointer) in
        if \<exists>t \<in> set tokens. CHR ''~'' \<in> set (strip_escapes t)
        then Inl (Wrapf ''has a ~ that is not ~0 or ~1'' [ErrInvalidPointer])
        else Inr (map unescape tokens))"

definition arrayIndex :: "string \<Rightarrow> nat \<Rightarrow> nat option" where
  "arrayIndex token len =
     (if token = '''' \<or> length token > 1 \<and> hd token = CHR ''0'' then None
      else if \<not> list_all is_digit token then None
      else case atoi token of
        None \<Rightarrow> None
      | Some i \<Rightarrow> if i \<ge> int len then None else Some (nat i))"

definition not_withheld :: goerror where
  "not_withheld = Wrapf ''withholding'' [ErrNotWithheld]"

fun remove_path :: "string list \<Rightarrow> json \<Rightarrow> json result" where
  "remove_path [] j = Inl not_withheld"
| "remove_path [t] j =
     (case j of
        JObj ms \<Rightarrow> if t \<in> fst ` set ms then Inr (JObj (filter (\<lambda>m. fst m \<noteq> t) ms)) else Inl not_withheld
      | JArr xs \<Rightarrow> Inl (Wrapf ''names an array element, not an object member'' [ErrInvalidPointer])
      | _ \<Rightarrow> Inl not_withheld)"
| "remove_path (t # u # ts) j =
     (case j of
        JObj ms \<Rightarrow>
          (case map_of ms t of
             None \<Rightarrow> Inl not_withheld
           | Some v \<Rightarrow> map_sum id (\<lambda>v'. JObj (map (\<lambda>m. if fst m = t then (t, v') else m) ms)) (remove_path (u # ts) v))
      | JArr xs \<Rightarrow>
          (case arrayIndex t (length xs) of
             None \<Rightarrow> Inl not_withheld
           | Some i \<Rightarrow> map_sum id (\<lambda>v'. JArr (xs[i := v'])) (remove_path (u # ts) (xs ! i)))
      | _ \<Rightarrow> Inl not_withheld)"

definition removeMember :: "json \<Rightarrow> string \<Rightarrow> json result" where
  "removeMember document pointer = bind_result (pointer_tokens pointer) (\<lambda>tokens. remove_path tokens document)"

fun remove_members :: "json \<Rightarrow> string list \<Rightarrow> json result" where
  "remove_members document [] = Inr document"
| "remove_members document (p # ps) = bind_result (removeMember document p) (\<lambda>d. remove_members d ps)"

definition Withhold :: "raw \<Rightarrow> string list \<Rightarrow> raw result" where
  "Withhold body pointers =
     bind_result (decodeDocument body) (\<lambda>document. map_sum id Document (remove_members document pointers))"

definition CompleteWithheld ::
  "txenv \<Rightarrow> tx_value \<Rightarrow> string \<Rightarrow> string \<Rightarrow> string \<Rightarrow> int \<Rightarrow> raw \<Rightarrow> string list \<Rightarrow> unit stm" where
  "CompleteWithheld env tx scope key digest status body withheld =
     (if withheld = [] then throw ErrNothingWithheld
      else case validate tx scope key digest of
        Inl err \<Rightarrow> throw err
      | Inr _ \<Rightarrow>
          (case Withhold body withheld of
             Inl err \<Rightarrow> throw err
           | Inr stored \<Rightarrow> Complete env tx scope key digest status stored))"

section \<open>What a pointer names\<close>

text \<open>RFC 6901 evaluation, and the trees whose objects name each member once.\<close>

fun resolve :: "string list \<Rightarrow> json \<Rightarrow> json option" where
  "resolve [] j = Some j"
| "resolve (t # ts) j =
     (case j of
        JObj ms \<Rightarrow> (case map_of ms t of None \<Rightarrow> None | Some v \<Rightarrow> resolve ts v)
      | JArr xs \<Rightarrow> (case arrayIndex t (length xs) of None \<Rightarrow> None | Some i \<Rightarrow> resolve ts (xs ! i))
      | _ \<Rightarrow> None)"

fun scalar :: "json \<Rightarrow> bool" where
  "scalar (JObj ms) = False"
| "scalar (JArr xs) = False"
| "scalar j = True"

lemma digit_char_val: "is_digit c \<Longrightarrow> digit_char (nat (digit_val c)) = c"
  by (auto simp: is_digit_def digit_char_def digit_val_def of_char_int nat_diff_distrib)

lemma digit_val_zero: "is_digit c \<Longrightarrow> c \<noteq> CHR ''0'' \<Longrightarrow> 0 < digit_val c"
proof (rule ccontr)
  assume c: "is_digit c" "c \<noteq> CHR ''0''" "\<not> 0 < digit_val c"
  then have "digit_val c = 0" using digit_val_range by force
  then have "(of_char c :: nat) = of_char CHR ''0''" by (simp add: digit_val_def of_char_int)
  with c(2) show False by (metis char_of_char)
qed

lemma atoi_is_digits: "list_all is_digit s \<Longrightarrow> s \<noteq> [] \<Longrightarrow> atoi s = Some n \<Longrightarrow> n = digits_val s"
  by (cases s) (auto simp: atoi_def Let_def dest: digit_not_sign split: if_splits)

lemma canonical_digits:
  "list_all is_digit s \<Longrightarrow> s \<noteq> [] \<Longrightarrow> hd s \<noteq> CHR ''0'' \<Longrightarrow> 0 < digits_val s \<and> show_nat (nat (digits_val s)) = s"
proof (induction s rule: rev_induct)
  case (snoc c s)
  have c: "is_digit c" using snoc.prems(1) by simp
  show ?case
  proof (cases "s = []")
    case True
    then show ?thesis
      using c snoc.prems(3) digit_val_zero[OF c] digit_val_range[OF c] digit_char_val[OF c]
      by (simp add: digits_val_def show_nat.simps[of "nat (digit_val c)"] nat_less_iff)
  next
    case False
    then have i: "0 < digits_val s" "show_nat (nat (digits_val s)) = s" using snoc by auto
    define n where "n = nat (10 * digits_val s + digit_val c)"
    have "n = 10 * nat (digits_val s) + nat (digit_val c)"
      using i(1) digit_val_range[OF c] by (simp add: n_def nat_add_distrib nat_mult_distrib)
    then have "n div 10 = nat (digits_val s)" "n mod 10 = nat (digit_val c)" "\<not> n < 10"
      using i(1) digit_val_range[OF c] by auto
    with i digit_char_val[OF c] digit_val_range[OF c] show ?thesis
      by (simp add: show_nat.simps[of n] flip: n_def)
  qed
qed simp

lemma arrayIndex_Some:
  assumes "arrayIndex t len = Some i"
  shows "t = show_nat i" "i < len"
proof -
  have t: "list_all is_digit t" "t \<noteq> []" "length t > 1 \<longrightarrow> hd t \<noteq> CHR ''0''"
    using assms by (auto simp: arrayIndex_def split: if_splits)
  obtain n where n: "atoi t = Some n" "n < int len" "i = nat n"
    using assms by (auto simp: arrayIndex_def split: if_splits option.splits)
  have d: "digits_val t = int i" using atoi_is_digits[OF t(1,2) n(1)] digits_val_nonneg[OF t(1)] n(3) by simp
  then show "i < len" using atoi_is_digits[OF t(1,2) n(1)] n(2) by simp
  show "t = show_nat i"
  proof (cases "hd t = CHR ''0''")
    case True
    then have "t = ''0''" using t by (cases t) auto
    moreover have "show_nat 0 = ''0''" by code_simp
    ultimately show ?thesis using d by (simp add: digits_val_def digit_val_def)
  next
    case False
    with canonical_digits[OF t(1,2)] d show ?thesis by simp
  qed
qed


section \<open>Members\<close>

lemma decode_any_unique: "unique_members (decode_any j)"
proof (induction j rule: decode_any.induct)
  case (1 ms)
  have "unique_members (snd x)" if "x \<in> set (put_all str_less (map (\<lambda>m. (fst m, decode_any (snd m))) ms))" for x
    using put_all_members[OF that] 1 by auto
  then show ?case by (simp add: go_keys.distinct_all)
qed auto

text \<open>On a document that names each member once, the stored normal form has at every place the normal form of what was there.\<close>

lemma map_of_map_prod: "map_of (map (map_prod id f) ms) k = map_option f (map_of ms k)"
  by (induction ms) auto

lemma map_of_rev_unique: "distinct (map fst ms) \<Longrightarrow> map_of (rev ms) = map_of ms"
  using map_of_inject_set[of "rev ms" ms] by (simp flip: rev_map)

lemma resolve_jsonb: "unique_members j \<Longrightarrow> resolve ts (jsonb j) = map_option jsonb (resolve ts j)"
proof (induction ts arbitrary: j)
  case (Cons t ts)
  show ?case
  proof (cases j)
    case (JObj ms)
    have "map_of (put_all jsonb_less (map (map_prod id jsonb) ms)) t = map_option jsonb (map_of ms t)"
      using Cons.prems JObj by (simp add: map_of_put_all map_of_rev_unique rev_map map_of_map_prod flip: map_map)
    with Cons JObj show ?thesis by (auto split: option.split dest!: map_of_SomeD)
  next
    case (JArr xs)
    with Cons show ?thesis by (auto split: option.split dest: arrayIndex_Some(2))
  qed simp_all
qed simp

section \<open>Removing a member\<close>

lemma map_of_without: "map_of (filter (\<lambda>m. fst m \<noteq> t) ms) x = (if x = t then None else map_of ms x)"
  by (induction ms) auto

lemma map_of_replace:
  "map_of (map (\<lambda>m. if fst m = t then (t, v) else m) ms) x = (if x = t \<and> map_of ms t \<noteq> None then Some v else map_of ms x)"
  by (induction ms) auto

lemma arrayIndex_eq: "arrayIndex t len = Some i \<Longrightarrow> arrayIndex x len = Some i \<Longrightarrow> x = t"
  using arrayIndex_Some(1) by metis

lemma remove_unique: "remove_path ts j = Inr j' \<Longrightarrow> unique_members j \<Longrightarrow> unique_members j'"
proof (induction ts j arbitrary: j' rule: remove_path.induct)
  case (2 t j)
  then show ?case by (cases j) (auto simp: distinct_map_filter split: if_splits)
next
  case (3 t u ts j)
  show ?case
  proof (cases j)
    case (JObj ms)
    with "3.prems"(1) obtain v v' where v: "map_of ms t = Some v" "remove_path (u # ts) v = Inr v'"
      "j' = JObj (map (\<lambda>m. if fst m = t then (t, v') else m) ms)"
      by (auto split: option.splits simp: map_sum_def split: sum.splits)
    have "unique_members v'" using "3.IH"(2)[OF JObj v(1,2)] "3.prems"(2) JObj v(1) by (auto dest!: map_of_SomeD)
    moreover have "map fst (map (\<lambda>m. if fst m = t then (t, v') else m) ms) = map fst ms" by auto
    then have "distinct (map fst (map (\<lambda>m. if fst m = t then (t, v') else m) ms))" using "3.prems"(2) JObj by (simp only:) simp
    ultimately show ?thesis using "3.prems"(2) JObj v(3) by auto
  next
    case (JArr xs)
    with "3.prems"(1) obtain i v' where i: "arrayIndex t (length xs) = Some i" "remove_path (u # ts) (xs ! i) = Inr v'" "j' = JArr (xs[i := v'])"
      by (auto split: option.splits simp: map_sum_def split: sum.splits)
    have "unique_members v'" using "3.IH"(1)[OF JArr i(1,2)] "3.prems"(2) JArr arrayIndex_Some(2)[OF i(1)] by simp
    then show ?thesis using "3.prems"(2) JArr i(3) by (auto dest!: set_update_subset_insert[THEN subsetD])
  qed (use "3.prems"(1) in auto)
qed simp

lemma remove_resolve:
  "remove_path ts j = Inr j' \<Longrightarrow>
     (\<exists>v. resolve ts j = Some v) \<and> resolve (ts @ q) j' = None \<and> (resolve p j = None \<longrightarrow> resolve p j' = None)
     \<and> (scalar v \<longrightarrow> (resolve p j' = Some v \<longleftrightarrow> resolve p j = Some v \<and> \<not> prefix ts p))"
proof (induction ts j arbitrary: j' p rule: remove_path.induct)
  case (2 t j)
  then obtain ms where j: "j = JObj ms" "t \<in> fst ` set ms" "j' = JObj (filter (\<lambda>m. fst m \<noteq> t) ms)"
    by (cases j) (auto split: if_splits)
  have "\<exists>v. map_of ms t = Some v" using j(2) by (metis map_of_eq_None_iff not_Some_eq)
  moreover have "(resolve p j = None \<longrightarrow> resolve p j' = None) \<and> (scalar v \<longrightarrow> (resolve p j' = Some v \<longleftrightarrow> resolve p j = Some v \<and> \<not> prefix [t] p))"
    by (cases p) (auto simp: j map_of_without split: option.splits)
  ultimately show ?case by (auto simp: j map_of_without split: option.splits)
next
  case (3 t u ts j)
  show ?case
  proof (cases j)
    case (JObj ms)
    with "3.prems"(1) obtain w w' where w: "map_of ms t = Some w" "remove_path (u # ts) w = Inr w'"
      "j' = JObj (map (\<lambda>m. if fst m = t then (t, w') else m) ms)"
      by (auto split: option.splits simp: map_sum_def split: sum.splits)
    note i = "3.IH"(2)[OF JObj w(1,2)]
    have "(resolve p j = None \<longrightarrow> resolve p j' = None) \<and> (scalar v \<longrightarrow> (resolve p j' = Some v \<longleftrightarrow> resolve p j = Some v \<and> \<not> prefix (t # u # ts) p))"
    proof (cases p)
      case (Cons x q)
      show ?thesis
      proof (cases "x = t")
        case True
        with i[of q] w show ?thesis by (simp add: JObj map_of_replace Cons)
      qed (simp add: JObj map_of_replace Cons w(3))
    qed (auto simp: JObj w(3))
    then show ?thesis using i[of p] w by (simp add: JObj map_of_replace)
  next
    case (JArr xs)
    with "3.prems"(1) obtain k w' where k: "arrayIndex t (length xs) = Some k" "remove_path (u # ts) (xs ! k) = Inr w'" "j' = JArr (xs[k := w'])"
      by (auto split: option.splits simp: map_sum_def split: sum.splits)
    note i = "3.IH"(1)[OF JArr k(1,2)]
    have "(resolve p j = None \<longrightarrow> resolve p j' = None) \<and> (scalar v \<longrightarrow> (resolve p j' = Some v \<longleftrightarrow> resolve p j = Some v \<and> \<not> prefix (t # u # ts) p))"
    proof (cases p)
      case (Cons x q)
      show ?thesis
      proof (cases "arrayIndex x (length xs)")
        case (Some m)
        then show ?thesis
          using i[of q] k arrayIndex_Some(2)[OF k(1)] arrayIndex_eq[OF k(1), of x] by (cases "m = k") (auto simp: JArr Cons)
      qed (simp add: JArr Cons k)
    qed (auto simp: JArr k)
    then show ?thesis using i[of p] k arrayIndex_Some(2)[OF k(1)] by (simp add: JArr)
  qed (use "3.prems"(1) in auto)
qed simp

section \<open>Withholding\<close>

text \<open>What is left of a document when the members at these paths are gone.\<close>

definition without :: "json \<Rightarrow> string list list \<Rightarrow> json \<Rightarrow> bool" where
  "without j tss out \<longleftrightarrow>
     (\<forall>ts \<in> set tss. (\<exists>v. resolve ts j = Some v) \<and> (\<forall>q. resolve (ts @ q) out = None))
     \<and> (\<forall>p v. scalar v \<longrightarrow> (resolve p out = Some v \<longleftrightarrow> resolve p j = Some v \<and> (\<forall>ts \<in> set tss. \<not> prefix ts p)))"

lemma removeMember_Inr:
  "removeMember d p = Inr d' \<longleftrightarrow> (\<exists>ts. pointer_tokens p = Inr ts \<and> remove_path ts d = Inr d')"
  by (simp add: removeMember_def)

lemma remove_members_without:
  "remove_members d ps = Inr out \<Longrightarrow> unique_members d \<Longrightarrow>
     unique_members out \<and> (\<forall>p. resolve p d = None \<longrightarrow> resolve p out = None)
     \<and> (\<exists>tss. map pointer_tokens ps = map Inr tss \<and> without d tss out)"
proof (induction ps arbitrary: d)
  case Nil
  then show ?case by (auto simp: without_def)
next
  case (Cons p ps)
  then obtain ts d' where s: "pointer_tokens p = Inr ts" "remove_path ts d = Inr d'" "remove_members d' ps = Inr out"
    by (auto simp: removeMember_Inr)
  obtain tss where i: "unique_members out" "\<forall>p. resolve p d' = None \<longrightarrow> resolve p out = None"
    "map pointer_tokens ps = map Inr tss" "without d' tss out"
    using Cons.IH[OF s(3) remove_unique[OF s(2) Cons.prems(2)]] by blast
  note r = remove_resolve[OF s(2)]
  have a: "resolve p out = None" if "resolve p d = None" for p using that r i(2) by blast
  have g: "resolve (ts @ q) out = None" for q using r i(2) by blast
  have t: "\<exists>v. resolve us d = Some v" if "us \<in> set tss" for us
    using that i(4) r[where p = us] unfolding without_def by (metis not_Some_eq)
  have v: "resolve p out = Some v \<longleftrightarrow> resolve p d = Some v \<and> (\<forall>us \<in> set (ts # tss). \<not> prefix us p)" if "scalar v" for p v
    using that i(4) r[where v = v and p = p] unfolding without_def by auto
  have "without d (ts # tss) out"
    using r g t v i(4) unfolding without_def by auto
  then show ?case using i(1,3) a s(1) by (intro conjI exI[of _ "ts # tss"]) auto
qed

lemma Withhold_Inr:
  assumes "Withhold body ps = Inr stored"
  shows "\<exists>j tss out. body = Document j \<and> stored = Document out \<and> map pointer_tokens ps = map Inr tss
    \<and> unique_members out \<and> without (decode_any j) tss out"
  using assms remove_members_without[OF _ decode_any_unique]
  by (auto simp: Withhold_def decodeDocument_def map_sum_def split: raw.splits sum.splits)

text \<open>
  C22: The stored response is the live one without the withheld members, and nothing else: every pointer was a well-formed one that named a member of the
  response, nothing at or below a withheld pointer is left, the record names no member twice, and every other scalar of the response is there, at the
  same place and with the same value; the record holds no value the response did not have at that place.
\<close>

theorem Withhold_removes:
  assumes "Withhold body ps = Inr stored"
  shows "\<exists>j tss out. body = Document j \<and> stored = Document out \<and> map pointer_tokens ps = map Inr tss \<and> unique_members out
    \<and> (\<forall>ts \<in> set tss. (\<exists>v. resolve ts (decode_any j) = Some v) \<and> (\<forall>q. resolve (ts @ q) out = None))
    \<and> (\<forall>p v. scalar v \<longrightarrow> (resolve p out = Some v \<longleftrightarrow> resolve p (decode_any j) = Some v \<and> (\<forall>ts \<in> set tss. \<not> prefix ts p)))"
  using Withhold_Inr[OF assms] unfolding without_def by blast

definition sample_response :: json where
  "sample_response = JObj [(''id'', JStr ''7''), (''credential'', JObj [(''value'', JStr ''s3cret''), (''kind'', JStr ''otp'')])]"

lemma sample_withheld:
  "Withhold (Document sample_response) [''/credential/value''] =
     Inr (Document (JObj [(''credential'', JObj [(''kind'', JStr ''otp'')]), (''id'', JStr ''7'')]))"
  by code_simp

theorem Withhold_removes_witness:
  "resolve [''credential'', ''value''] (JObj [(''credential'', JObj [(''kind'', JStr ''otp'')]), (''id'', JStr ''7'')]) = None"
proof -
  have t: "pointer_tokens ''/credential/value'' = Inr [''credential'', ''value'']" by code_simp
  from Withhold_removes[OF sample_withheld] t show ?thesis by (auto dest: spec[of _ "[]"])
qed

text \<open>
  C21: A secret answered once is never in the record: after \<^verbatim>\<open>CompleteWithheld\<close> commits, and whatever commits in the retention window, every
  claim of the key replays the first response's status with a body, the \<^verbatim>\<open>jsonb\<close> normal form of the record, in which nothing is at or below a withheld pointer.
  When it fails, a pointer that names nothing included, no key row has changed.
\<close>

theorem CompleteWithheld_replays_without:
  assumes "keyed db"
  shows "case CompleteWithheld env tx scope key digest status body withheld db of
      (Inr _, db1) \<Rightarrow> withheld \<noteq> [] \<and> (\<exists>out tss. map pointer_tokens withheld = map Inr tss
        \<and> (\<forall>ts \<in> set tss. \<forall>q. resolve (ts @ q) out = None)
        \<and> (\<forall>lo hi db2 env'. (key_step lo hi)\<^sup>*\<^sup>* db1 db2 \<and> hi < tx_now env + day_ns \<and> fault env' ClaimKey = None \<and> fault env' LoadKey = None
            \<longrightarrow> Claim env' tx scope key digest db2 = ((\<lparr>State = StateReplay, Status = status, Body = Some out\<rparr>, None), db2)))
    | (Inl _, db1) \<Rightarrow> db1 = db"
proof (cases "CompleteWithheld env tx scope key digest status body withheld db")
  case (Pair r db1)
  show ?thesis
  proof (cases r)
    case (Inr x)
    with Pair obtain stored where s: "withheld \<noteq> []" "Withhold body withheld = Inr stored"
      "Complete env tx scope key digest status stored db = (Inr (), db1)"
      by (auto simp: CompleteWithheld_def split: if_splits sum.splits)
    obtain tss out where o: "stored = Document out" "map pointer_tokens withheld = map Inr tss"
      "\<forall>ts \<in> set tss. \<forall>q. resolve (ts @ q) out = None" "unique_members out"
      using Withhold_Inr[OF s(2)] unfolding without_def by blast
    then have g: "\<forall>ts \<in> set tss. \<forall>q. resolve (ts @ q) (jsonb out) = None" by (simp add: resolve_jsonb)
    have "Claim env' tx scope key digest db2 = ((\<lparr>State = StateReplay, Status = status, Body = Some (jsonb out)\<rparr>, None), db2)"
      if "(key_step lo hi)\<^sup>*\<^sup>* db1 db2" "hi < tx_now env + day_ns" "fault env' ClaimKey = None" "fault env' LoadKey = None" for lo hi db2 env'
      using completed_replays[OF assms s(3) that] o(1) by auto
    then show ?thesis unfolding Pair Inr using s(1) o(2) g by (simp, intro exI[of _ "jsonb out"] exI[of _ tss]) blast
  next
    case (Inl e)
    have "db1 = db" if "Complete env tx scope key digest status stored db = (Inl e, db1)" for stored
      by (rule Complete_failed[OF assms[unfolded keyed_def] that])
    then show ?thesis using Pair Inl by (auto simp: CompleteWithheld_def throw_def split: if_splits sum.splits)
  qed
qed

theorem CompleteWithheld_replays_without_witness:
  "\<exists>db db1 out. CompleteWithheld key_env sample_tx ''s'' ''k'' ''d'' 201 (Document sample_response) [''/credential/value''] db = (Inr (), db1)
     \<and> Claim key_env sample_tx ''s'' ''k'' ''d'' db1 = ((\<lparr>State = StateReplay, Status = 201, Body = Some out\<rparr>, None), db1)
     \<and> resolve [''credential'', ''value''] out = None"
proof -
  obtain db :: database where k: "idempotency_keys db = [\<lparr>k_scope = ''s'', k_key = ''k'', k_request_digest = ''d'', k_response_status = None,
        k_response_body = None, k_claimed_at = 50, k_completed_at = None\<rparr>]" by (rule sample_claimed)
  have kd: "keyed db" by (simp add: keyed_def k)
  obtain db1 where d: "CompleteWithheld key_env sample_tx ''s'' ''k'' ''d'' 201 (Document sample_response) [''/credential/value''] db = (Inr (), db1)"
    by (simp add: CompleteWithheld_def sample_withheld Complete_def sample_validate bind_stm_def wrap_def exec_def key_env_def
        complete_statement_def affected_def complete_matches_def key_of_def k sample_trims return_def)
  have t: "pointer_tokens ''/credential/value'' = Inr [''credential'', ''value'']" by code_simp
  from CompleteWithheld_replays_without[OF kd, where env = key_env and tx = sample_tx and scope = "''s''" and key = "''k''" and digest = "''d''"
      and status = 201 and body = "Document sample_response" and withheld = "[''/credential/value'']"]
  obtain out where o: "\<forall>q. resolve ([''credential'', ''value''] @ q) out = None"
    "\<forall>lo hi db2 env'. (key_step lo hi)\<^sup>*\<^sup>* db1 db2 \<and> hi < tx_now key_env + day_ns \<and> fault env' ClaimKey = None \<and> fault env' LoadKey = None \<longrightarrow>
      Claim env' sample_tx ''s'' ''k'' ''d'' db2 = ((\<lparr>State = StateReplay, Status = 201, Body = Some out\<rparr>, None), db2)"
    unfolding d using t by (auto simp del: resolve.simps)
  have "Claim key_env sample_tx ''s'' ''k'' ''d'' db1 = ((\<lparr>State = StateReplay, Status = 201, Body = Some out\<rparr>, None), db1)"
    by (rule o(2)[rule_format, of 0 0]) (simp add: key_env_def day_ns_def)
  with d o(1)[rule_format, of "[]"] show ?thesis by (intro exI[of _ db] exI[of _ db1] exI[of _ out]) simp
qed

text \<open>The order of Go's encoder is not the order of the column.\<close>

lemma order_differs:
  "decode_any (JObj [(''b'', JNull), (''aa'', JNull)]) = JObj [(''aa'', JNull), (''b'', JNull)]"
  "jsonb (JObj [(''aa'', JNull), (''b'', JNull)]) = JObj [(''b'', JNull), (''aa'', JNull)]"
  by (simp_all add: put_all_def jsonb_less_def)

end
