(* ===== verification/Base64.thy ===== *)
theory Base64
  imports Prelude
begin

text \<open>
  \<^verbatim>\<open>base64.RawURLEncoding\<close> of the standard library, which \<^verbatim>\<open>src/verify\<close> reads tokens and keys with: the URL alphabet,
  no padding. The decoder is not strict: it skips carriage returns and line feeds and does not look at the unused bits of the last character.
\<close>

definition url_value :: "char \<Rightarrow> nat option" where
  "url_value c =
     (let n = (of_char c :: nat) in
      if 65 \<le> n \<and> n \<le> 90 then Some (n - 65)
      else if 97 \<le> n \<and> n \<le> 122 then Some (n - 71)
      else if 48 \<le> n \<and> n \<le> 57 then Some (n + 4)
      else if c = CHR ''-'' then Some 62
      else if c = CHR ''_'' then Some 63
      else None)"

definition url_char :: "nat \<Rightarrow> char" where
  "url_char v =
     (if v < 26 then char_of (v + 65)
      else if v < 52 then char_of (v + 71)
      else if v < 62 then char_of (v - 4)
      else if v = 62 then CHR ''-'' else CHR ''_'')"

text \<open>Quantums of four values, the last one of two or three; one value alone is an error.\<close>

fun decode_values :: "nat list \<Rightarrow> nat list option" where
  "decode_values [] = Some []"
| "decode_values [a] = None"
| "decode_values [a, b] = Some [a * 4 + b div 16]"
| "decode_values [a, b, c] = Some [a * 4 + b div 16, b mod 16 * 16 + c div 4]"
| "decode_values (a # b # c # d # vs) =
     map_option (\<lambda>bs. (a * 4 + b div 16) # (b mod 16 * 16 + c div 4) # (c mod 4 * 64 + d) # bs) (decode_values vs)"

fun encode_values :: "nat list \<Rightarrow> nat list" where
  "encode_values [] = []"
| "encode_values [x] = [x div 4, x mod 4 * 16]"
| "encode_values [x, y] = [x div 4, x mod 4 * 16 + y div 16, y mod 16 * 4]"
| "encode_values (x # y # z # bs) = x div 4 # (x mod 4 * 16 + y div 16) # (y mod 16 * 4 + z div 64) # z mod 64 # encode_values bs"

definition raw_url_decode :: "string \<Rightarrow> string option" where
  "raw_url_decode s =
     (let cs = filter (\<lambda>c. c \<noteq> CHR 0x0A \<and> c \<noteq> CHR 0x0D) s; vs = map url_value cs in
      if None \<in> set vs then None
      else map_option (map char_of) (decode_values (map the vs)))"

definition raw_url_encode :: "string \<Rightarrow> string" where
  "raw_url_encode s = map url_char (encode_values (map of_char s))"

section \<open>Decoding inverts encoding\<close>

lemma unpack: "b < (m::nat) \<Longrightarrow> (a * m + b) div m = a" "b < m \<Longrightarrow> (a * m + b) mod m = b"
  by simp_all

lemma decode_encode_values: "\<forall>x \<in> set bs. x < 256 \<Longrightarrow> decode_values (encode_values bs) = Some bs"
proof (induction bs rule: encode_values.induct)
  case (2 x)
  then show ?case using div_mult_mod_eq[of x 4] by simp
next
  case (3 x y)
  then have "y div 16 < 16" by auto
  then show ?case using div_mult_mod_eq[of x 4] div_mult_mod_eq[of y 16] by (simp add: unpack)
next
  case (4 x y z bs)
  then have "y div 16 < 16" "z div 64 < 4" by auto
  then show ?case using 4 div_mult_mod_eq[of x 4] div_mult_mod_eq[of y 16] div_mult_mod_eq[of z 64] by (simp add: unpack)
qed simp

lemma encode_values_range: "\<forall>x \<in> set bs. x < 256 \<Longrightarrow> \<forall>v \<in> set (encode_values bs). v < 64"
  by (induction bs rule: encode_values.induct) auto

lemma url_value_char: "v < 64 \<Longrightarrow> url_value (url_char v) = Some v"
proof -
  assume v: "v < 64"
  consider "v < 26" | "26 \<le> v" "v < 52" | "52 \<le> v" "v < 62" | "v = 62" | "v = 63" using v by linarith
  then show ?thesis by cases (auto simp: url_char_def url_value_def Let_def)
qed

lemma url_char_plain: "v < 64 \<Longrightarrow> url_char v \<noteq> CHR 0x0A \<and> url_char v \<noteq> CHR 0x0D"
  using url_value_char[of v] by (auto simp: url_value_def)

lemma raw_url_roundtrip: "raw_url_decode (raw_url_encode s) = Some s"
proof -
  define vs where "vs = encode_values (map of_char s :: nat list)"
  have r: "\<forall>v \<in> set vs. v < 64" unfolding vs_def by (rule encode_values_range) auto
  have f: "filter (\<lambda>c. c \<noteq> CHR 0x0A \<and> c \<noteq> CHR 0x0D) (map url_char vs) = map url_char vs"
    using r url_char_plain by (auto intro!: filter_True)
  have m: "map url_value (map url_char vs) = map Some vs" using r url_value_char by auto
  have d: "decode_values vs = Some (map of_char s)" unfolding vs_def by (rule decode_encode_values) auto
  show ?thesis unfolding raw_url_decode_def raw_url_encode_def vs_def[symmetric] Let_def f m by (simp add: d comp_def)
qed

end
