(* ===== verification/JsonText.thy ===== *)
theory JsonText
  imports Json
begin

text \<open>
  The text syntax of \<^verbatim>\<open>encoding/json\<close>: \<^verbatim>\<open>json.Unmarshal\<close> as a function from bytes to a document, with its white space, number
  grammar, string escapes and limit on nesting. \<^verbatim>\<open>None\<close> is a syntax error.
\<close>

definition json_space :: "char \<Rightarrow> bool" where
  "json_space c \<longleftrightarrow> c = CHR '' '' \<or> c = CHR 0x09 \<or> c = CHR 0x0A \<or> c = CHR 0x0D"

definition skip_space :: "string \<Rightarrow> string" where
  "skip_space s = dropWhile json_space s"

section \<open>Numbers\<close>

definition take_digits :: "string \<Rightarrow> string \<times> string" where
  "take_digits s = (takeWhile is_digit s, dropWhile is_digit s)"

definition lex_int :: "string \<Rightarrow> (string \<times> string) option" where
  "lex_int s =
     (case s of
        [] \<Rightarrow> None
      | c # r \<Rightarrow>
          if c = CHR ''0'' then Some ([c], r)
          else if is_digit c then Some (take_digits s)
          else None)"

definition lex_frac :: "string \<Rightarrow> (string \<times> string) option" where
  "lex_frac s =
     (case s of
        c # r \<Rightarrow> if c = CHR ''.'' then (case take_digits r of ([], _) \<Rightarrow> None | (ds, r') \<Rightarrow> Some (c # ds, r')) else Some ([], s)
      | [] \<Rightarrow> Some ([], s))"

definition lex_exp :: "string \<Rightarrow> (string \<times> string) option" where
  "lex_exp s =
     (case s of
        c # r \<Rightarrow>
          if c = CHR ''e'' \<or> c = CHR ''E'' then
            (let (sign, r1) = (case r of x # y \<Rightarrow> if x = CHR ''+'' \<or> x = CHR ''-'' then ([x], y) else ([], r) | [] \<Rightarrow> ([], r)) in
             case take_digits r1 of ([], _) \<Rightarrow> None | (ds, r2) \<Rightarrow> Some (c # sign @ ds, r2))
          else Some ([], s)
      | [] \<Rightarrow> Some ([], s))"

definition lex_number :: "string \<Rightarrow> (string \<times> string) option" where
  "lex_number s =
     (let (neg, s1) = (case s of c # r \<Rightarrow> if c = CHR ''-'' then ([c], r) else ([], s) | [] \<Rightarrow> ([], s)) in
      case lex_int s1 of
        None \<Rightarrow> None
      | Some (i, s2) \<Rightarrow>
          (case lex_frac s2 of
             None \<Rightarrow> None
           | Some (f, s3) \<Rightarrow> (case lex_exp s3 of None \<Rightarrow> None | Some (e, s4) \<Rightarrow> Some (neg @ i @ f @ e, s4))))"

section \<open>Strings\<close>

definition hex_value :: "char \<Rightarrow> nat option" where
  "hex_value c =
     (let n = (of_char c :: nat) in
      if 48 \<le> n \<and> n \<le> 57 then Some (n - 48)
      else if 97 \<le> n \<and> n \<le> 102 then Some (n - 87)
      else if 65 \<le> n \<and> n \<le> 70 then Some (n - 55)
      else None)"

text \<open>\<^verbatim>\<open>getu4\<close> after the \<^verbatim>\<open>\u\<close>.\<close>

definition hex4 :: "string \<Rightarrow> nat option" where
  "hex4 s =
     (case map hex_value (take 4 s) of
        [Some a, Some b, Some c, Some d] \<Rightarrow> Some (((a * 16 + b) * 16 + c) * 16 + d)
      | _ \<Rightarrow> None)"

definition utf8_of :: "nat \<Rightarrow> string" where
  "utf8_of n = map char_of
     (if n < 0x80 then [n]
      else if n < 0x800 then [0xC0 + n div 64, 0x80 + n mod 64]
      else if n < 0x10000 then [0xE0 + n div 4096, 0x80 + n div 64 mod 64, 0x80 + n mod 64]
      else [0xF0 + n div 262144, 0x80 + n div 4096 mod 64, 0x80 + n div 64 mod 64, 0x80 + n mod 64])"

definition surrogate :: "nat \<Rightarrow> bool" where
  "surrogate n \<longleftrightarrow> 0xD800 \<le> n \<and> n < 0xE000"

text \<open>The rune of a \<^verbatim>\<open>\u\<close> escape and the text after it: a pair of surrogates is one rune, a lone one is U+FFFD.\<close>

definition lex_unicode :: "string \<Rightarrow> (string \<times> string) option" where
  "lex_unicode s =
     (case hex4 s of
        None \<Rightarrow> None
      | Some n \<Rightarrow>
          (let r = drop 4 s in
           if surrogate n then
             (case (if take 2 r = [CHR 0x5C, CHR ''u''] then hex4 (drop 2 r) else None) of
                Some m \<Rightarrow> if n < 0xDC00 \<and> 0xDC00 \<le> m \<and> m < 0xE000
                          then Some (utf8_of ((n - 0xD800) * 1024 + (m - 0xDC00) + 0x10000), drop 6 r)
                          else Some (utf8_of 0xFFFD, r)
              | None \<Rightarrow> Some (utf8_of 0xFFFD, r))
           else Some (utf8_of n, r)))"

definition escape_char :: "char \<Rightarrow> char option" where
  "escape_char c =
     (if c = CHR 0x22 \<or> c = CHR 0x5C \<or> c = CHR ''/'' then Some c
      else if c = CHR ''b'' then Some (CHR 0x08)
      else if c = CHR ''f'' then Some (CHR 0x0C)
      else if c = CHR ''n'' then Some (CHR 0x0A)
      else if c = CHR ''r'' then Some (CHR 0x0D)
      else if c = CHR ''t'' then Some (CHR 0x09)
      else None)"

lemma lex_unicode_shorter: "lex_unicode s = Some (u, r) \<Longrightarrow> length r \<le> length s"
  by (auto simp: lex_unicode_def Let_def split: option.splits if_splits)

text \<open>After the opening quote: the bytes of the string and what follows the closing quote.\<close>

function lex_string :: "string \<Rightarrow> (string \<times> string) option" where
  "lex_string [] = None"
| "lex_string (c # s) =
     (if c = CHR 0x22 then Some ([], s)
      else if c = CHR 0x5C then
        (case s of
           [] \<Rightarrow> None
         | x # r \<Rightarrow>
             if x = CHR ''u'' then
               (case lex_unicode r of
                  None \<Rightarrow> None
                | Some (u, r') \<Rightarrow> map_option (map_prod (\<lambda>t. u @ t) id) (lex_string r'))
             else (case escape_char x of
                  None \<Rightarrow> None
                | Some y \<Rightarrow> map_option (map_prod (\<lambda>t. y # t) id) (lex_string r)))
      else if (of_char c :: nat) < 0x20 then None
      else map_option (map_prod (\<lambda>t. c # t) id) (lex_string s))"
  by pat_completeness auto
termination by (relation "measure length") (auto dest: lex_unicode_shorter)

section \<open>Values\<close>

definition maxNestingDepth :: nat where "maxNestingDepth = 10000"

lemma skip_space_shorter: "skip_space s = c # r \<Longrightarrow> length r < length s"
  using length_dropWhile_le[of json_space s] by (simp add: skip_space_def)

text \<open>
  A value, the elements of an array after its bracket or a comma, and the members of an object likewise, below \<open>d\<close> open brackets. The rest
  is always shorter; the test makes that evident.
\<close>

function (sequential) parse_value :: "nat \<Rightarrow> string \<Rightarrow> (json \<times> string) option"
  and parse_elements :: "nat \<Rightarrow> string \<Rightarrow> (json list \<times> string) option"
  and parse_members :: "nat \<Rightarrow> string \<Rightarrow> ((string \<times> json) list \<times> string) option" where
  "parse_value d s =
     (case skip_space s of
        [] \<Rightarrow> None
      | c # r \<Rightarrow>
          if c = CHR ''{'' then
            if Suc d > maxNestingDepth then None
            else (case skip_space r of
                [] \<Rightarrow> None
              | x # r' \<Rightarrow> if x = CHR ''}'' then Some (JObj [], r')
                          else map_option (map_prod JObj id) (parse_members (Suc d) r))
          else if c = CHR ''['' then
            if Suc d > maxNestingDepth then None
            else (case skip_space r of
                [] \<Rightarrow> None
              | x # r' \<Rightarrow> if x = CHR '']'' then Some (JArr [], r')
                          else map_option (map_prod JArr id) (parse_elements (Suc d) r))
          else if c = CHR 0x22 then map_option (map_prod (\<lambda>t. JStr (coerce_utf8 t)) id) (lex_string r)
          else if take 4 (c # r) = ''true'' then Some (JBool True, drop 3 r)
          else if take 5 (c # r) = ''false'' then Some (JBool False, drop 4 r)
          else if take 4 (c # r) = ''null'' then Some (JNull, drop 3 r)
          else map_option (map_prod JNum id) (lex_number (c # r)))"
| "parse_elements d s =
     (case parse_value d s of
        None \<Rightarrow> None
      | Some (v, r) \<Rightarrow>
          (case skip_space r of
             [] \<Rightarrow> None
           | c # r' \<Rightarrow>
               if c = CHR '']'' then Some ([v], r')
               else if c = CHR '','' \<and> length r' < length s
               then map_option (map_prod (\<lambda>vs. v # vs) id) (parse_elements d r')
               else None))"
| "parse_members d s =
     (case skip_space s of
        [] \<Rightarrow> None
      | q # s1 \<Rightarrow>
          if q \<noteq> CHR 0x22 then None
          else (case lex_string s1 of
              None \<Rightarrow> None
            | Some (k, s2) \<Rightarrow>
                (case skip_space s2 of
                   [] \<Rightarrow> None
                 | x # s3 \<Rightarrow>
                     if x \<noteq> CHR '':'' \<or> \<not> length s3 < length s then None
                     else (case parse_value d s3 of
                         None \<Rightarrow> None
                       | Some (v, r) \<Rightarrow>
                           (case skip_space r of
                              [] \<Rightarrow> None
                            | c # r' \<Rightarrow>
                                if c = CHR ''}'' then Some ([(coerce_utf8 k, v)], r')
                                else if c = CHR '','' \<and> length r' < length s
                                then map_option (map_prod (\<lambda>ms. (coerce_utf8 k, v) # ms) id) (parse_members d r')
                                else None)))))"
  by pat_completeness auto

termination
  by (relation "measures [\<lambda>x. case x of Inl (_, s) \<Rightarrow> length s | Inr (Inl (_, s)) \<Rightarrow> length s | Inr (Inr (_, s)) \<Rightarrow> length s,
       \<lambda>x. case x of Inl _ \<Rightarrow> 0 | Inr _ \<Rightarrow> 1]")
    (auto dest: skip_space_shorter)

declare parse_value.simps [simp del] parse_elements.simps [simp del] parse_members.simps [simp del]

definition parse_json :: "string \<Rightarrow> json option" where
  "parse_json s =
     (case parse_value 0 s of
        None \<Rightarrow> None
      | Some (j, r) \<Rightarrow> if skip_space r = [] then Some j else None)"

end
