(* ===== verification/JsonWrite.thy ===== *)
theory JsonWrite
  imports JsonText
begin

text \<open>
  \<^verbatim>\<open>json.Marshal\<close> as text: the escapes of a string (HTML characters, line separators and malformed bytes included), the digits of an integer and
  the brackets of arrays and objects; and that \<^const>\<open>parse_json\<close> reads back what is written.
\<close>

section \<open>Writing\<close>

definition hex_digit :: "nat \<Rightarrow> char" where
  "hex_digit n = (if n < 10 then char_of (48 + n) else char_of (87 + n))"

definition quote_byte :: "char \<Rightarrow> string" where
  "quote_byte c =
     (let n = (of_char c :: nat) in
      if c = CHR 0x22 \<or> c = CHR 0x5C then [CHR 0x5C, c]
      else if n = 0x08 then [CHR 0x5C, CHR ''b'']
      else if n = 0x0C then [CHR 0x5C, CHR ''f'']
      else if n = 0x0A then [CHR 0x5C, CHR ''n'']
      else if n = 0x0D then [CHR 0x5C, CHR ''r'']
      else if n = 0x09 then [CHR 0x5C, CHR ''t'']
      else if n < 0x20 \<or> c = CHR ''<'' \<or> c = CHR ''>'' \<or> c = CHR ''&''
      then [CHR 0x5C, CHR ''u'', CHR ''0'', CHR ''0'', hex_digit (n div 16), hex_digit (n mod 16)]
      else [c])"

definition quote_rune :: "string \<Rightarrow> string" where
  "quote_rune u =
     (if u = [CHR 0xE2, CHR 0x80, CHR 0xA8] then CHR 0x5C # ''u2028''
      else if u = [CHR 0xE2, CHR 0x80, CHR 0xA9] then CHR 0x5C # ''u2029''
      else case u of [c] \<Rightarrow> quote_byte c | _ \<Rightarrow> u)"

function quote_body :: "string \<Rightarrow> string" where
  "quote_body s =
     (case s of
        [] \<Rightarrow> []
      | c # r \<Rightarrow>
          let n = rune_len s in
          if n = 0 then CHR 0x5C # ''ufffd'' @ quote_body r
          else quote_rune (take n s) @ quote_body (drop n s))"
  by pat_completeness auto
termination by (relation "measure length") auto

declare quote_body.simps [simp del]

definition quote :: "string \<Rightarrow> string" where
  "quote s = CHR 0x22 # quote_body s @ [CHR 0x22]"

fun write_json :: "json \<Rightarrow> string"
  and write_elements :: "json list \<Rightarrow> string"
  and write_members :: "(string \<times> json) list \<Rightarrow> string" where
  "write_json JNull = ''null''"
| "write_json (JBool b) = (if b then ''true'' else ''false'')"
| "write_json (JNum lit) = lit"
| "write_json (JStr s) = quote s"
| "write_json (JArr js) = CHR ''['' # (if js = [] then '']'' else write_elements js)"
| "write_json (JObj ms) = CHR ''{'' # (if ms = [] then ''}'' else write_members ms)"
| "write_elements [] = []"
| "write_elements (j # js) = write_json j @ (if js = [] then '']'' else CHR '','' # write_elements js)"
| "write_members [] = []"
| "write_members (m # ms) =
     quote (fst m) @ CHR '':'' # write_json (snd m) @ (if ms = [] then ''}'' else CHR '','' # write_members ms)"

section \<open>Reading back a string\<close>

lemma char_codes: "char_of (8 :: nat) = CHR 0x08" "char_of (9 :: nat) = CHR 0x09" "char_of (10 :: nat) = CHR 0x0A" "char_of (12 :: nat) = CHR 0x0C"
  "char_of (13 :: nat) = CHR 0x0D" "char_of (226 :: nat) = CHR 0xE2" "char_of (128 :: nat) = CHR 0x80" "char_of (168 :: nat) = CHR 0xA8"
  "char_of (169 :: nat) = CHR 0xA9" "char_of (239 :: nat) = CHR 0xEF" "char_of (191 :: nat) = CHR 0xBF" "char_of (189 :: nat) = CHR 0xBD"
  by code_simp+

definition prefixed :: "string \<Rightarrow> (string \<times> string) option \<Rightarrow> (string \<times> string) option" where
  "prefixed u x = (case x of None \<Rightarrow> None | Some (t, r) \<Rightarrow> Some (u @ t, r))"

lemma prefixed_intro [simp]:
  "map_option (map_prod ((#) c) id) x = prefixed [c] x"
  "map_option (map_prod ((@) u) id) x = prefixed u x"
  by (auto simp: prefixed_def split: option.split)

lemma prefixed_simps [simp]: "prefixed [] x = x" "prefixed u (prefixed v x) = prefixed (u @ v) x" "prefixed u (Some (t, r)) = Some (u @ t, r)"
  by (auto simp: prefixed_def split: option.split)

lemma hex_value_digit: "n < 16 \<Longrightarrow> hex_value (hex_digit n) = Some n"
  by (auto simp: hex_value_def hex_digit_def Let_def)

lemma lex_plain: "c \<noteq> CHR 0x22 \<Longrightarrow> c \<noteq> CHR 0x5C \<Longrightarrow> \<not> (of_char c :: nat) < 0x20 \<Longrightarrow>
    lex_string (c # r) = prefixed [c] (lex_string r)"
  by simp

lemma lex_hex_byte:
  assumes "(of_char c :: nat) < 128"
  shows "lex_string ([CHR 0x5C, CHR ''u'', CHR ''0'', CHR ''0'', hex_digit (of_char c div 16), hex_digit (of_char c mod 16)] @ r)
    = prefixed [c] (lex_string r)"
proof -
  let ?n = "of_char c :: nat"
  have "hex_value (CHR ''0'') = Some 0" by code_simp
  then have "hex4 (CHR ''0'' # CHR ''0'' # hex_digit (?n div 16) # hex_digit (?n mod 16) # r) = Some ?n"
    using assms by (simp add: hex4_def hex_value_digit less_mult_imp_div_less)
  then have "lex_unicode (CHR ''0'' # CHR ''0'' # hex_digit (?n div 16) # hex_digit (?n mod 16) # r) = Some ([c], r)"
    using assms by (simp add: lex_unicode_def Let_def surrogate_def utf8_of_def)
  then show ?thesis by simp
qed

lemma lex_quote_byte:
  assumes "(of_char c :: nat) < 128"
  shows "lex_string (quote_byte c @ r) = prefixed [c] (lex_string r)"
proof -
  have c: "c = char_of n" if "(of_char c :: nat) = n" for n using that by auto
  show ?thesis
    using lex_hex_byte[OF assms, of r] by (auto simp: quote_byte_def Let_def escape_char_def char_codes dest!: c)
qed

lemma lex_high:
  "list_all (\<lambda>c. 128 \<le> (of_char c :: nat)) u \<Longrightarrow> lex_string (u @ r) = prefixed u (lex_string r)"
proof (induction u)
  case Nil
  then show ?case by simp
next
  case (Cons c u)
  then have "c \<noteq> CHR 0x22" "c \<noteq> CHR 0x5C" "\<not> (of_char c :: nat) < 0x20" by auto
  with Cons show ?case by (simp add: lex_plain)
qed

lemma rune_high: "1 < rune_len s \<Longrightarrow> list_all (\<lambda>c. 128 \<le> (of_char c :: nat)) (take (rune_len s) s)"
proof (cases s)
  case (Cons a t)
  have h: "128 \<le> (of_char c :: nat)" if "in_byte lo hi c" "128 \<le> lo" for lo hi c using that by (simp add: in_byte_def)
  have lo: "128 \<le> (if p then 0xA0 else 0x80 :: nat)" "128 \<le> (if p then 0x90 else 0x80 :: nat)" for p by simp_all
  assume "1 < rune_len s"
  then consider b t' where "t = b # t'" "in_byte 0xC2 0xDF a" "in_byte 0x80 0xBF b" "rune_len s = 2"
    | b c t' where "t = b # c # t'" "in_byte 0xE0 0xEF a" "in_byte (if a = CHR 0xE0 then 0xA0 else 0x80) (if a = CHR 0xED then 0x9F else 0xBF) b"
        "in_byte 0x80 0xBF c" "rune_len s = 3"
    | b c d t' where "t = b # c # d # t'" "in_byte 0xF0 0xF4 a" "in_byte (if a = CHR 0xF0 then 0x90 else 0x80) (if a = CHR 0xF4 then 0x8F else 0xBF) b"
        "in_byte 0x80 0xBF c" "in_byte 0x80 0xBF d" "rune_len s = 4"
    using Cons by (cases t; cases "tl t"; cases "tl (tl t)") (simp_all split: if_split_asm)
  then show ?thesis
  proof cases
    case 1
    then show ?thesis using Cons by (simp del: rune_len.simps add: h)
  next
    case 2
    then show ?thesis using Cons h[OF 2(3) lo(1)] by (simp del: rune_len.simps add: h)
  next
    case 3
    then show ?thesis using Cons h[OF 3(3) lo(2)] by (simp del: rune_len.simps add: h)
  qed
qed simp

lemma rune_one: "rune_len s = 1 \<Longrightarrow> \<exists>c r. s = c # r \<and> (of_char c :: nat) < 128"
  by (cases s) (auto simp: in_byte_def split: if_splits list.splits)

lemma rune_len_le: "rune_len s \<le> length s"
  by (cases s) (auto split: list.splits)

lemma lex_quote_rune:
  assumes "rune_len s \<noteq> 0"
  shows "lex_string (quote_rune (take (rune_len s) s) @ r) = prefixed (take (rune_len s) s) (lex_string r)"
proof (cases "rune_len s = 1")
  case True
  then obtain c r' where "s = c # r'" "(of_char c :: nat) < 128" using rune_one by blast
  then show ?thesis using True by (simp add: quote_rune_def lex_quote_byte del: rune_len.simps)
next
  case False
  let ?u = "take (rune_len s) s"
  have l: "1 < length ?u" using False assms rune_len_le[of s] by simp
  have two: "hex4 (''2028'' @ t) = Some 0x2028" "hex4 (''2029'' @ t) = Some 0x2029" for t by (simp_all add: hex4_def hex_value_def)
  have sep: "lex_string ((CHR 0x5C # ''u2028'') @ r) = prefixed [CHR 0xE2, CHR 0x80, CHR 0xA8] (lex_string r)"
    "lex_string ((CHR 0x5C # ''u2029'') @ r) = prefixed [CHR 0xE2, CHR 0x80, CHR 0xA9] (lex_string r)"
    using two[of r] by (simp_all add: lex_unicode_def surrogate_def utf8_of_def char_codes)
  have "quote_rune ?u = ?u" if "?u \<noteq> [CHR 0xE2, CHR 0x80, CHR 0xA8]" "?u \<noteq> [CHR 0xE2, CHR 0x80, CHR 0xA9]"
    using that l unfolding quote_rune_def by (cases ?u; cases "tl ?u") simp_all
  then show ?thesis
    using sep lex_high[OF rune_high, of s r] False assms by (cases "?u = [CHR 0xE2, CHR 0x80, CHR 0xA8]"; cases "?u = [CHR 0xE2, CHR 0x80, CHR 0xA9]")
      (auto simp: quote_rune_def)
qed

lemma lex_quote: "lex_string (quote_body s @ CHR 0x22 # r) = Some (coerce_utf8 s, r)"
proof (induction s rule: quote_body.induct)
  case (1 s)
  show ?case
  proof (cases s)
    case Nil
    then show ?thesis by (subst quote_body.simps, subst coerce_utf8.simps) simp
  next
    case (Cons c cs)
    show ?thesis
    proof (cases "rune_len s = 0")
      case True
      have h: "hex4 (''fffd'' @ t) = Some 0xFFFD" for t by (simp add: hex4_def hex_value_def)
      have "lex_string ((CHR 0x5C # ''ufffd'') @ t) = prefixed [CHR 0xEF, CHR 0xBF, CHR 0xBD] (lex_string t)" for t
        using h[of t] by (simp add: lex_unicode_def surrogate_def utf8_of_def char_codes)
      note this[of "quote_body cs @ CHR 0x22 # r"]
      moreover have "lex_string (quote_body cs @ CHR 0x22 # r) = Some (coerce_utf8 cs, r)" using 1 Cons True by simp
      ultimately show ?thesis
        using Cons True by (subst quote_body.simps, subst coerce_utf8.simps) (simp add: Let_def del: rune_len.simps)
    next
      case False
      then have "lex_string (quote_body (drop (rune_len s) s) @ CHR 0x22 # r) = Some (coerce_utf8 (drop (rune_len s) s), r)"
        using 1 Cons by simp
      with lex_quote_rune[OF False] show ?thesis
        using Cons False by (subst quote_body.simps, subst coerce_utf8.simps) (simp add: Let_def del: rune_len.simps)
    qed
  qed
qed

section \<open>Reading back a document\<close>

text \<open>What the encoder is given here: valid UTF-8, integers, and no deeper nesting than the decoder reads.\<close>

fun writable :: "nat \<Rightarrow> json \<Rightarrow> bool" where
  "writable d JNull = True"
| "writable d (JBool b) = True"
| "writable d (JNum lit) = (\<exists>n. lit = show_int n)"
| "writable d (JStr s) = valid_utf8 s"
| "writable d (JArr js) = (d < maxNestingDepth \<and> list_all (writable (Suc d)) js)"
| "writable d (JObj ms) = (d < maxNestingDepth \<and> list_all (\<lambda>(k, j). valid_utf8 k \<and> writable (Suc d) j) ms)"

text \<open>What may follow a value: nothing, or a byte that does not continue a number.\<close>

definition ends_value :: "string \<Rightarrow> bool" where
  "ends_value r \<longleftrightarrow> r = [] \<or> hd r \<in> set '',]}''"

lemma show_nat_head: "n \<noteq> 0 \<Longrightarrow> hd (show_nat n) \<noteq> CHR ''0''"
proof (induction n rule: show_nat.induct)
  case (1 n)
  show ?case
  proof (cases "n < 10")
    case True
    then have "(of_char (digit_char n) :: nat) \<noteq> 48" using "1.prems" by (simp add: of_char_digit)
    then show ?thesis using True by (subst show_nat.simps) auto
  next
    case False
    then have "hd (show_nat (n div 10)) \<noteq> CHR ''0''" "show_nat (n div 10) \<noteq> []" using 1 show_nat_props[of "n div 10"] by auto
    with False show ?thesis by (subst show_nat.simps) simp
  qed
qed

lemma lex_int_show:
  assumes "ends_value r"
  shows "lex_int (show_nat n @ r) = Some (show_nat n, r)"
proof -
  have nd: "r = [] \<or> \<not> is_digit (hd r)" using assms by (auto simp: ends_value_def is_digit_def)
  have ds: "list_all is_digit (show_nat n)" "show_nat n \<noteq> []" using show_nat_props[of n] by auto
  have t: "take_digits (show_nat n @ r) = (show_nat n, r)"
    using ds(1) nd by (cases r) (auto simp: take_digits_def list_all_iff takeWhile_append dropWhile_append)
  obtain c cs where c: "show_nat n = c # cs" using ds(2) by (cases "show_nat n") auto
  show ?thesis
  proof (cases "n = 0")
    case True
    moreover have "show_nat 0 = ''0''" by code_simp
    ultimately have "show_nat n = ''0''" by simp
    then show ?thesis by (simp add: lex_int_def)
  next
    case False
    then have "c \<noteq> CHR ''0''" using show_nat_head[OF False] c by simp
    then show ?thesis using t ds(1) unfolding c by (simp add: lex_int_def)
  qed
qed

lemma lex_number_show:
  assumes "ends_value r"
  shows "lex_number (show_int n @ r) = Some (show_int n, r)"
proof -
  have f: "lex_frac r = Some ([], r)" "lex_exp r = Some ([], r)"
    using assms by (auto simp: ends_value_def lex_frac_def lex_exp_def split: list.split)
  have m: "hd (show_nat k) \<noteq> CHR ''-''" for k
    using show_nat_props[of k] digit_not_sign by (cases "show_nat k") auto
  obtain c cs where c: "show_nat (nat n) = c # cs" using show_nat_props[of "nat n"] by (cases "show_nat (nat n)") auto
  show ?thesis
  proof (cases "n < 0")
    case True
    then show ?thesis using lex_int_show[OF assms] f by (simp add: lex_number_def show_int_def)
  next
    case False
    then show ?thesis using lex_int_show[OF assms, of "nat n"] f m[of "nat n"] by (simp add: lex_number_def show_int_def c)
  qed
qed

lemma show_int_head:
  obtains c cs where "show_int n = c # cs" "is_digit c \<or> c = CHR ''-''"
proof (cases "n < 0")
  case False
  then show ?thesis using show_nat_props[of "nat n"] that by (cases "show_nat (nat n)") (auto simp: show_int_def)
qed (use that in \<open>auto simp: show_int_def\<close>)

lemma parse_number:
  assumes "ends_value r"
  shows "parse_value d (show_int n @ r) = Some (JNum (show_int n), r)"
proof -
  obtain c cs where c: "show_int n = c # cs" "is_digit c \<or> c = CHR ''-''" by (rule show_int_head)
  have "\<not> json_space c" "c \<noteq> CHR ''{''" "c \<noteq> CHR ''[''" "c \<noteq> CHR 0x22" "c \<noteq> CHR ''t''" "c \<noteq> CHR ''f''" "c \<noteq> CHR ''n''"
    using c(2) by (auto simp: json_space_def is_digit_def)
  then show ?thesis
    using lex_number_show[OF assms, of n] unfolding c(1) by (subst parse_value.simps) (simp add: skip_space_def)
qed

lemma parse_string: "valid_utf8 s \<Longrightarrow> parse_value d (quote s @ r) = Some (JStr s, r)"
  using lex_quote[of s r] by (subst parse_value.simps) (simp add: quote_def skip_space_def json_space_def valid_utf8_def)

lemma skip_space_plain: "s \<noteq> [] \<Longrightarrow> \<not> json_space (hd s) \<Longrightarrow> skip_space s = s"
  by (cases s) (auto simp: skip_space_def)

lemma skip_space_punct [simp]: "c \<in> set '',:]}'' \<Longrightarrow> skip_space (c # r) = c # r"
  by (auto simp: skip_space_def json_space_def)

lemma write_json_head:
  assumes "writable d j"
  obtains c cs where "write_json j = c # cs" "\<not> json_space c" "c \<noteq> CHR '']''" "c \<noteq> CHR ''}''"
proof (cases j)
  case (JNum lit)
  then obtain n where "lit = show_int n" using assms by auto
  moreover obtain c cs where "show_int n = c # cs" "is_digit c \<or> c = CHR ''-''" by (rule show_int_head)
  moreover have "\<not> json_space c" "c \<noteq> CHR '']''" "c \<noteq> CHR ''}''" using calculation by (auto simp: json_space_def is_digit_def)
  ultimately show ?thesis using that JNum by simp
next
  case (JBool b)
  then show ?thesis using that by (cases b) (auto simp: json_space_def)
qed (use that in \<open>auto simp: json_space_def quote_def split: if_splits\<close>)

lemma ends_value_punct [simp]: "ends_value []" "c \<in> set '',]}'' \<Longrightarrow> ends_value (c # r)"
  by (auto simp: ends_value_def)

lemma parse_elements_write:
  assumes "\<And>j r. j \<in> set js \<Longrightarrow> ends_value r \<Longrightarrow> parse_value d (write_json j @ r) = Some (j, r)" "js \<noteq> []"
  shows "parse_elements d (write_elements js @ r) = Some (js, r)"
  using assms
proof (induction js)
  case (Cons j js)
  show ?case
  proof (cases "js = []")
    case True
    then show ?thesis using Cons.prems(1)[of j "CHR '']'' # r"] by (subst parse_elements.simps) simp
  next
    case False
    then have "parse_elements d (write_elements js @ r) = Some (js, r)" using Cons by simp
    then show ?thesis
      using False Cons.prems(1)[of j "CHR '','' # write_elements js @ r"] by (subst parse_elements.simps) simp
  qed
qed simp

lemma parse_members_write:
  assumes "\<And>k j r. (k, j) \<in> set ms \<Longrightarrow> ends_value r \<Longrightarrow> valid_utf8 k \<and> parse_value d (write_json j @ r) = Some (j, r)" "ms \<noteq> []"
  shows "parse_members d (write_members ms @ r) = Some (ms, r)"
  using assms
proof (induction ms)
  case (Cons m ms)
  obtain k j where m: "m = (k, j)" by (cases m)
  let ?rest = "if ms = [] then CHR ''}'' # r else CHR '','' # write_members ms @ r"
  have v: "parse_value d (write_json j @ ?rest) = Some (j, ?rest)" "coerce_utf8 k = k"
    using Cons.prems(1)[of k j ?rest] m by (auto simp: valid_utf8_def)
  have ih: "ms \<noteq> [] \<Longrightarrow> parse_members d (write_members ms @ r) = Some (ms, r)"
    by (rule Cons.IH) (use Cons.prems(1) in auto)
  have shape: "write_members (m # ms) @ r = CHR 0x22 # quote_body k @ CHR 0x22 # CHR '':'' # write_json j @ ?rest"
    by (simp add: m quote_def)
  show ?case
    unfolding shape using v ih lex_quote[of k "CHR '':'' # write_json j @ ?rest"]
    by (subst parse_members.simps) (auto simp: m skip_space_plain json_space_def)
qed simp

lemma parse_write_value: "writable d j \<Longrightarrow> ends_value r \<Longrightarrow> parse_value d (write_json j @ r) = Some (j, r)"
proof (induction j arbitrary: d r)
  case (JArr js)
  have e: "js \<noteq> [] \<Longrightarrow> parse_elements (Suc d) (write_elements js @ r) = Some (js, r)"
    using JArr by (intro parse_elements_write) (auto simp: list_all_iff)
  show ?case
  proof (cases js)
    case Nil
    then show ?thesis using JArr.prems by (subst parse_value.simps) (simp add: skip_space_def json_space_def)
  next
    case (Cons j js')
    then have "writable (Suc d) j" using JArr.prems by simp
    then obtain c cs where c: "write_json j = c # cs" "\<not> json_space c" "c \<noteq> CHR '']''" by (rule write_json_head)
    then show ?thesis
      using e JArr.prems Cons by (subst parse_value.simps) (simp add: skip_space_def json_space_def)
  qed
next
  case (JObj ms)
  have e: "ms \<noteq> [] \<Longrightarrow> parse_members (Suc d) (write_members ms @ r) = Some (ms, r)"
    using JObj by (intro parse_members_write) (fastforce simp: list_all_iff)+
  show ?case
  proof (cases ms)
    case Nil
    then show ?thesis using JObj.prems by (subst parse_value.simps) (simp add: skip_space_def json_space_def)
  next
    case (Cons m ms')
    then obtain cs where "write_members ms = CHR 0x22 # cs" by (simp add: quote_def)
    then show ?thesis
      using e JObj.prems Cons by (subst parse_value.simps) (simp add: skip_space_def json_space_def)
  qed
next
  case (JNum lit)
  then show ?case using parse_number by auto
next
  case (JStr s)
  then show ?case using parse_string by simp
qed ((subst parse_value.simps, simp add: skip_space_def json_space_def)+)

theorem parse_write: "writable 0 j \<Longrightarrow> parse_json (write_json j) = Some j"
  using parse_write_value[of 0 j "[]"] by (simp add: parse_json_def skip_space_def)

interpretation json_text: text_codec write_json parse_json "writable 0"
  by unfold_locales (rule parse_write)

end
