(* ===== verification/Jwks.thy ===== *)
theory Jwks
  imports JsonText Base64 Dispatch
begin

text \<open>
  \<^verbatim>\<open>src/verify/jwks.go\<close>: parsing an issuer's published keys, the cache, and its rate limit. What the HTTP client answers is an argument. The
  cache is shared by concurrent verifications: \<^verbatim>\<open>Refetch\<close> is two critical sections with the fetch between them, which are two
  operations here.
\<close>

definition ErrKeysUnavailable :: goerror where
  "ErrKeysUnavailable = New ''verify: signing material is unavailable''"

definition permittedAlgorithm :: string where "permittedAlgorithm = ''PS256''"

definition maxJWKSBytes :: nat where "maxJWKSBytes = 1048576"

definition minRSABits :: nat where "minRSABits = 3072"

section \<open>Keys\<close>

record rsa_key =
  Modulus :: nat
  Exponent :: int

definition big_value :: "string \<Rightarrow> nat" where
  "big_value bs = foldl (\<lambda>n c. n * 256 + of_char c) 0 bs"

text \<open>\<^verbatim>\<open>BitLen() < minRSABits\<close>.\<close>

definition short_modulus :: "nat \<Rightarrow> bool" where
  "short_modulus n \<longleftrightarrow> n < 2 ^ (minRSABits - 1)"

text \<open>\<^verbatim>\<open>int(x.Int64())\<close>: the low 64 bits, signed.\<close>

definition int64_of :: "nat \<Rightarrow> int" where
  "int64_of n = sint (of_nat n :: 64 word)"

definition trim_right_eq :: "string \<Rightarrow> string" where
  "trim_right_eq s = rev (dropWhile (\<lambda>c. c = CHR ''='') (rev s))"

definition parseRSAKey :: "string \<Rightarrow> string \<Rightarrow> rsa_key result" where
  "parseRSAKey n_text e_text =
     (if n_text = '''' \<or> e_text = '''' then Inl (New ''verify: key is missing n or e'')
      else case raw_url_decode (trim_right_eq n_text) of
        None \<Rightarrow> Inl (New ''verify: modulus is not base64url'')
      | Some rawModulus \<Rightarrow>
          (case raw_url_decode (trim_right_eq e_text) of
             None \<Rightarrow> Inl (New ''verify: exponent is not base64url'')
           | Some rawExponent \<Rightarrow>
               if rawExponent = [] \<or> length rawExponent > 8 then Inl (New ''verify: exponent is out of range'')
               else let n = big_value rawModulus; e = int64_of (big_value rawExponent) in
                 if n = 0 then Inl (New ''verify: modulus is not positive'')
                 else if short_modulus n then Inl (New ''verify: modulus is below the minimum'')
                 else if e < 3 \<or> even e then Inl (New ''verify: public exponent is not usable'')
                 else Inr \<lparr>Modulus = n, Exponent = e\<rparr>))"

section \<open>The document\<close>

record jwk_entry =
  j_KeyType :: string
  j_KeyID :: string
  j_Use :: string
  j_Algorithm :: string
  j_Modulus :: string
  j_Exponent :: string

definition zero_entry :: jwk_entry where
  "zero_entry = \<lparr>j_KeyType = '''', j_KeyID = '''', j_Use = '''', j_Algorithm = '''', j_Modulus = '''', j_Exponent = ''''\<rparr>"

definition set_entry :: "string \<Rightarrow> json \<Rightarrow> jwk_entry \<Rightarrow> jwk_entry result" where
  "set_entry f v w =
     (if f = ''kty'' then map_sum id (\<lambda>s. w\<lparr>j_KeyType := s\<rparr>) (decode_string v (j_KeyType w))
      else if f = ''kid'' then map_sum id (\<lambda>s. w\<lparr>j_KeyID := s\<rparr>) (decode_string v (j_KeyID w))
      else if f = ''use'' then map_sum id (\<lambda>s. w\<lparr>j_Use := s\<rparr>) (decode_string v (j_Use w))
      else if f = ''alg'' then map_sum id (\<lambda>s. w\<lparr>j_Algorithm := s\<rparr>) (decode_string v (j_Algorithm w))
      else if f = ''n'' then map_sum id (\<lambda>s. w\<lparr>j_Modulus := s\<rparr>) (decode_string v (j_Modulus w))
      else map_sum id (\<lambda>s. w\<lparr>j_Exponent := s\<rparr>) (decode_string v (j_Exponent w)))"

text \<open>
  Decoding an array into a slice reuses the elements of the backing array, so a repeated \<^verbatim>\<open>keys\<close> member merges its entries into the earlier ones; an
  empty array and \<^verbatim>\<open>null\<close> start afresh. The state is the backing array and the length of the slice.
\<close>

fun decode_elements :: "json list \<Rightarrow> jwk_entry list \<Rightarrow> jwk_entry list result" where
  "decode_elements [] backing = Inr []"
| "decode_elements (j # js) backing =
     bind_result (decode_struct set_entry [''kty'', ''kid'', ''use'', ''alg'', ''n'', ''e''] j
                   (case backing of [] \<Rightarrow> zero_entry | b # _ \<Rightarrow> b))
       (\<lambda>entry. map_sum id (\<lambda>es. entry # es) (decode_elements js (drop 1 backing)))"

definition set_document :: "string \<Rightarrow> json \<Rightarrow> jwk_entry list \<times> nat \<Rightarrow> (jwk_entry list \<times> nat) result" where
  "set_document f v w =
     (case v of
        JNull \<Rightarrow> Inr ([], 0)
      | JArr js \<Rightarrow>
          if js = [] then Inr ([], 0)
          else map_sum id (\<lambda>es. (es @ drop (length es) (fst w), length es)) (decode_elements js (fst w))
      | _ \<Rightarrow> Inl type_error)"

definition decode_key_set :: "json \<Rightarrow> jwk_entry list result" where
  "decode_key_set j = map_sum id (\<lambda>w. take (snd w) (fst w)) (decode_struct set_document [''keys''] j ([], 0))"

section \<open>Fetching\<close>

datatype http_answer = NoRequest | Unreachable | Truncated int | Answer int string

type_synonym key_map = "(string \<times> rsa_key) list"

definition put_key :: "string \<Rightarrow> rsa_key \<Rightarrow> key_map \<Rightarrow> key_map" where
  "put_key kid key keys = (kid, key) # filter (\<lambda>m. fst m \<noteq> kid) keys"

definition usable_entry :: "jwk_entry \<Rightarrow> bool" where
  "usable_entry entry \<longleftrightarrow> j_KeyType entry = ''RSA'' \<and> j_KeyID entry \<noteq> ''''
     \<and> (j_Use entry = '''' \<or> j_Use entry = ''sig'') \<and> (j_Algorithm entry = '''' \<or> j_Algorithm entry = permittedAlgorithm)"

definition add_entry :: "jwk_entry \<Rightarrow> key_map \<Rightarrow> key_map" where
  "add_entry entry keys =
     (if \<not> usable_entry entry then keys
      else case parseRSAKey (j_Modulus entry) (j_Exponent entry) of
        Inl _ \<Rightarrow> keys
      | Inr key \<Rightarrow> put_key (j_KeyID entry) key keys)"

definition unavailable :: "string \<Rightarrow> goerror" where
  "unavailable m = Wrapf m [ErrKeysUnavailable]"

definition fetch :: "http_answer \<Rightarrow> key_map result" where
  "fetch answer =
     (case answer of
        NoRequest \<Rightarrow> Inl (unavailable ''verify: build JWKS request'')
      | Unreachable \<Rightarrow> Inl (unavailable ''verify: JWKS endpoint unreachable'')
      | Truncated status \<Rightarrow>
          if status < 200 \<or> status \<ge> 300 then Inl (unavailable ''verify: JWKS endpoint returned status'')
          else Inl (unavailable ''verify: JWKS response was truncated'')
      | Answer status body \<Rightarrow>
          if status < 200 \<or> status \<ge> 300 then Inl (unavailable ''verify: JWKS endpoint returned status'')
          else (case parse_json (take maxJWKSBytes body) of
              None \<Rightarrow> Inl (unavailable ''verify: JWKS is not a key set'')
            | Some j \<Rightarrow>
                (case decode_key_set j of
                   Inl _ \<Rightarrow> Inl (unavailable ''verify: JWKS is not a key set'')
                 | Inr entries \<Rightarrow>
                     (let keys = fold add_entry entries [] in
                      if keys = [] then Inl (unavailable ''verify: JWKS carried no usable PS256 signing key'')
                      else Inr keys))))"

section \<open>The cache\<close>

record jwks_config =
  c_URL :: string
  c_Timeout :: duration
  c_MinRefetchInterval :: duration

record jwks =
  jw_cfg :: jwks_config
  jw_keys :: key_map
  jw_lastFetched :: time

definition applyDefaults :: "jwks_config \<Rightarrow> jwks_config" where
  "applyDefaults c = c\<lparr>c_Timeout := if sint (c_Timeout c) \<le> 0 then 5000000000 else c_Timeout c,
     c_MinRefetchInterval := if sint (c_MinRefetchInterval c) \<le> 0 then 60000000000 else c_MinRefetchInterval c\<rparr>"

definition NewJWKS :: "jwks_config \<Rightarrow> jwks result" where
  "NewJWKS cfg0 =
     (let cfg = applyDefaults cfg0 in
      if trim_space (c_URL cfg) = '''' then Inl (New ''verify: a JWKS URL is required'')
      else Inr \<lparr>jw_cfg = cfg, jw_keys = [], jw_lastFetched = 0\<rparr>)"

definition Key :: "jwks \<Rightarrow> string \<Rightarrow> rsa_key option" where
  "Key st kid = map_of (jw_keys st) kid"

definition Len :: "jwks \<Rightarrow> nat" where
  "Len st = length (jw_keys st)"

text \<open>\<^verbatim>\<open>Time.Sub\<close> saturates.\<close>

definition time_sub :: "time \<Rightarrow> time \<Rightarrow> int" where
  "time_sub t u = max (- (2 ^ 63)) (min (2 ^ 63 - 1) (t - u))"

text \<open>
  The first critical section: whether to fetch, and the time recorded before the fetch. It reads the clock twice, first \<open>now\<close> and then \<open>now2\<close>.
\<close>

definition reserve_fetch :: "time \<Rightarrow> time \<Rightarrow> jwks \<Rightarrow> bool \<times> jwks" where
  "reserve_fetch now now2 st =
     (if jw_lastFetched st \<noteq> 0 \<and> time_sub now (jw_lastFetched st) < sint (c_MinRefetchInterval (jw_cfg st)) then (False, st)
      else (True, st\<lparr>jw_lastFetched := now2\<rparr>))"

text \<open>The second: the keys are replaced when the fetch succeeded.\<close>

definition install_keys :: "key_map result \<Rightarrow> jwks \<Rightarrow> unit result \<times> jwks" where
  "install_keys fetched st =
     (case fetched of Inl e \<Rightarrow> (Inl e, st) | Inr keys \<Rightarrow> (Inr (), st\<lparr>jw_keys := keys\<rparr>))"

definition Refetch :: "time \<Rightarrow> time \<Rightarrow> http_answer \<Rightarrow> jwks \<Rightarrow> unit result \<times> jwks" where
  "Refetch now now2 answer st =
     (case reserve_fetch now now2 st of
        (False, st') \<Rightarrow> (Inr (), st')
      | (True, st') \<Rightarrow> install_keys (fetch answer) st')"

type_synonym static_keys = "string \<Rightarrow> rsa_key option"

definition static_Key :: "static_keys \<Rightarrow> string \<Rightarrow> rsa_key option" where
  "static_Key s kid = s kid"

definition static_Refetch :: "static_keys \<Rightarrow> unit result \<times> static_keys" where
  "static_Refetch s = (Inr (), s)"

section \<open>What the cache holds\<close>

definition strong_key :: "rsa_key \<Rightarrow> bool" where
  "strong_key k \<longleftrightarrow> 2 ^ (minRSABits - 1) \<le> Modulus k \<and> 3 \<le> Exponent k \<and> odd (Exponent k)"

definition strong_keys :: "key_map \<Rightarrow> bool" where
  "strong_keys keys \<longleftrightarrow> distinct (map fst keys) \<and> (\<forall>(kid, key) \<in> set keys. kid \<noteq> '''' \<and> strong_key key)"

lemma parse_strong: "parseRSAKey n e = Inr key \<Longrightarrow> strong_key key"
  by (auto simp: parseRSAKey_def strong_key_def short_modulus_def Let_def split: if_splits option.splits)

lemma add_entry_strong: "strong_keys keys \<Longrightarrow> strong_keys (add_entry entry keys)"
  by (auto simp: add_entry_def strong_keys_def put_key_def usable_entry_def distinct_map_filter dest: parse_strong split: sum.split)

lemma fold_add_strong: "strong_keys keys \<Longrightarrow> strong_keys (fold add_entry entries keys)"
  by (induction entries arbitrary: keys) (auto intro: add_entry_strong)

lemma fetch_strong: "fetch answer = Inr keys \<Longrightarrow> strong_keys keys \<and> keys \<noteq> []"
  using fold_add_strong[of "[]"]
  by (auto simp: fetch_def Let_def strong_keys_def[of "[]"] split: http_answer.splits if_splits option.splits sum.splits)

lemma fetch_error: "fetch answer = Inl e \<Longrightarrow> is_error e ErrKeysUnavailable"
  by (auto simp: fetch_def Let_def unavailable_def ErrKeysUnavailable_def split: http_answer.splits if_splits option.splits sum.splits)

text \<open>
  Concurrent verifications: the critical sections of any number of \<^verbatim>\<open>Refetch\<close> calls in any order, with the times at which a fetch was started.
\<close>

datatype cache_op = Reserve time time | Install http_answer

fun run_cache :: "cache_op list \<Rightarrow> jwks \<Rightarrow> time list \<times> jwks" where
  "run_cache [] st = ([], st)"
| "run_cache (Reserve now now2 # ops) st =
     (let (go, st1) = reserve_fetch now now2 st; (starts, st2) = run_cache ops st1 in (if go then now2 # starts else starts, st2))"
| "run_cache (Install answer # ops) st = run_cache ops (snd (install_keys (fetch answer) st))"

fun spaced :: "int \<Rightarrow> time list \<Rightarrow> bool" where
  "spaced gap (t # u # ts) \<longleftrightarrow> gap \<le> u - t \<and> spaced gap (u # ts)"
| "spaced gap ts \<longleftrightarrow> True"

lemma time_sub_gap: "0 < gap \<Longrightarrow> gap < 2 ^ 63 \<Longrightarrow> \<not> time_sub t u < gap \<Longrightarrow> gap \<le> t - u"
  by (auto simp: time_sub_def)

lemma spaced_start:
  "spaced gap ts \<Longrightarrow> ts = [] \<or> gap \<le> hd ts - t \<Longrightarrow> spaced gap (t # ts)"
  by (cases ts) auto

lemma run_cache_spaced:
  assumes "run_cache ops st = (starts, st')" "\<forall>t u. Reserve t u \<in> set ops \<longrightarrow> t \<le> u \<and> u \<noteq> 0"
    "0 < sint (c_MinRefetchInterval (jw_cfg st))"
  shows "spaced (sint (c_MinRefetchInterval (jw_cfg st))) starts
    \<and> (jw_lastFetched st \<noteq> 0 \<and> starts \<noteq> [] \<longrightarrow> sint (c_MinRefetchInterval (jw_cfg st)) \<le> hd starts - jw_lastFetched st)"
  using assms
proof (induction ops st arbitrary: starts st' rule: run_cache.induct)
  case (2 now now2 ops st)
  obtain go st1 where r: "reserve_fetch now now2 st = (go, st1)" by (cases "reserve_fetch now now2 st")
  obtain starts1 where s: "run_cache ops st1 = (starts1, st')" "starts = (if go then now2 # starts1 else starts1)"
    using "2.prems"(1) r by (auto split: prod.splits)
  have c: "jw_cfg st1 = jw_cfg st" using r by (auto simp: reserve_fetch_def split: if_splits)
  note i = "2.IH"[OF r[symmetric] _ s(1), unfolded c]
  have g: "sint (c_MinRefetchInterval (jw_cfg st)) < 2 ^ 63" using sint_lt[of "c_MinRefetchInterval (jw_cfg st)"] by simp
  show ?case
  proof (cases go)
    case True
    then have l: "jw_lastFetched st1 = now2" "now \<le> now2" "now2 \<noteq> 0" using r "2.prems"(2) by (auto simp: reserve_fetch_def split: if_splits)
    have "jw_lastFetched st \<noteq> 0 \<longrightarrow> sint (c_MinRefetchInterval (jw_cfg st)) \<le> now2 - jw_lastFetched st"
      using True r l(2) time_sub_gap[OF "2.prems"(3) g] by (fastforce simp: reserve_fetch_def split: if_splits)
    with True i l "2.prems"(2,3) s(2) show ?thesis by (auto intro: spaced_start)
  next
    case False
    then have "st1 = st" using r by (auto simp: reserve_fetch_def split: if_splits)
    with False i "2.prems"(2,3) s(2) show ?thesis by auto
  qed
next
  case (3 answer ops st)
  then show ?case by (auto simp: install_keys_def split: sum.splits)
qed auto

lemma run_cache_strong:
  "run_cache ops st = (starts, st') \<Longrightarrow> strong_keys (jw_keys st) \<Longrightarrow>
     strong_keys (jw_keys st') \<and> (jw_keys st \<noteq> [] \<longrightarrow> jw_keys st' \<noteq> [])"
proof (induction ops st arbitrary: starts rule: run_cache.induct)
  case (2 now now2 ops st)
  then show ?case by (auto simp: reserve_fetch_def split: prod.splits if_splits)
next
  case (3 answer ops st)
  show ?case
  proof (cases "fetch answer")
    case (Inr keys)
    then show ?thesis using 3 fetch_strong[OF Inr] by (auto simp: install_keys_def)
  qed (use 3 in \<open>auto simp: install_keys_def\<close>)
qed simp

text \<open>
  C23: The key cache is safe under any interleaving of concurrent verifications: however many ask for unknown keys, and in whatever order their
  critical sections run, two fetches against the issuer start at least the configured interval apart (by default 60 seconds);
  every key in the cache has at least 3072 bits and an odd exponent of at least 3, one key per identifier; and a cache that holds keys is never
  emptied by a fetch that failed or returned nothing usable.
\<close>

theorem jwks_cache_safe:
  assumes "NewJWKS cfg = Inr st0" "run_cache ops st0 = (starts, st)" "\<forall>t u. Reserve t u \<in> set ops \<longrightarrow> t \<le> u \<and> u \<noteq> 0"
  shows "spaced (sint (c_MinRefetchInterval (jw_cfg st0))) starts \<and> 0 < sint (c_MinRefetchInterval (jw_cfg st0))
    \<and> distinct (map fst (jw_keys st)) \<and> (\<forall>kid key. Key st kid = Some key \<longrightarrow> kid \<noteq> '''' \<and> strong_key key)
    \<and> (\<forall>ops2. Len st \<noteq> 0 \<longrightarrow> Len (snd (run_cache ops2 st)) \<noteq> 0)"
proof -
  have s0: "strong_keys (jw_keys st0)" "0 < sint (c_MinRefetchInterval (jw_cfg st0))"
    using assms(1) by (auto simp: NewJWKS_def Let_def strong_keys_def applyDefaults_def split: if_splits)
  have s1: "strong_keys (jw_keys st)" using run_cache_strong[OF assms(2) s0(1)] by simp
  have "kid \<noteq> '''' \<and> strong_key key" if "Key st kid = Some key" for kid key
    using s1 that by (auto simp: strong_keys_def Key_def dest: map_of_SomeD)
  moreover have "spaced (sint (c_MinRefetchInterval (jw_cfg st0))) starts"
    using run_cache_spaced[OF assms(2,3) s0(2)] by simp
  moreover have "Len (snd (run_cache ops2 st)) \<noteq> 0" if "Len st \<noteq> 0" for ops2
  proof -
    obtain starts2 st2 where r: "run_cache ops2 st = (starts2, st2)" by (cases "run_cache ops2 st")
    from run_cache_strong[OF r s1] that r show ?thesis by (simp add: Len_def)
  qed
  ultimately show ?thesis using s0 s1 unfolding strong_keys_def by blast
qed

definition sample_cache :: jwks_config where
  "sample_cache = \<lparr>c_URL = ''https://issuer/jwks'', c_Timeout = 0, c_MinRefetchInterval = 0\<rparr>"

theorem jwks_cache_safe_witness:
  "\<exists>st0. NewJWKS sample_cache = Inr st0
     \<and> fst (run_cache [Reserve 5 5, Reserve 6 7, Install Unreachable, Reserve 60000000005 60000000005] st0) = [5, 60000000005]
     \<and> spaced 60000000000 [5, 60000000005]"
proof -
  have "trim_space (c_URL (applyDefaults sample_cache)) \<noteq> ''''" by code_simp
  then obtain st0 where st0: "NewJWKS sample_cache = Inr st0" "st0 = \<lparr>jw_cfg = applyDefaults sample_cache, jw_keys = [], jw_lastFetched = 0\<rparr>"
    by (simp add: NewJWKS_def Let_def)
  have i: "c_MinRefetchInterval (jw_cfg st0) = 60000000000" by (simp add: st0(2) applyDefaults_def sample_cache_def)
  obtain starts st where r: "run_cache [Reserve 5 5, Reserve 6 7, Install Unreachable, Reserve 60000000005 60000000005] st0 = (starts, st)"
    by (cases "run_cache [Reserve 5 5, Reserve 6 7, Install Unreachable, Reserve 60000000005 60000000005] st0")
  have s: "starts = [5, 60000000005]"
    using r by (simp add: st0(2) reserve_fetch_def applyDefaults_def sample_cache_def install_keys_def fetch_def time_sub_def)
  from jwks_cache_safe[OF st0(1) r] have "spaced (sint (c_MinRefetchInterval (jw_cfg st0))) starts" by auto
  with st0(1) r s i show ?thesis by (intro exI[of _ st0]) simp
qed

end
