(* ===== verification/Verify.thy ===== *)
theory Verify
  imports Jwks GoTime JsonWrite
begin

text \<open>
  \<^verbatim>\<open>src/verify/verify.go\<close>: verifying a compact-serialized access token. The key source is an argument (\<open>lookup\<close> and \<open>refetch\<close> on its state,
  the interface \<^verbatim>\<open>KeySource\<close>), and so are the check of an RSASSA-PSS signature with SHA-256 (\<open>pss\<close>) and the consumer's claim requirement.
\<close>

definition ErrMalformed :: goerror where "ErrMalformed = New ''verify: token is malformed''"

definition ErrAlgorithm :: goerror where "ErrAlgorithm = New ''verify: token algorithm is not permitted''"

definition ErrSignature :: goerror where "ErrSignature = New ''verify: signature is invalid''"

definition ErrIssuer :: goerror where "ErrIssuer = New ''verify: issuer does not match''"

definition ErrAudience :: goerror where "ErrAudience = New ''verify: audience does not include this resource''"

definition ErrExpired :: goerror where "ErrExpired = New ''verify: token has expired''"

definition ErrNotYetValid :: goerror where "ErrNotYetValid = New ''verify: token is not yet valid''"

definition ErrUnknownKey :: goerror where "ErrUnknownKey = New ''verify: signing key is unknown''"

definition ErrClaimRequirement :: goerror where "ErrClaimRequirement = New ''verify: token does not satisfy the required claims''"

definition ErrTokenType :: goerror where "ErrTokenType = New ''verify: token is not an access token''"

section \<open>Time\<close>

text \<open>
  \<^verbatim>\<open>time.Unix(sec, 0)\<close>, whose seconds since year 1 wrap at 64 bits, and \<^verbatim>\<open>Time.Add\<close>, whose seconds saturate.
\<close>

definition time_Unix :: "int \<Rightarrow> time" where
  "time_Unix sec = sint (word_of_int (sec + 62135596800) :: 64 word) * 1000000000"

definition time_Add :: "time \<Rightarrow> int \<Rightarrow> time" where
  "time_Add t d =
     (let total = t + d; s = total div 1000000000; n = total mod 1000000000 in
      (if s > 2 ^ 63 - 1 then 2 ^ 63 - 1 else if s < - (2 ^ 63) then - (2 ^ 63 - 1) else s) * 1000000000 + n)"

section \<open>Claims\<close>

record claims =
  Issuer :: string
  Subject :: string
  Audience :: "string list"
  ExpiresAt :: time
  IssuedAt :: time
  NotBefore :: time
  raw_claims :: "(string \<times> json) list"
  headerType :: string

definition TokenType :: "claims \<Rightarrow> string" where
  "TokenType c = headerType c"

definition Raw :: "claims \<Rightarrow> string \<Rightarrow> json option" where
  "Raw c name = map_of (raw_claims c) name"

definition Has :: "claims \<Rightarrow> string \<Rightarrow> bool" where
  "Has c name \<longleftrightarrow> map_of (raw_claims c) name \<noteq> None"

definition claim_String :: "claims \<Rightarrow> string \<Rightarrow> string \<times> bool" where
  "claim_String c name =
     (case map_of (raw_claims c) name of
        None \<Rightarrow> ('''', False)
      | Some j \<Rightarrow> (case decode_string j '''' of Inl _ \<Rightarrow> ('''', False) | Inr s \<Rightarrow> (s, s \<noteq> '''')))"

definition claim_Int64 :: "claims \<Rightarrow> string \<Rightarrow> int \<times> bool" where
  "claim_Int64 c name =
     (case map_of (raw_claims c) name of
        None \<Rightarrow> (0, False)
      | Some j \<Rightarrow> (case decode_int64 j 0 of Inl _ \<Rightarrow> (0, False) | Inr n \<Rightarrow> (n, True)))"

section \<open>Configuration\<close>

record config =
  v_Issuer :: string
  v_Audience :: string
  v_Requirement :: "(claims \<Rightarrow> unit result) option"
  v_RequireAccessTokenType :: bool
  v_MaxSkew :: duration

definition maxSkewCeiling :: duration where "maxSkewCeiling = 60000000000"

definition applyDefaults :: "config \<Rightarrow> config" where
  "applyDefaults c = c\<lparr>v_MaxSkew := if sint (v_MaxSkew c) \<le> 0 then 30000000000 else v_MaxSkew c\<rparr>"

definition validate :: "bool \<Rightarrow> config \<Rightarrow> unit result" where
  "validate keys_nil c =
     (if trim_space (v_Issuer c) = '''' then Inl (New ''verify: an issuer is required'')
      else if trim_space (v_Audience c) = '''' then Inl (New ''verify: an audience is required'')
      else if keys_nil then Inl (New ''verify: a key source is required'')
      else if v_Requirement c = None then Inl (New ''verify: a ClaimRequirement is required'')
      else if sint (v_MaxSkew c) > sint maxSkewCeiling then Inl (New ''verify: MaxSkew exceeds the 60s ceiling'')
      else Inr ())"

definition New_verifier :: "bool \<Rightarrow> config \<Rightarrow> config result" where
  "New_verifier keys_nil cfg0 =
     (let cfg = applyDefaults cfg0 in
      case validate keys_nil cfg of Inl e \<Rightarrow> Inl e | Inr _ \<Rightarrow> Inr cfg)"

section \<open>Decoding\<close>

definition decodeSegment :: "string \<Rightarrow> string result" where
  "decodeSegment segment =
     (if \<exists>c \<in> set segment. c = CHR ''+'' \<or> c = CHR ''/'' \<or> c = CHR ''='' then Inl ErrMalformed
      else case raw_url_decode segment of None \<Rightarrow> Inl ErrMalformed | Some decoded \<Rightarrow> Inr decoded)"

record header =
  h_Algorithm :: string
  h_KeyID :: string
  h_Type :: string

definition set_header :: "string \<Rightarrow> json \<Rightarrow> header \<Rightarrow> header result" where
  "set_header f v w =
     (if f = ''alg'' then map_sum id (\<lambda>s. w\<lparr>h_Algorithm := s\<rparr>) (decode_string v (h_Algorithm w))
      else if f = ''kid'' then map_sum id (\<lambda>s. w\<lparr>h_KeyID := s\<rparr>) (decode_string v (h_KeyID w))
      else map_sum id (\<lambda>s. w\<lparr>h_Type := s\<rparr>) (decode_string v (h_Type w)))"

definition decode_header :: "string \<Rightarrow> header result" where
  "decode_header text =
     (case parse_json text of
        None \<Rightarrow> Inl (New ''json: syntax error'')
      | Some j \<Rightarrow> decode_struct set_header [''alg'', ''kid'', ''typ''] j \<lparr>h_Algorithm = '''', h_KeyID = '''', h_Type = ''''\<rparr>)"

record registeredClaims =
  g_Issuer :: string
  g_Subject :: string
  g_ExpiresAt :: "int option"
  g_IssuedAt :: "int option"
  g_NotBefore :: "int option"

text \<open>A \<^verbatim>\<open>*int64\<close> field: \<^verbatim>\<open>null\<close> is a nil pointer.\<close>

definition decode_int64_ptr :: "json \<Rightarrow> int option result" where
  "decode_int64_ptr j = (case j of JNull \<Rightarrow> Inr None | _ \<Rightarrow> map_sum id Some (decode_int64 j 0))"

definition set_registered :: "string \<Rightarrow> json \<Rightarrow> registeredClaims \<Rightarrow> registeredClaims result" where
  "set_registered f v w =
     (if f = ''iss'' then map_sum id (\<lambda>s. w\<lparr>g_Issuer := s\<rparr>) (decode_string v (g_Issuer w))
      else if f = ''sub'' then map_sum id (\<lambda>s. w\<lparr>g_Subject := s\<rparr>) (decode_string v (g_Subject w))
      else if f = ''exp'' then map_sum id (\<lambda>n. w\<lparr>g_ExpiresAt := n\<rparr>) (decode_int64_ptr v)
      else if f = ''iat'' then map_sum id (\<lambda>n. w\<lparr>g_IssuedAt := n\<rparr>) (decode_int64_ptr v)
      else map_sum id (\<lambda>n. w\<lparr>g_NotBefore := n\<rparr>) (decode_int64_ptr v))"

definition decode_registered :: "json \<Rightarrow> registeredClaims result" where
  "decode_registered j = decode_struct set_registered [''iss'', ''sub'', ''exp'', ''iat'', ''nbf''] j
     \<lparr>g_Issuer = '''', g_Subject = '''', g_ExpiresAt = None, g_IssuedAt = None, g_NotBefore = None\<rparr>"

text \<open>A \<^verbatim>\<open>map[string]json.RawMessage\<close>: the last of equal members wins.\<close>

definition decode_raw_map :: "json \<Rightarrow> (string \<times> json) list result" where
  "decode_raw_map j =
     (case j of
        JObj ms \<Rightarrow> Inr (rev ms)
      | JNull \<Rightarrow> Inr []
      | _ \<Rightarrow> Inl type_error)"

fun decode_strings :: "json list \<Rightarrow> string list result" where
  "decode_strings [] = Inr []"
| "decode_strings (j # js) = bind_result (decode_string j '''') (\<lambda>s. map_sum id (\<lambda>ss. s # ss) (decode_strings js))"

definition decodeAudience :: "json option \<Rightarrow> string list result" where
  "decodeAudience encoded =
     (case encoded of
        None \<Rightarrow> Inl (Wrapf ''verify: no aud claim'' [ErrMalformed])
      | Some j \<Rightarrow>
          (case decode_string j '''' of
             Inr single \<Rightarrow> Inr [single]
           | Inl _ \<Rightarrow>
               (case (case j of JArr js \<Rightarrow> decode_strings js | JNull \<Rightarrow> Inr [] | _ \<Rightarrow> Inl type_error) of
                  Inr multiple \<Rightarrow> Inr multiple
                | Inl _ \<Rightarrow> Inl (Wrapf ''verify: aud is neither a string nor an array'' [ErrMalformed]))))"

definition unix_or_zero :: "int option \<Rightarrow> time" where
  "unix_or_zero n = (case n of None \<Rightarrow> 0 | Some sec \<Rightarrow> time_Unix sec)"

definition not_an_object :: goerror where
  "not_an_object = Wrapf ''verify: payload is not an object'' [ErrMalformed]"

definition decodeClaims :: "string \<Rightarrow> claims result" where
  "decodeClaims payload =
     (case parse_json payload of
        None \<Rightarrow> Inl not_an_object
      | Some j \<Rightarrow>
          (case (decode_registered j, decode_raw_map j) of
             (Inr g, Inr raw_map) \<Rightarrow>
               (case decodeAudience (map_of raw_map ''aud'') of
                  Inl e \<Rightarrow> Inl e
                | Inr audience \<Rightarrow>
                    Inr \<lparr>Issuer = g_Issuer g, Subject = g_Subject g, Audience = audience, ExpiresAt = unix_or_zero (g_ExpiresAt g),
                         IssuedAt = unix_or_zero (g_IssuedAt g), NotBefore = unix_or_zero (g_NotBefore g),
                         raw_claims = raw_map, headerType = ''''\<rparr>)
           | _ \<Rightarrow> Inl not_an_object))"

section \<open>Checks\<close>

definition equal_fold :: "string \<Rightarrow> string \<Rightarrow> bool" where
  "equal_fold s t \<longleftrightarrow> map lower_char s = map lower_char t"

definition checkRegistered :: "config \<Rightarrow> time \<Rightarrow> claims \<Rightarrow> unit result" where
  "checkRegistered cfg now c =
     (if Issuer c \<noteq> v_Issuer cfg then Inl (Wrapf ''verify: issuer'' [ErrIssuer])
      else if v_Audience cfg \<notin> set (Audience c) then Inl (Wrapf ''verify: audience'' [ErrAudience])
      else if ExpiresAt c = 0 then Inl (Wrapf ''verify: no exp claim'' [ErrMalformed])
      else if now > time_Add (ExpiresAt c) (sint (v_MaxSkew cfg)) then Inl (Wrapf ''verify: expired'' [ErrExpired])
      else if IssuedAt c \<noteq> 0 \<and> time_Add (IssuedAt c) (sint (- v_MaxSkew cfg)) > now
      then Inl (Wrapf ''verify: issued at'' [ErrNotYetValid])
      else if NotBefore c \<noteq> 0 \<and> time_Add (NotBefore c) (sint (- v_MaxSkew cfg)) > now
      then Inl (Wrapf ''verify: not valid before'' [ErrNotYetValid])
      else Inr ())"

definition checkSignature ::
  "('k \<Rightarrow> string \<Rightarrow> rsa_key option) \<Rightarrow> ('k \<Rightarrow> unit result \<times> 'k) \<Rightarrow> (rsa_key \<Rightarrow> string \<Rightarrow> string \<Rightarrow> bool)
     \<Rightarrow> string \<Rightarrow> string \<Rightarrow> string \<Rightarrow> 'k \<Rightarrow> unit result \<times> 'k" where
  "checkSignature lookup refetch pss kid msg signature ks =
     (let with_key = (\<lambda>found ks'.
            (case found of
               None \<Rightarrow> (Inl (Wrapf ''verify: kid'' [ErrUnknownKey]), ks')
             | Some key \<Rightarrow> if pss key msg signature then (Inr (), ks') else (Inl (Wrapf ''verify'' [ErrSignature]), ks')))
      in case lookup ks kid of
        Some key \<Rightarrow> with_key (Some key) ks
      | None \<Rightarrow>
          (case refetch ks of
             (Inl _, ks') \<Rightarrow> (Inl (Wrapf ''verify: kid unknown and the key set could not be reloaded'' [ErrKeysUnavailable]), ks')
           | (Inr _, ks') \<Rightarrow> with_key (lookup ks' kid) ks'))"

text \<open>The checks of the header, in order, before any key is looked up.\<close>

definition check_header :: "config \<Rightarrow> header \<Rightarrow> unit result" where
  "check_header cfg head =
     (let accessToken = equal_fold (h_Type head) ''at+jwt'' \<or> equal_fold (h_Type head) ''application/at+jwt'' in
      if h_Algorithm head \<noteq> permittedAlgorithm then Inl (Wrapf ''verify: alg'' [ErrAlgorithm])
      else if v_RequireAccessTokenType cfg \<and> \<not> accessToken then Inl (Wrapf ''verify: typ is not at+jwt'' [ErrTokenType])
      else if h_Type head \<noteq> '''' \<and> \<not> equal_fold (h_Type head) ''JWT'' \<and> \<not> accessToken
      then Inl (Wrapf ''verify: typ is not a JWT'' [ErrMalformed])
      else if h_KeyID head = '''' then Inl (Wrapf ''verify: header carries no kid'' [ErrMalformed])
      else Inr ())"

text \<open>What is left once the signature holds.\<close>

definition verify_payload :: "config \<Rightarrow> time \<Rightarrow> header \<Rightarrow> string \<Rightarrow> claims result" where
  "verify_payload cfg now head segment =
     (case decodeSegment segment of
        Inl _ \<Rightarrow> Inl (Wrapf ''verify: payload'' [ErrMalformed])
      | Inr rawPayload \<Rightarrow>
          bind_result (decodeClaims rawPayload) (\<lambda>c0.
            let c = c0\<lparr>headerType := h_Type head\<rparr> in
            bind_result (checkRegistered cfg now c) (\<lambda>_.
              case v_Requirement cfg of
                None \<Rightarrow> Inl (New ''panic: nil ClaimRequirement'')
              | Some require \<Rightarrow>
                  (case require c of Inl e \<Rightarrow> Inl (Wrapf '''' [ErrClaimRequirement, e]) | Inr _ \<Rightarrow> Inr c))))"

definition Verify ::
  "('k \<Rightarrow> string \<Rightarrow> rsa_key option) \<Rightarrow> ('k \<Rightarrow> unit result \<times> 'k) \<Rightarrow> (rsa_key \<Rightarrow> string \<Rightarrow> string \<Rightarrow> bool)
     \<Rightarrow> config \<Rightarrow> time \<Rightarrow> string \<Rightarrow> 'k \<Rightarrow> claims result \<times> 'k" where
  "Verify lookup refetch pss cfg now token ks =
     (case split_on (CHR ''.'') token of
        [hseg, pseg, sseg] \<Rightarrow>
          (case decodeSegment hseg of
             Inl _ \<Rightarrow> (Inl (Wrapf ''verify: header'' [ErrMalformed]), ks)
           | Inr rawHeader \<Rightarrow>
               (case decode_header rawHeader of
                  Inl _ \<Rightarrow> (Inl (Wrapf ''verify: header is not an object'' [ErrMalformed]), ks)
                | Inr head \<Rightarrow>
                    (case check_header cfg head of
                       Inl e \<Rightarrow> (Inl e, ks)
                     | Inr _ \<Rightarrow>
                         (case decodeSegment sseg of
                            Inl _ \<Rightarrow> (Inl (Wrapf ''verify: signature'' [ErrMalformed]), ks)
                          | Inr signature \<Rightarrow>
                              (case checkSignature lookup refetch pss (h_KeyID head) (hseg @ ''.'' @ pseg) signature ks of
                                 (Inl e, ks') \<Rightarrow> (Inl e, ks')
                               | (Inr _, ks') \<Rightarrow> (verify_payload cfg now head pseg, ks'))))))
      | _ \<Rightarrow> (Inl (Wrapf ''verify: segments'' [ErrMalformed]), ks))"

section \<open>Exactly what is accepted\<close>

lemma three_segments:
  "split_on c t = [h, p, s] \<longleftrightarrow> t = h @ c # p @ c # s \<and> c \<notin> set h \<and> c \<notin> set p \<and> c \<notin> set s"
proof
  assume a: "split_on c t = [h, p, s]"
  then have "c \<notin> set h \<and> c \<notin> set p \<and> c \<notin> set s" using split_on_no_sep[of _ c t] by simp
  moreover have "t = h @ c # p @ c # s" using join_split[of c t] a by simp
  ultimately show "t = h @ c # p @ c # s \<and> c \<notin> set h \<and> c \<notin> set p \<and> c \<notin> set s" by simp
qed (auto simp: split_on_append split_on_atom)

definition key_for :: "('k \<Rightarrow> string \<Rightarrow> rsa_key option) \<Rightarrow> ('k \<Rightarrow> unit result \<times> 'k) \<Rightarrow> 'k \<Rightarrow> string \<Rightarrow> rsa_key \<Rightarrow> bool" where
  "key_for lookup refetch ks kid key \<longleftrightarrow>
     lookup ks kid = Some key
     \<or> lookup ks kid = None \<and> fst (refetch ks) = Inr () \<and> lookup (snd (refetch ks)) kid = Some key"

lemma checkSignature_Inr:
  "fst (checkSignature lookup refetch pss kid msg sig ks) = Inr () \<longleftrightarrow>
     (\<exists>key. key_for lookup refetch ks kid key \<and> pss key msg sig)"
  by (auto simp: checkSignature_def key_for_def Let_def split: option.splits prod.splits sum.splits)

lemma checkSignature_source:
  "snd (checkSignature lookup refetch pss kid msg sig ks) = (if lookup ks kid = None then snd (refetch ks) else ks)"
  by (auto simp: checkSignature_def Let_def split: option.splits prod.splits sum.splits)

definition type_ok :: "config \<Rightarrow> header \<Rightarrow> bool" where
  "type_ok cfg head \<longleftrightarrow>
     map lower_char (h_Type head) \<in> {''at+jwt'', ''application/at+jwt''}
     \<or> \<not> v_RequireAccessTokenType cfg \<and> map lower_char (h_Type head) \<in> {'''', ''jwt''}"

lemma lower_types: "map lower_char ''at+jwt'' = ''at+jwt''" "map lower_char ''application/at+jwt'' = ''application/at+jwt''"
  "map lower_char ''JWT'' = ''jwt''"
  by code_simp+

lemma check_header_Inr:
  "check_header cfg head = Inr () \<longleftrightarrow> h_Algorithm head = ''PS256'' \<and> type_ok cfg head \<and> h_KeyID head \<noteq> ''''"
  by (auto simp: check_header_def type_ok_def equal_fold_def lower_types permittedAlgorithm_def Let_def)

definition in_time :: "config \<Rightarrow> time \<Rightarrow> claims \<Rightarrow> bool" where
  "in_time cfg now c \<longleftrightarrow> ExpiresAt c \<noteq> 0 \<and> now \<le> time_Add (ExpiresAt c) (sint (v_MaxSkew cfg))
     \<and> (IssuedAt c = 0 \<or> time_Add (IssuedAt c) (sint (- v_MaxSkew cfg)) \<le> now)
     \<and> (NotBefore c = 0 \<or> time_Add (NotBefore c) (sint (- v_MaxSkew cfg)) \<le> now)"

lemma checkRegistered_Inr:
  "checkRegistered cfg now c = Inr () \<longleftrightarrow> Issuer c = v_Issuer cfg \<and> v_Audience cfg \<in> set (Audience c) \<and> in_time cfg now c"
  by (auto simp: checkRegistered_def in_time_def)

lemma verify_payload_Inr:
  "verify_payload cfg now head seg = Inr c \<longleftrightarrow>
     (\<exists>body c0 require. decodeSegment seg = Inr body \<and> decodeClaims body = Inr c0 \<and> c = c0\<lparr>headerType := h_Type head\<rparr>
       \<and> checkRegistered cfg now c = Inr () \<and> v_Requirement cfg = Some require \<and> require c = Inr ())"
proof (cases "decodeSegment seg")
  case (Inr body)
  show ?thesis
  proof (cases "decodeClaims body")
    case claims: (Inr c0)
    let ?c = "c0\<lparr>headerType := h_Type head\<rparr>"
    show ?thesis
    proof (cases "checkRegistered cfg now ?c")
      case (Inr u)
      then show ?thesis
        by (cases "v_Requirement cfg"; cases "the (v_Requirement cfg) ?c")
           (use \<open>decodeSegment seg = Inr body\<close> claims in \<open>auto simp: verify_payload_def Let_def\<close>)
    qed (use Inr claims in \<open>auto simp: verify_payload_def Let_def\<close>)
  qed (use Inr in \<open>auto simp: verify_payload_def Let_def\<close>)
qed (auto simp: verify_payload_def)

lemma Verify_Inr:
  "fst (Verify lookup refetch pss cfg now token ks) = Inr c \<longleftrightarrow>
     (\<exists>h p s htext head sig. token = h @ ''.'' @ p @ ''.'' @ s \<and> CHR ''.'' \<notin> set (h @ p @ s)
       \<and> decodeSegment h = Inr htext \<and> decode_header htext = Inr head \<and> check_header cfg head = Inr ()
       \<and> decodeSegment s = Inr sig
       \<and> fst (checkSignature lookup refetch pss (h_KeyID head) (h @ ''.'' @ p) sig ks) = Inr ()
       \<and> verify_payload cfg now head p = Inr c)" (is "?L \<longleftrightarrow> ?R")
proof
  assume ?L
  then obtain h p s where seg: "split_on (CHR ''.'') token = [h, p, s]"
    by (auto simp: Verify_def split: list.splits)
  with \<open>?L\<close> show ?R
    using seg[unfolded three_segments]
    by (rule_tac exI[of _ h], rule_tac exI[of _ p], rule_tac exI[of _ s]) (auto simp: Verify_def split: sum.splits prod.splits)
next
  assume ?R
  then obtain h p s htext head sig where r: "token = h @ ''.'' @ p @ ''.'' @ s" "CHR ''.'' \<notin> set (h @ p @ s)"
    "decodeSegment h = Inr htext" "decode_header htext = Inr head" "check_header cfg head = Inr ()" "decodeSegment s = Inr sig"
    "fst (checkSignature lookup refetch pss (h_KeyID head) (h @ ''.'' @ p) sig ks) = Inr ()" "verify_payload cfg now head p = Inr c"
    by blast
  then have "split_on (CHR ''.'') token = [h, p, s]" unfolding three_segments by simp
  with r show ?L by (auto simp: Verify_def split: prod.splits)
qed

text \<open>Acceptance in terms of the decoders: a segment may carry line ends, and a time claim is read with the wrap of \<^verbatim>\<open>time.Unix\<close>.\<close>

lemma Verify_accepts_iff:
  assumes "v_Requirement cfg = Some require"
  shows "fst (Verify lookup refetch pss cfg now token ks) = Inr c \<longleftrightarrow>
    (\<exists>h p s htext head sig key body c0. token = h @ ''.'' @ p @ ''.'' @ s \<and> CHR ''.'' \<notin> set (h @ p @ s)
       \<and> decodeSegment h = Inr htext \<and> decode_header htext = Inr head
       \<and> h_Algorithm head = ''PS256'' \<and> type_ok cfg head \<and> h_KeyID head \<noteq> ''''
       \<and> decodeSegment s = Inr sig \<and> key_for lookup refetch ks (h_KeyID head) key \<and> pss key (h @ ''.'' @ p) sig
       \<and> decodeSegment p = Inr body \<and> decodeClaims body = Inr c0 \<and> c = c0\<lparr>headerType := h_Type head\<rparr>
       \<and> Issuer c = v_Issuer cfg \<and> v_Audience cfg \<in> set (Audience c) \<and> in_time cfg now c \<and> require c = Inr ())"
  unfolding Verify_Inr check_header_Inr checkSignature_Inr verify_payload_Inr checkRegistered_Inr
  using assms by (simp only: ex_simps[symmetric] conj_assoc option.inject cong: conj_cong) (intro ex_cong1, force)

section \<open>Tokens the encoder makes\<close>

lemma url_char_plain_segment: "v < 64 \<Longrightarrow> url_char v \<notin> set ''+/=.''"
  using url_value_char[of v] by (auto simp: url_value_def)

lemma encoded_plain: "c \<in> set (raw_url_encode s) \<Longrightarrow> c \<notin> set ''+/=.''"
  using encode_values_range[of "map of_char s"] url_char_plain_segment unfolding raw_url_encode_def by fastforce

lemma decodeSegment_encode [simp]: "decodeSegment (raw_url_encode s) = Inr s"
  using encoded_plain[of _ s] raw_url_roundtrip[of s] by (fastforce simp: decodeSegment_def)

lemma encoded_no_dot [simp]: "CHR ''.'' \<notin> set (raw_url_encode s)"
  using encoded_plain[of "CHR ''.''" s] by auto

definition compact :: "string \<Rightarrow> string \<Rightarrow> string \<Rightarrow> string" where
  "compact h p s = raw_url_encode h @ ''.'' @ raw_url_encode p @ ''.'' @ raw_url_encode s"

lemma Verify_compact:
  assumes "decode_header h = Inr head" "check_header cfg head = Inr ()" "lookup ks (h_KeyID head) = Some key"
    "pss key (raw_url_encode h @ ''.'' @ raw_url_encode p) s"
  shows "Verify lookup refetch pss cfg now (compact h p s) ks = (verify_payload cfg now head (raw_url_encode p), ks)"
proof -
  have "split_on (CHR ''.'') (compact h p s) = [raw_url_encode h, raw_url_encode p, raw_url_encode s]"
    unfolding three_segments compact_def by simp
  with assms show ?thesis by (simp add: Verify_def checkSignature_def)
qed

definition sample_header :: json where
  "sample_header = JObj [(''alg'', JStr ''PS256''), (''kid'', JStr ''k1''), (''typ'', JStr ''at+jwt'')]"

definition sample_payload :: json where
  "sample_payload = JObj [(''iss'', JStr ''https://issuer''), (''sub'', JStr ''svc''), (''aud'', JArr [JStr ''orders'', JStr ''billing'']), (''exp'', JNum ''1000'')]"

definition sample_token :: string where
  "sample_token = compact (write_json sample_header) (write_json sample_payload) ''signature''"

definition sample_claims :: claims where
  "sample_claims = \<lparr>Issuer = ''https://issuer'', Subject = ''svc'', Audience = [''orders'', ''billing''], ExpiresAt = 62135597800000000000,
     IssuedAt = 0, NotBefore = 0, raw_claims = [(''exp'', JNum ''1000''), (''aud'', JArr [JStr ''orders'', JStr ''billing'']), (''sub'', JStr ''svc''),
     (''iss'', JStr ''https://issuer'')], headerType = ''at+jwt''\<rparr>"

definition sample_verifier :: config where
  "sample_verifier = \<lparr>v_Issuer = ''https://issuer'', v_Audience = ''billing'', v_Requirement = Some (\<lambda>c. if Has c ''sub'' then Inr () else Inl (New ''no subject'')),
     v_RequireAccessTokenType = True, v_MaxSkew = 30000000000\<rparr>"

definition sample_head :: header where
  "sample_head = \<lparr>h_Algorithm = ''PS256'', h_KeyID = ''k1'', h_Type = ''at+jwt''\<rparr>"

definition sample_pss :: "rsa_key \<Rightarrow> string \<Rightarrow> string \<Rightarrow> bool" where
  "sample_pss key msg sig \<longleftrightarrow> odd (Exponent key) \<and> msg \<noteq> '''' \<and> sig = ''signature''"

definition sample_now :: time where
  "sample_now = 62135597820000000000"

lemma utf8_literals:
  "valid_utf8 ''alg''" "valid_utf8 ''PS256''" "valid_utf8 ''kid''" "valid_utf8 ''k1''" "valid_utf8 ''typ''" "valid_utf8 ''at+jwt''" "valid_utf8 ''iss''"
  "valid_utf8 ''https://issuer''" "valid_utf8 ''sub''" "valid_utf8 ''svc''" "valid_utf8 ''aud''" "valid_utf8 ''orders''" "valid_utf8 ''billing''" "valid_utf8 ''exp''"
  by code_simp+

lemma sample_decoded:
  "decode_header (write_json sample_header) = Inr sample_head"
  "decodeClaims (write_json sample_payload) = Inr (sample_claims\<lparr>headerType := ''''\<rparr>)"
proof -
  have "\<exists>n. ''1000'' = show_int n" by (rule exI[of _ 1000]) code_simp
  then have "writable 0 sample_header" "writable 0 sample_payload"
    by (simp_all add: sample_header_def sample_payload_def utf8_literals maxNestingDepth_def)
  note p = this[THEN parse_write]
  have "decode_struct set_header [''alg'', ''kid'', ''typ''] sample_header \<lparr>h_Algorithm = '''', h_KeyID = '''', h_Type = ''''\<rparr> = Inr sample_head"
    by code_simp
  then show "decode_header (write_json sample_header) = Inr sample_head" by (simp add: decode_header_def p)
  have "decode_registered sample_payload = Inr \<lparr>g_Issuer = ''https://issuer'', g_Subject = ''svc'', g_ExpiresAt = Some 1000, g_IssuedAt = None, g_NotBefore = None\<rparr>"
    by code_simp
  moreover have "decode_raw_map sample_payload = Inr (raw_claims sample_claims)" by code_simp
  moreover have "decodeAudience (map_of (raw_claims sample_claims) ''aud'') = Inr [''orders'', ''billing'']" by code_simp
  moreover have "unix_or_zero (Some 1000) = 62135597800000000000" by code_simp
  ultimately show "decodeClaims (write_json sample_payload) = Inr (sample_claims\<lparr>headerType := ''''\<rparr>)"
    by (simp add: decodeClaims_def p unix_or_zero_def[of None]) (simp add: sample_claims_def)
qed

lemma sample_checks:
  "type_ok sample_verifier sample_head" "in_time sample_verifier sample_now sample_claims" "the (v_Requirement sample_verifier) sample_claims = Inr ()"
  by code_simp+

section \<open>The interface to the key source\<close>

text \<open>
  What a verifier needs of its key source: a set of states it trusts, which a reload keeps, and in which every key found is acceptable.
\<close>

locale key_source =
  fixes lookup :: "'k \<Rightarrow> string \<Rightarrow> rsa_key option" and refetch :: "'k \<Rightarrow> unit result \<times> 'k"
    and trusted :: "'k \<Rightarrow> bool" and acceptable :: "'k \<Rightarrow> rsa_key \<Rightarrow> bool"
  assumes refetch_trusted: "trusted ks \<Longrightarrow> trusted (snd (refetch ks))"
    and lookup_acceptable: "trusted ks \<Longrightarrow> lookup ks kid = Some key \<Longrightarrow> acceptable ks key"
begin

lemma verify_trusted:
  assumes "trusted ks"
  shows "trusted (snd (Verify lookup refetch pss cfg now token ks))"
proof -
  have "trusted (snd (checkSignature lookup refetch pss kid msg sig ks))" for kid msg sig
    using refetch_trusted assms by (simp add: checkSignature_source)
  then show ?thesis using assms
    by (auto simp: Verify_def split: list.splits sum.splits prod.splits) (metis snd_conv)+
qed

lemma accepted_key:
  assumes "trusted ks" "fst (Verify lookup refetch pss cfg now token ks) = Inr c"
  obtains h p s htext head sig key where "token = h @ ''.'' @ p @ ''.'' @ s" "decodeSegment h = Inr htext" "decode_header htext = Inr head"
    "h_Algorithm head = ''PS256''" "decodeSegment s = Inr sig" "pss key (h @ ''.'' @ p) sig"
    "acceptable (snd (Verify lookup refetch pss cfg now token ks)) key"
    "lookup (snd (Verify lookup refetch pss cfg now token ks)) (h_KeyID head) = Some key"
    "verify_payload cfg now head p = Inr c"
proof -
  from assms(2)[unfolded Verify_Inr] obtain h p s htext head sig where t:
    "token = h @ ''.'' @ p @ ''.'' @ s" "CHR ''.'' \<notin> set (h @ p @ s)"
    "decodeSegment h = Inr htext" "decode_header htext = Inr head" "check_header cfg head = Inr ()" "decodeSegment s = Inr sig"
    "fst (checkSignature lookup refetch pss (h_KeyID head) (h @ ''.'' @ p) sig ks) = Inr ()" "verify_payload cfg now head p = Inr c"
    by (elim exE conjE) (rule that)
  have seg: "split_on (CHR ''.'') token = [h, p, s]" unfolding three_segments using t(1,2) by simp
  let ?ks = "snd (checkSignature lookup refetch pss (h_KeyID head) (h @ ''.'' @ p) sig ks)"
  have after: "snd (Verify lookup refetch pss cfg now token ks) = ?ks"
    unfolding Verify_def seg using t by (auto split: prod.splits sum.splits)
  from t(7) obtain key where key: "key_for lookup refetch ks (h_KeyID head) key" "pss key (h @ ''.'' @ p) sig"
    unfolding checkSignature_Inr by (elim exE conjE) (rule that)
  then have l: "lookup ?ks (h_KeyID head) = Some key" by (auto simp: key_for_def checkSignature_source)
  have "acceptable ?ks key"
    using lookup_acceptable[OF verify_trusted[OF assms(1), of pss cfg now token, unfolded after] l] .
  moreover have "h_Algorithm head = ''PS256''" using t(5) by (simp add: check_header_Inr)
  ultimately show ?thesis using that[OF t(1,3,4) _ t(6) key(2), unfolded after] l t(8) by blast
qed

end

interpretation jwks_source: key_source Key "Refetch now now2 answer" "\<lambda>st. strong_keys (jw_keys st)" "\<lambda>_ key. strong_key key" for now now2 answer
proof
  fix st :: jwks
  assume "strong_keys (jw_keys st)"
  then show "strong_keys (jw_keys (snd (Refetch now now2 answer st)))"
    using fetch_strong[of answer]
    by (cases "fetch answer") (auto simp: Refetch_def reserve_fetch_def install_keys_def)
next
  fix st kid key
  assume "strong_keys (jw_keys st)" "Key st kid = Some key"
  then show "strong_key key" by (auto simp: strong_keys_def Key_def dest: map_of_SomeD)
qed

interpretation static_source: key_source static_Key static_Refetch "\<lambda>s. s = keys" "\<lambda>_ key. key \<in> ran keys" for keys
  by unfold_locales (auto simp: static_Key_def static_Refetch_def ran_def)

section \<open>A verifier over the issuer's published keys\<close>

lemma sint_neg: "- (2 ^ 63) < sint w \<Longrightarrow> sint (- w) = - sint (w :: 64 word)"
proof -
  assume "- (2 ^ 63) < sint w"
  then have "sint (word_of_int (- sint w) :: 64 word) = - sint w" using sint_lt[of w] by (intro sint_word_of_int_small) auto
  then show ?thesis by simp
qed

lemma div_seconds: "t < k * 1000000000 \<Longrightarrow> t div 1000000000 < (k :: int)"
  using div_mult_mod_eq[of t 1000000000] pos_mod_sign[of 1000000000 t] by linarith

lemma time_Add_exact: "- (2 ^ 63) * 1000000000 \<le> t + d \<Longrightarrow> t + d < 2 ^ 63 * 1000000000 \<Longrightarrow> time_Add t d = t + d"
proof -
  assume b: "- (2 ^ 63) * 1000000000 \<le> t + d" "t + d < 2 ^ 63 * 1000000000"
  have "- (2 ^ 63) \<le> (t + d) div 1000000000" using zdiv_mono1[OF b(1), of 1000000000] by simp
  moreover have "(t + d) div 1000000000 < 2 ^ 63" using b(2) by (rule div_seconds)
  ultimately show ?thesis using div_mult_mod_eq[of "t + d" 1000000000] by (simp add: time_Add_def Let_def)
qed

lemma time_Add_later: "- (2 ^ 63) * 1000000000 \<le> t \<Longrightarrow> 0 \<le> d \<Longrightarrow> time_Add t d \<le> t + d"
  using div_mult_mod_eq[of "t + d" 1000000000] by (auto simp: time_Add_def Let_def)

lemma time_Add_earlier: "t < 2 ^ 63 * 1000000000 \<Longrightarrow> d \<le> 0 \<Longrightarrow> t + d \<le> time_Add t d"
  using div_mult_mod_eq[of "t + d" 1000000000] by (auto simp: time_Add_def Let_def)

text \<open>The time of a second since 1970, unbounded; \<^const>\<open>time_Unix\<close> is it up to the wrap at the year 292277026596.\<close>

definition unix_ns :: "int \<Rightarrow> time" where
  "unix_ns sec = (sec + 62135596800) * 1000000000"

lemma time_Unix_exact: "- (2 ^ 63) \<le> sec \<Longrightarrow> sec < 2 ^ 63 - 62135596800 \<Longrightarrow> time_Unix sec = unix_ns sec"
  unfolding time_Unix_def unix_ns_def by (subst sint_word_of_int_small) auto

lemma time_Unix_le:
  assumes "- (2 ^ 63) \<le> sec"
  shows "time_Unix sec \<le> unix_ns sec"
proof (cases "sec < 2 ^ 63 - 62135596800")
  case True
  then show ?thesis using time_Unix_exact[OF assms] by simp
next
  case False
  then show ?thesis using sint_lt[of "word_of_int (sec + 62135596800) :: 64 word"] by (simp add: time_Unix_def unix_ns_def)
qed

lemma time_Unix_range: "- (2 ^ 63) * 1000000000 \<le> time_Unix sec \<and> time_Unix sec < 2 ^ 63 * 1000000000"
  using sint_ge[of "word_of_int (sec + 62135596800) :: 64 word"] sint_lt[of "word_of_int (sec + 62135596800) :: 64 word"]
  by (simp add: time_Unix_def)

text \<open>The seconds a payload carries are 64-bit integers.\<close>

definition int64_option :: "int option \<Rightarrow> bool" where
  "int64_option n \<longleftrightarrow> (case n of None \<Rightarrow> True | Some i \<Rightarrow> - (2 ^ 63) \<le> i \<and> i < 2 ^ 63)"

lemma decode_int64_ptr_range: "decode_int64_ptr v = Inr n \<Longrightarrow> int64_option n"
  by (cases v) (auto simp: decode_int64_ptr_def decode_int64_def int64_option_def atoi_def Let_def split: option.splits if_splits)

lemma set_registered_range:
  assumes "set_registered f v w = Inr w'" "int64_option (g_ExpiresAt w)" "int64_option (g_IssuedAt w)" "int64_option (g_NotBefore w)"
  shows "int64_option (g_ExpiresAt w') \<and> int64_option (g_IssuedAt w') \<and> int64_option (g_NotBefore w')"
  using assms decode_int64_ptr_range[of v]
  by (cases "decode_int64_ptr v"; cases "decode_string v (g_Issuer w)"; cases "decode_string v (g_Subject w)")
    (auto simp: set_registered_def split: if_splits)

lemma decode_members_range:
  "decode_members set_registered fs ms w = Inr g \<Longrightarrow> int64_option (g_ExpiresAt w) \<Longrightarrow> int64_option (g_IssuedAt w) \<Longrightarrow> int64_option (g_NotBefore w) \<Longrightarrow>
     int64_option (g_ExpiresAt g) \<and> int64_option (g_IssuedAt g) \<and> int64_option (g_NotBefore g)"
proof (induction ms arbitrary: w)
  case (Cons m ms)
  obtain k v where m: "m = (k, v)" by (cases m)
  show ?case
  proof (cases "match_field fs k")
    case (Some f)
    with Cons.prems(1) m obtain w' where "set_registered f v w = Inr w'" "decode_members set_registered fs ms w' = Inr g" by auto
    with Cons set_registered_range show ?thesis by blast
  qed (use Cons m in auto)
qed auto

lemma decode_registered_range:
  "decode_registered j = Inr g \<Longrightarrow> int64_option (g_ExpiresAt g) \<and> int64_option (g_IssuedAt g) \<and> int64_option (g_NotBefore g)"
  unfolding decode_registered_def decode_struct_def
  by (cases j) (auto simp: int64_option_def dest!: decode_members_range)

lemma decodeClaims_Inr:
  assumes "decodeClaims body = Inr c0"
  obtains j g where "parse_json body = Some j" "decode_registered j = Inr g" "Issuer c0 = g_Issuer g" "ExpiresAt c0 = unix_or_zero (g_ExpiresAt g)"
    "IssuedAt c0 = unix_or_zero (g_IssuedAt g)" "NotBefore c0 = unix_or_zero (g_NotBefore g)"
  using assms by (auto simp: decodeClaims_def split: option.splits sum.splits)

lemma New_verifier_Inr:
  assumes "New_verifier keys_nil cfg0 = Inr cfg"
  shows "v_Issuer cfg = v_Issuer cfg0" "v_Audience cfg = v_Audience cfg0" "trim_space (v_Issuer cfg) \<noteq> ''''"
    "0 < sint (v_MaxSkew cfg)" "sint (v_MaxSkew cfg) \<le> 60000000000" "\<exists>require. v_Requirement cfg = Some require"
  using assms by (auto simp: New_verifier_def Let_def validate_def applyDefaults_def maxSkewCeiling_def split: if_splits)

lemma expiry_bound:
  assumes "e \<noteq> 0" "now \<le> time_Add e skew" "e = unix_or_zero n" "int64_option n" "0 \<le> skew"
  obtains exp where "n = Some exp" "now \<le> unix_ns exp + skew"
proof -
  obtain exp where exp: "n = Some exp" using assms(1,3) by (cases n) (auto simp: unix_or_zero_def)
  then have e: "e = time_Unix exp" "- (2 ^ 63) \<le> exp" using assms(3,4) by (simp_all add: unix_or_zero_def int64_option_def)
  then have "now \<le> time_Unix exp + skew" using order_trans[OF assms(2)[unfolded e(1)] time_Add_later] time_Unix_range assms(5) by blast
  then show thesis using that[OF exp] time_Unix_le[OF e(2)] by linarith
qed

lemma not_before_bound:
  assumes "e = 0 \<or> time_Add e (- skew) \<le> now" "e = unix_or_zero (Some n)" "int64_option (Some n)" "n < 2 ^ 63 - 62135596800" "0 \<le> skew" "0 \<le> now"
  shows "unix_ns n \<le> now + skew"
proof -
  have e: "e = unix_ns n" using time_Unix_exact[of n] assms(2-4) by (simp add: unix_or_zero_def int64_option_def)
  have "e < 2 ^ 63 * 1000000000" using time_Unix_range[of n] assms(2) by (simp add: unix_or_zero_def)
  then show ?thesis using assms(1,5,6) time_Add_earlier[of e "- skew"] unfolding e by auto
qed

text \<open>
  C8: A verifier built by New over the issuer's published keys is safe whatever happened to the key cache before: after any interleaving of reloads, with
  any answers of the endpoint, a token it accepts names PS256 and a key identifier under which the cache holds a key of at least 3072 bits, its last segment is a signature over its
  first two segments as they were sent that verifies under that key (the decoder of a segment skips line ends), and its payload names exactly the configured issuer, an audience that contains this resource, and an
  expiry that is past by no more than 60 seconds. The seconds of its \<^verbatim>\<open>iat\<close> and \<^verbatim>\<open>nbf\<close>, when it has them, are at most 60 seconds in the future, unless
  they are \<^verbatim>\<open>2^63 - 62135596800\<close> or more: \<^verbatim>\<open>time.Unix\<close> wraps such a second into the distant past, and the verifier does not enforce it.
\<close>

theorem accepted_tokens_are_issued:
  assumes "New_verifier False cfg0 = Inr cfg" "NewJWKS jcfg = Inr st0" "run_cache ops st0 = (starts, st)"
    "Verify Key (Refetch t1 t2 answer) pss cfg now token st = (Inr c, st')" "0 \<le> now"
  shows "\<exists>h p s htext head sig key body j g exp. token = h @ ''.'' @ p @ ''.'' @ s
     \<and> decodeSegment h = Inr htext \<and> decode_header htext = Inr head \<and> h_Algorithm head = ''PS256''
     \<and> decodeSegment s = Inr sig \<and> pss key (h @ ''.'' @ p) sig
     \<and> Key st' (h_KeyID head) = Some key \<and> 2 ^ 3071 \<le> Modulus key \<and> odd (Exponent key) \<and> 3 \<le> Exponent key
     \<and> decodeSegment p = Inr body \<and> parse_json body = Some j \<and> decode_registered j = Inr g
     \<and> g_Issuer g = v_Issuer cfg0 \<and> Issuer c = g_Issuer g \<and> v_Audience cfg0 \<in> set (Audience c)
     \<and> g_ExpiresAt g = Some exp \<and> now \<le> unix_ns exp + 60000000000
     \<and> (\<forall>iat. g_IssuedAt g = Some iat \<and> iat < 2 ^ 63 - 62135596800 \<longrightarrow> unix_ns iat \<le> now + 60000000000)
     \<and> (\<forall>nbf. g_NotBefore g = Some nbf \<and> nbf < 2 ^ 63 - 62135596800 \<longrightarrow> unix_ns nbf \<le> now + 60000000000)"
proof -
  have "strong_keys (jw_keys st0)" using assms(2) by (auto simp: NewJWKS_def Let_def strong_keys_def split: if_splits)
  then have s: "strong_keys (jw_keys st)" using run_cache_strong[OF assms(3)] by simp
  have a: "fst (Verify Key (Refetch t1 t2 answer) pss cfg now token st) = Inr c" using assms(4) by simp
  obtain h p s htext head sig key where k: "token = h @ ''.'' @ p @ ''.'' @ s" "decodeSegment h = Inr htext" "decode_header htext = Inr head"
    "h_Algorithm head = ''PS256''" "decodeSegment s = Inr sig" "pss key (h @ ''.'' @ p) sig" "strong_key key" "Key st' (h_KeyID head) = Some key"
    "verify_payload cfg now head p = Inr c"
    by (rule jwks_source.accepted_key[OF s a, unfolded assms(4) snd_conv])
  have key: "2 ^ 3071 \<le> Modulus key" "odd (Exponent key)" "3 \<le> Exponent key" using k(7) unfolding strong_key_def minRSABits_def by simp_all
  from k(9)[unfolded verify_payload_Inr checkRegistered_Inr] obtain body c0 where c0: "decodeSegment p = Inr body" "decodeClaims body = Inr c0"
    "c = c0\<lparr>headerType := h_Type head\<rparr>" "Issuer c = v_Issuer cfg" "v_Audience cfg \<in> set (Audience c)" "in_time cfg now c"
    by (elim exE conjE) (rule that)
  obtain j g where g: "parse_json body = Some j" "decode_registered j = Inr g" "Issuer c0 = g_Issuer g" "ExpiresAt c0 = unix_or_zero (g_ExpiresAt g)"
    "IssuedAt c0 = unix_or_zero (g_IssuedAt g)" "NotBefore c0 = unix_or_zero (g_NotBefore g)" using c0(2) by (rule decodeClaims_Inr)
  note cfg = New_verifier_Inr[OF assms(1)] and range = decode_registered_range[OF g(2)]
  have n: "sint (- v_MaxSkew cfg) = - sint (v_MaxSkew cfg)" using cfg(4) by (intro sint_neg) simp
  have ti: "ExpiresAt c0 \<noteq> 0" "now \<le> time_Add (ExpiresAt c0) (sint (v_MaxSkew cfg))"
    "IssuedAt c0 = 0 \<or> time_Add (IssuedAt c0) (- sint (v_MaxSkew cfg)) \<le> now" "NotBefore c0 = 0 \<or> time_Add (NotBefore c0) (- sint (v_MaxSkew cfg)) \<le> now"
    using c0(6) by (simp_all add: in_time_def c0(3) n)
  obtain exp where exp: "g_ExpiresAt g = Some exp" "now \<le> unix_ns exp + sint (v_MaxSkew cfg)"
    by (rule expiry_bound[OF ti(1,2) g(4)]) (use range cfg(4) in simp_all)
  have iat: "\<forall>iat. g_IssuedAt g = Some iat \<and> iat < 2 ^ 63 - 62135596800 \<longrightarrow> unix_ns iat \<le> now + 60000000000"
    using not_before_bound[OF ti(3)] g(5) range cfg(4,5) assms(5) by force
  have nbf: "\<forall>nbf. g_NotBefore g = Some nbf \<and> nbf < 2 ^ 63 - 62135596800 \<longrightarrow> unix_ns nbf \<le> now + 60000000000"
    using not_before_bound[OF ti(4)] g(6) range cfg(4,5) assms(5) by force
  have c: "g_Issuer g = v_Issuer cfg0" "Issuer c = g_Issuer g" "v_Audience cfg0 \<in> set (Audience c)" using c0(3-5) g(3) cfg(1,2) by simp_all
  have "now \<le> unix_ns exp + 60000000000" using exp(2) cfg(5) by linarith
  note facts = k(1-6,8) key c0(1) g(1,2) c exp(1) this iat nbf
  show ?thesis by (intro exI conjI) (rule facts)+
qed

text \<open>A key set with one key, as an issuer publishes it.\<close>

definition sample_modulus :: string where
  "sample_modulus = CHR 0x80 # replicate 383 (CHR 0x00)"

definition sample_key_set :: json where
  "sample_key_set = JObj [(''keys'', JArr [JObj [(''kty'', JStr ''RSA''), (''kid'', JStr ''k1''), (''n'', JStr (raw_url_encode sample_modulus)), (''e'', JStr ''AQAB'')]])]"

definition sample_rsa :: rsa_key where
  "sample_rsa = \<lparr>Modulus = 2 ^ 3071, Exponent = 65537\<rparr>"

lemma foldl_zeros: "foldl (\<lambda>n c. n * 256 + of_char c) a (replicate k (CHR 0x00)) = (a :: nat) * 256 ^ k"
  by (induction k arbitrary: a) simp_all

lemma sample_modulus_value: "big_value sample_modulus = 2 ^ 3071"
proof -
  have "(2 :: nat) ^ 3071 = 2 ^ 7 * (2 ^ 8) ^ 383" by (simp only: power_mult[symmetric] power_add[symmetric]) simp
  then show ?thesis by (simp add: big_value_def sample_modulus_def foldl_zeros)
qed

lemma sample_parse: "parseRSAKey (raw_url_encode sample_modulus) ''AQAB'' = Inr sample_rsa"
proof -
  have "encode_values bs \<noteq> []" if "bs \<noteq> []" for bs using that by (cases bs rule: encode_values.cases) auto
  then have m: "raw_url_encode sample_modulus \<noteq> ''''" by (auto simp: raw_url_encode_def sample_modulus_def)
  have "last (raw_url_encode sample_modulus) \<noteq> CHR ''=''" using encoded_plain[of "last (raw_url_encode sample_modulus)" sample_modulus] m by auto
  then have t: "trim_right_eq (raw_url_encode sample_modulus) = raw_url_encode sample_modulus"
    using m by (cases "raw_url_encode sample_modulus" rule: rev_cases) (auto simp: trim_right_eq_def)
  have e: "raw_url_decode (trim_right_eq ''AQAB'') = Some [CHR 0x01, CHR 0x00, CHR 0x01]" by code_simp
  have v: "big_value [CHR 0x01, CHR 0x00, CHR 0x01] = 65537" by (simp add: big_value_def)
  have "int64_of 65537 = 65537" by (simp add: int64_of_def)
  then show ?thesis
    using m by (simp add: parseRSAKey_def t raw_url_roundtrip e v sample_modulus_value short_modulus_def minRSABits_def sample_rsa_def)
qed

lemma quote_plain:
  "list_all (\<lambda>c. 0x20 \<le> (of_char c :: nat) \<and> (of_char c :: nat) < 0x80 \<and> c \<notin> set ''<>&'' \<and> c \<noteq> CHR 0x22 \<and> c \<noteq> CHR 0x5C) s \<Longrightarrow> quote_body s = s"
proof (induction s)
  case Nil
  then show ?case by (subst quote_body.simps) simp
next
  case (Cons c s)
  then have "quote_byte c = [c]" "rune_len (c # s) = 1" by (auto simp: quote_byte_def in_byte_def Let_def)
  moreover have "quote_rune [c] = quote_byte c" by (simp add: quote_rune_def)
  ultimately show ?case using Cons by (subst quote_body.simps) (simp add: Let_def)
qed

lemma url_char_range: "v < 64 \<Longrightarrow> 45 \<le> (of_char (url_char v) :: nat) \<and> (of_char (url_char v) :: nat) < 128 \<and> url_char v \<notin> set ''<>&'' \<and> url_char v \<noteq> CHR 0x5C"
  using url_value_char[of v] by (auto simp: url_value_def Let_def split: if_splits)

lemma encoded_text:
  "valid_utf8 (raw_url_encode s)" "quote_body (raw_url_encode s) = raw_url_encode s" "length (raw_url_encode s) \<le> 2 * length s"
proof -
  have r: "\<forall>v \<in> set (encode_values (map of_char s)). v < 64" by (rule encode_values_range) auto
  then show "valid_utf8 (raw_url_encode s)"
    unfolding valid_utf8_def raw_url_encode_def using url_char_range by (intro ascii_valid) (auto simp: list_all_iff is_ascii_def)
  show "quote_body (raw_url_encode s) = raw_url_encode s"
    unfolding raw_url_encode_def using r url_char_range by (intro quote_plain) (fastforce simp: list_all_iff)
  have "length (encode_values bs) \<le> 2 * length bs" for bs by (induction bs rule: encode_values.induct) auto
  then show "length (raw_url_encode s) \<le> 2 * length s" by (metis raw_url_encode_def length_map)
qed

lemma sample_fetch: "fetch (Answer 200 (write_json sample_key_set)) = Inr [(''k1'', sample_rsa)]"
proof -
  have u: "valid_utf8 ''keys''" "valid_utf8 ''kty''" "valid_utf8 ''RSA''" "valid_utf8 ''kid''" "valid_utf8 ''k1''" "valid_utf8 ''n''" "valid_utf8 ''e''" "valid_utf8 ''AQAB''"
    by code_simp+
  have q: "quote_body ''keys'' = ''keys''" "quote_body ''kty'' = ''kty''" "quote_body ''RSA'' = ''RSA''" "quote_body ''kid'' = ''kid''" "quote_body ''k1'' = ''k1''"
    "quote_body ''n'' = ''n''" "quote_body ''e'' = ''e''" "quote_body ''AQAB'' = ''AQAB''"
    by code_simp+
  have p: "parse_json (write_json sample_key_set) = Some sample_key_set"
    by (rule parse_write) (simp add: sample_key_set_def u encoded_text maxNestingDepth_def)
  have "length (write_json sample_key_set) \<le> maxJWKSBytes"
    using encoded_text(3)[of sample_modulus] by (simp add: sample_key_set_def quote_def q encoded_text maxJWKSBytes_def sample_modulus_def)
  moreover have "decode_key_set sample_key_set = Inr [\<lparr>j_KeyType = ''RSA'', j_KeyID = ''k1'', j_Use = '''', j_Algorithm = '''',
      j_Modulus = raw_url_encode sample_modulus, j_Exponent = ''AQAB''\<rparr>]"
    unfolding sample_key_set_def by (simp add: decode_key_set_def decode_struct_def set_document_def match_field_def set_entry_def zero_entry_def decode_string_def)
  ultimately show ?thesis
    by (simp add: fetch_def p add_entry_def usable_entry_def sample_parse put_key_def)
qed

theorem accepted_tokens_are_issued_witness:
  "\<exists>st0 st. NewJWKS sample_cache = Inr st0 \<and> New_verifier False sample_verifier = Inr sample_verifier
     \<and> run_cache [Reserve 5 5, Install (Answer 200 (write_json sample_key_set))] st0 = ([5], st)
     \<and> fst (Verify Key (Refetch 6 6 Unreachable) sample_pss sample_verifier sample_now sample_token st) = Inr sample_claims
     \<and> Issuer sample_claims = ''https://issuer''"
proof -
  have "trim_space (c_URL (Jwks.applyDefaults sample_cache)) \<noteq> ''''" by code_simp
  then obtain st0 where st0: "NewJWKS sample_cache = Inr st0" "st0 = \<lparr>jw_cfg = Jwks.applyDefaults sample_cache, jw_keys = [], jw_lastFetched = 0\<rparr>"
    by (simp add: NewJWKS_def Let_def)
  let ?ops = "[Reserve 5 5, Install (Answer 200 (write_json sample_key_set))]"
  let ?st = "st0\<lparr>jw_lastFetched := 5, jw_keys := [(''k1'', sample_rsa)]\<rparr>"
  have r: "run_cache ?ops st0 = ([5], ?st)" by (simp add: st0(2) reserve_fetch_def install_keys_def sample_fetch)
  have "validate False (applyDefaults sample_verifier) = Inr ()" by code_simp
  moreover have "applyDefaults sample_verifier = sample_verifier" by (simp add: applyDefaults_def sample_verifier_def)
  ultimately have n: "New_verifier False sample_verifier = Inr sample_verifier" by (simp add: New_verifier_def)
  have c: "check_header sample_verifier sample_head = Inr ()" "checkRegistered sample_verifier sample_now sample_claims = Inr ()" by code_simp+
  have "verify_payload sample_verifier sample_now sample_head (raw_url_encode (write_json sample_payload)) = Inr sample_claims"
    unfolding verify_payload_Inr using c(2) sample_decoded(2) sample_checks(3)
    by (intro exI[of _ "write_json sample_payload"] exI[of _ "sample_claims\<lparr>headerType := ''''\<rparr>"] exI[of _ "the (v_Requirement sample_verifier)"])
      (simp, simp add: sample_claims_def sample_head_def sample_verifier_def)
  moreover have "Key ?st (h_KeyID sample_head) = Some sample_rsa" by (simp add: Key_def sample_head_def)
  moreover have "sample_pss sample_rsa (raw_url_encode (write_json sample_header) @ ''.'' @ raw_url_encode (write_json sample_payload)) ''signature''"
    by (simp add: sample_pss_def sample_rsa_def)
  ultimately have v: "Verify Key (Refetch 6 6 Unreachable) sample_pss sample_verifier sample_now sample_token ?st = (Inr sample_claims, ?st)"
    unfolding sample_token_def by (subst Verify_compact[OF sample_decoded(1) c(1)]) auto
  have "(0 :: int) \<le> sample_now" by (simp add: sample_now_def)
  from accepted_tokens_are_issued[OF n st0(1) r v this] have "Issuer sample_claims = v_Issuer sample_verifier" by metis
  then have "Issuer sample_claims = ''https://issuer''" by (simp add: sample_verifier_def)
  with st0(1) n r v show ?thesis by (intro exI[of _ st0] exI[of _ ?st]) simp
qed

section \<open>Issued tokens are accepted\<close>

text \<open>A token as an issuer makes it: the header and the claims printed as JSON, with further claims of the issuer's own.\<close>

definition issued_header :: "string \<Rightarrow> string \<Rightarrow> json" where
  "issued_header kid typ = JObj [(''alg'', JStr ''PS256''), (''kid'', JStr kid), (''typ'', JStr typ)]"

definition time_member :: "string \<Rightarrow> int option \<Rightarrow> (string \<times> json) list" where
  "time_member name n = (case n of None \<Rightarrow> [] | Some sec \<Rightarrow> [(name, JNum (show_int sec))])"

definition issued_members ::
  "string \<Rightarrow> string \<Rightarrow> json \<Rightarrow> int \<Rightarrow> int option \<Rightarrow> int option \<Rightarrow> (string \<times> json) list \<Rightarrow> (string \<times> json) list" where
  "issued_members iss sub aud expiry iat nbf extra =
     [(''iss'', JStr iss), (''sub'', JStr sub), (''aud'', aud), (''exp'', JNum (show_int expiry))]
       @ time_member ''iat'' iat @ time_member ''nbf'' nbf @ extra"

definition registered_names :: "string list" where
  "registered_names = [''iss'', ''sub'', ''exp'', ''iat'', ''nbf'']"

text \<open>A second of the current era, for which no conversion wraps or saturates.\<close>

definition era_second :: "int \<Rightarrow> bool" where
  "era_second n \<longleftrightarrow> 0 \<le> n \<and> n < 2 ^ 62"

lemma decode_members_skip:
  "\<forall>m \<in> set ms. match_field fs (fst m) = None \<Longrightarrow> decode_members f fs ms w = Inr w"
  by (induction ms) auto

lemma set_registered_names:
  "set_registered ''iss'' (JStr s) w = Inr (w\<lparr>g_Issuer := s\<rparr>)"
  "set_registered ''sub'' (JStr s) w = Inr (w\<lparr>g_Subject := s\<rparr>)"
  "era_second n \<Longrightarrow> set_registered ''exp'' (JNum (show_int n)) w = Inr (w\<lparr>g_ExpiresAt := Some n\<rparr>)"
  "era_second n \<Longrightarrow> set_registered ''iat'' (JNum (show_int n)) w = Inr (w\<lparr>g_IssuedAt := Some n\<rparr>)"
  "era_second n \<Longrightarrow> set_registered ''nbf'' (JNum (show_int n)) w = Inr (w\<lparr>g_NotBefore := Some n\<rparr>)"
  by (simp_all add: set_registered_def decode_string_def decode_int64_ptr_def era_second_def)

lemma match_registered:
  "k \<in> set registered_names \<Longrightarrow> match_field registered_names k = Some k" "match_field registered_names ''aud'' = None"
  by (simp add: match_field_def) code_simp

lemma issued_registered:
  assumes "\<forall>m \<in> set extra. match_field registered_names (fst m) = None" "era_second expiry" "pred_option era_second iat" "pred_option era_second nbf"
  shows "decode_registered (JObj (issued_members iss sub aud expiry iat nbf extra))
    = Inr \<lparr>g_Issuer = iss, g_Subject = sub, g_ExpiresAt = Some expiry, g_IssuedAt = iat, g_NotBefore = nbf\<rparr>"
proof -
  have e: "decode_members set_registered registered_names extra w = Inr w" for w by (rule decode_members_skip[OF assms(1)])
  have m: "match_field registered_names ''iss'' = Some ''iss''" "match_field registered_names ''sub'' = Some ''sub''"
    "match_field registered_names ''exp'' = Some ''exp''" "match_field registered_names ''iat'' = Some ''iat''"
    "match_field registered_names ''nbf'' = Some ''nbf''" by (simp_all add: match_registered(1) registered_names_def)
  have "decode_registered (JObj (issued_members iss sub aud expiry iat nbf extra)) = decode_members set_registered registered_names
      ([(''iss'', JStr iss), (''sub'', JStr sub), (''aud'', aud), (''exp'', JNum (show_int expiry))] @ time_member ''iat'' iat @ time_member ''nbf'' nbf @ extra)
      \<lparr>g_Issuer = '''', g_Subject = '''', g_ExpiresAt = None, g_IssuedAt = None, g_NotBefore = None\<rparr>"
    by (simp add: decode_registered_def issued_members_def decode_struct_def registered_names_def)
  also have "\<dots> = Inr \<lparr>g_Issuer = iss, g_Subject = sub, g_ExpiresAt = Some expiry, g_IssuedAt = iat, g_NotBefore = nbf\<rparr>"
    using assms(2-4)
    by (cases iat; cases nbf) (simp_all add: time_member_def e m match_registered(2) set_registered_names decode_members_append)
  finally show ?thesis .
qed

definition issued_claims ::
  "string \<Rightarrow> string \<Rightarrow> string list \<Rightarrow> int \<Rightarrow> int option \<Rightarrow> int option \<Rightarrow> (string \<times> json) list \<Rightarrow> string \<Rightarrow> claims" where
  "issued_claims iss sub auds expiry iat nbf members typ =
     \<lparr>Issuer = iss, Subject = sub, Audience = auds, ExpiresAt = unix_ns expiry, IssuedAt = (case iat of None \<Rightarrow> 0 | Some n \<Rightarrow> unix_ns n),
      NotBefore = (case nbf of None \<Rightarrow> 0 | Some n \<Rightarrow> unix_ns n), raw_claims = rev members, headerType = typ\<rparr>"

lemma decode_strings_all: "decode_strings (map JStr ss) = Inr ss"
  by (induction ss) (simp_all add: decode_string_def)

lemma issued_audience:
  assumes "aud = JArr (map JStr auds) \<or> (\<exists>a. auds = [a] \<and> aud = JStr a)" "\<forall>m \<in> set extra. fst m \<noteq> ''aud''"
  shows "decodeAudience (map_of (rev (issued_members iss sub aud expiry iat nbf extra)) ''aud'') = Inr auds"
proof -
  have "map_of (rev extra) ''aud'' = None" using assms(2) by (force simp: map_of_eq_None_iff)
  then have "map_of (rev (issued_members iss sub aud expiry iat nbf extra)) ''aud'' = Some aud"
    by (simp add: issued_members_def time_member_def map_add_def split: option.split)
  then show ?thesis using assms(1) by (auto simp: decodeAudience_def decode_string_def decode_strings_all)
qed

lemma era_unix: "era_second n \<Longrightarrow> time_Unix n = unix_ns n" "era_second n \<Longrightarrow> 0 < unix_ns n" "era_second n \<Longrightarrow> unix_ns n < (2 ^ 62 + 62135596800) * 1000000000"
  by (simp_all add: time_Unix_exact era_second_def) (simp_all add: unix_ns_def)

lemma issued_decoded:
  assumes "writable 0 (JObj (issued_members iss sub aud expiry iat nbf extra))"
    "aud = JArr (map JStr auds) \<or> (\<exists>a. auds = [a] \<and> aud = JStr a)"
    "\<forall>m \<in> set extra. match_field registered_names (fst m) = None \<and> fst m \<noteq> ''aud''"
    "era_second expiry" "pred_option era_second iat" "pred_option era_second nbf"
  shows "\<exists>c0. decodeClaims (write_json (JObj (issued_members iss sub aud expiry iat nbf extra))) = Inr c0
    \<and> c0\<lparr>headerType := typ\<rparr> = issued_claims iss sub auds expiry iat nbf (issued_members iss sub aud expiry iat nbf extra) typ"
proof -
  have u: "unix_or_zero (Some expiry) = unix_ns expiry" "unix_or_zero iat = (case iat of None \<Rightarrow> 0 | Some n \<Rightarrow> unix_ns n)"
    "unix_or_zero nbf = (case nbf of None \<Rightarrow> 0 | Some n \<Rightarrow> unix_ns n)"
    using assms(4-6) by (auto simp: unix_or_zero_def era_unix(1) split: option.split)
  show ?thesis
    unfolding decodeClaims_def parse_write[OF assms(1)]
    using issued_registered[of extra expiry iat nbf iss sub aud] issued_audience[OF assms(2), of extra iss sub expiry iat nbf] assms(3-6)
    by (simp add: decode_raw_map_def u issued_claims_def)
qed

lemma Verify_compact_any:
  assumes "decode_header h = Inr head" "check_header cfg head = Inr ()" "key_for lookup refetch ks (h_KeyID head) key"
    "pss key (raw_url_encode h @ ''.'' @ raw_url_encode p) s"
  shows "fst (Verify lookup refetch pss cfg now (compact h p s) ks) = verify_payload cfg now head (raw_url_encode p)"
proof -
  have "split_on (CHR ''.'') (compact h p s) = [raw_url_encode h, raw_url_encode p, raw_url_encode s]"
    unfolding three_segments compact_def by simp
  moreover have "fst (checkSignature lookup refetch pss (h_KeyID head) (raw_url_encode h @ ''.'' @ raw_url_encode p) s ks) = Inr ()"
    unfolding checkSignature_Inr using assms(3,4) by blast
  ultimately show ?thesis using assms(1,2) by (auto simp: Verify_def split: prod.split)
qed

lemma issued_header_decoded:
  assumes "valid_utf8 kid" "valid_utf8 typ"
  shows "decode_header (write_json (issued_header kid typ)) = Inr \<lparr>h_Algorithm = ''PS256'', h_KeyID = kid, h_Type = typ\<rparr>"
proof -
  have p: "parse_json (write_json (issued_header kid typ)) = Some (issued_header kid typ)"
    by (rule parse_write) (simp add: issued_header_def utf8_literals assms maxNestingDepth_def)
  show ?thesis
    unfolding decode_header_def p by (simp add: issued_header_def decode_struct_def match_field_def set_header_def decode_string_def)
qed



section \<open>More than one serialization\<close>

text \<open>
  The decoder of a segment skips line ends, so a token and the token with a line feed appended are two serializations of one signature, and
  the verifier answers both alike.
\<close>

lemma decodeSegment_line_feed: "decodeSegment (s @ [CHR 0x0A]) = decodeSegment s"
  by (auto simp: decodeSegment_def raw_url_decode_def Let_def)

lemma split_on_snoc: "x \<noteq> c \<Longrightarrow> split_on c (s @ [x]) = butlast (split_on c s) @ [last (split_on c s) @ [x]]"
proof (induction s)
  case (Cons y s)
  have "split_on c s \<noteq> []" by (cases s) (auto split: list.split)
  then obtain z zs where "split_on c s = z # zs" by (cases "split_on c s") auto
  with Cons show ?case by (cases zs) auto
qed simp

theorem line_feed_same_token:
  "Verify lookup refetch pss cfg now (token @ [CHR 0x0A]) ks = Verify lookup refetch pss cfg now token ks"
proof (cases "length (split_on (CHR ''.'') token) = 3")
  case True
  then obtain h p s where "split_on (CHR ''.'') token = [h, p, s]"
    by (auto simp: numeral_3_eq_3 length_Suc_conv)
  then have "split_on (CHR ''.'') (token @ [CHR 0x0A]) = [h, p, s @ [CHR 0x0A]]" by (simp add: split_on_snoc)
  with \<open>split_on (CHR ''.'') token = [h, p, s]\<close> show ?thesis unfolding Verify_def by (simp only: list.case decodeSegment_line_feed)
next
  case False
  have l: "length (split_on (CHR ''.'') (token @ [CHR 0x0A])) = length (split_on (CHR ''.'') token)"
    by (cases "split_on (CHR ''.'') token") (auto simp: split_on_snoc split: if_splits)
  have "Verify lookup refetch pss cfg now t ks = (Inl (Wrapf ''verify: segments'' [ErrMalformed]), ks)" if "length (split_on (CHR ''.'') t) \<noteq> 3" for t
    using that by (auto simp: Verify_def split: list.split)
  then show ?thesis using False l by simp
qed

end
