(* ===== verification/Observability.thy ===== *)
theory Observability
  imports Uuid Decimal Redact Dispatch
begin

text \<open>
  \<^verbatim>\<open>src/observability\<close>: the identifiers a context carries across a request, an event and its consumer, and the identity every signal
  carries. OpenTelemetry is outside the module: what its instruments and exporters return is an argument, and what the package hands to them is the
  result.
\<close>

section \<open>The context\<close>

text \<open>
  Of a \<^verbatim>\<open>context.Context\<close>: the values under the package's two keys and the deadline.
\<close>

record goctx =
  ctx_correlation :: "uuid option"
  ctx_causation :: "uuid option"
  ctx_deadline :: "time option"

definition background :: goctx where
  "background = \<lparr>ctx_correlation = None, ctx_causation = None, ctx_deadline = None\<rparr>"

definition WithCorrelationID :: "goctx \<Rightarrow> uuid \<Rightarrow> goctx" where
  "WithCorrelationID ctx u = (if IsNil u then ctx else ctx\<lparr>ctx_correlation := Some u\<rparr>)"

definition non_nil :: "uuid option \<Rightarrow> uuid option" where
  "non_nil v = (case v of None \<Rightarrow> None | Some u \<Rightarrow> if IsNil u then None else Some u)"

definition CorrelationID :: "goctx \<Rightarrow> uuid option" where
  "CorrelationID ctx = non_nil (ctx_correlation ctx)"

definition WithCausationID :: "goctx \<Rightarrow> uuid \<Rightarrow> goctx" where
  "WithCausationID ctx u = (if IsNil u then ctx else ctx\<lparr>ctx_causation := Some u\<rparr>)"

definition CausationID :: "goctx \<Rightarrow> uuid option" where
  "CausationID ctx = non_nil (ctx_causation ctx)"

text \<open>
  \<^verbatim>\<open>EnsureCorrelation\<close> on the generator of identifiers, the clock readings it may take and its random source. \<^term>\<open>None\<close>: it is
  still waiting for the clock.
\<close>

definition EnsureCorrelation ::
  "goctx \<Rightarrow> string \<Rightarrow> generator \<Rightarrow> 64 word list \<Rightarrow> byte list result
     \<Rightarrow> ((goctx \<times> uuid) result \<times> generator \<times> 64 word list) option" where
  "EnsureCorrelation ctx inbound g clock rnd =
     (case Parse (trim_space inbound) of
        Inr u \<Rightarrow> Some (Inr (WithCorrelationID ctx u, u), g, clock)
      | Inl _ \<Rightarrow>
          (case NewV7 g clock rnd of
             None \<Rightarrow> None
           | Some (g', Inl e, clock') \<Rightarrow> Some (Inl e, g', clock')
           | Some (g', Inr u, clock') \<Rightarrow> Some (Inr (WithCorrelationID ctx u, u), g', clock')))"

record metadata =
  md_CorrelationID :: uuid
  md_CausationID :: uuid

definition or_nil :: "uuid option \<Rightarrow> uuid" where
  "or_nil v = (case v of None \<Rightarrow> Nil_uuid | Some u \<Rightarrow> u)"

definition MetadataFromContext :: "goctx \<Rightarrow> metadata" where
  "MetadataFromContext ctx =
     (let correlationID = or_nil (CorrelationID ctx) in
      \<lparr>md_CorrelationID = correlationID,
       md_CausationID = (case CausationID ctx of Some u \<Rightarrow> u | None \<Rightarrow> correlationID)\<rparr>)"

definition ContextWithMetadata :: "goctx \<Rightarrow> metadata \<Rightarrow> goctx" where
  "ContextWithMetadata ctx md = WithCausationID (WithCorrelationID ctx (md_CorrelationID md)) (md_CausationID md)"

section \<open>Telemetry\<close>

record telemetry_config =
  tc_Deployable :: string
  tc_System :: string

record telemetry =
  t_deployable :: string
  t_system :: string
  t_handler :: handler
  t_logger :: "attr list"

text \<open>
  \<^verbatim>\<open>New\<close>: the meter is asked for four instruments in turn, and the logger is the configured one behind the redacting handler, with two
  attributes.
\<close>

fun first_error :: "(string \<Rightarrow> unit result) \<Rightarrow> string list \<Rightarrow> unit result" where
  "first_error mk [] = Inr ()"
| "first_error mk (n # ns) = bind_result (mk n) (\<lambda>_. first_error mk ns)"

definition New_telemetry :: "(string \<Rightarrow> unit result) \<Rightarrow> telemetry_config \<Rightarrow> telemetry result" where
  "New_telemetry instrument cfg =
     (let deployable = trim_space (tc_Deployable cfg); system = trim_space (tc_System cfg) in
      if deployable = '''' then Inl (New ''observability: deployable is required'')
      else if system = '''' then Inl (New ''observability: system is required'')
      else bind_result
        (first_error instrument [''http.server.requests'', ''http.server.duration'', ''http.server.shed_requests'', ''http.server.panics''])
        (\<lambda>_. let (attrs, h) = WithAttrs \<lparr>sensitiveGroup = False\<rparr> [(''deployable'', VString deployable), (''system'', VString system)] in
             Inr \<lparr>t_deployable = deployable, t_system = system, t_handler = h, t_logger = attrs\<rparr>))"

text \<open>What reaches the providers.\<close>

datatype signal =
    Counter string "(string \<times> string) list"
  | Histogram string duration "(string \<times> string) list"
  | Log string "attr list"
  | Span string "(string \<times> string) list" "string option" bool

definition identity_attributes :: "goctx \<Rightarrow> (string \<times> string) list" where
  "identity_attributes ctx =
     (case CorrelationID ctx of Some u \<Rightarrow> [(''correlation_id'', String u)] | None \<Rightarrow> [])
     @ (case CausationID ctx of Some u \<Rightarrow> [(''causation_id'', String u)] | None \<Rightarrow> [])"

definition attributes :: "telemetry \<Rightarrow> goctx \<Rightarrow> (string \<times> string) list" where
  "attributes t ctx = [(''deployable'', t_deployable t), (''system'', t_system t)] @ identity_attributes ctx"

text \<open>A logger is the attributes it carries, as the redacting handler passed them on.\<close>

definition Logger :: "telemetry \<Rightarrow> goctx \<Rightarrow> attr list" where
  "Logger t ctx = t_logger t @ concat (map (\<lambda>(k, s). fst (WithAttrs (t_handler t) [(k, VString s)])) (identity_attributes ctx))"

definition log_line :: "telemetry \<Rightarrow> goctx \<Rightarrow> string \<Rightarrow> attr list \<Rightarrow> signal" where
  "log_line t ctx msg as =
     (let r = Handle (t_handler t) \<lparr>log_message = msg, log_attrs = as\<rparr> in Log (log_message r) (Logger t ctx @ log_attrs r))"

text \<open>A span: its name, attributes, the span it links to, and whether it is a consumer's.\<close>

definition Start :: "telemetry \<Rightarrow> goctx \<Rightarrow> string \<Rightarrow> string option \<Rightarrow> bool \<Rightarrow> signal" where
  "Start t ctx name link consumer = Span name (attributes t ctx) link consumer"

definition StartConsumer :: "telemetry \<Rightarrow> goctx \<Rightarrow> string \<Rightarrow> string option \<Rightarrow> signal" where
  "StartConsumer t ctx name extracted = Start t ctx name extracted True"

definition RecordRequest :: "telemetry \<Rightarrow> goctx \<Rightarrow> string \<Rightarrow> int \<Rightarrow> duration \<Rightarrow> signal list" where
  "RecordRequest t ctx meth status d =
     (let attrs = attributes t ctx @ [(''http.request.method'', meth), (''http.response.status_code'', show_int status)] in
      [Counter ''http.server.requests'' attrs, Histogram ''http.server.duration'' d attrs])"

definition RecordShed :: "telemetry \<Rightarrow> goctx \<Rightarrow> signal list" where
  "RecordShed t ctx = [Counter ''http.server.shed_requests'' (attributes t ctx)]"

definition RecordPanic :: "telemetry \<Rightarrow> goctx \<Rightarrow> signal list" where
  "RecordPanic t ctx = [Counter ''http.server.panics'' (attributes t ctx)]"

section \<open>Exporting\<close>

record export_config =
  ec_Endpoint :: string
  ec_Deployable :: string
  ec_System :: string
  ec_Interval :: duration

text \<open>What \<^verbatim>\<open>url.Parse\<close> says of an address.\<close>

record url =
  u_Scheme :: string
  u_Host :: string
  u_String :: string

record exported =
  ex_metrics :: string
  ex_traces :: string
  ex_resource :: "(string \<times> string) list"
  ex_interval :: duration
  ex_shutdown :: "string list"

definition trim_suffix_slash :: "string \<Rightarrow> string" where
  "trim_suffix_slash s = (if s \<noteq> '''' \<and> last s = CHR ''/'' then butlast s else s)"

text \<open>
  \<^verbatim>\<open>Export\<close>, and which of the started providers it shut down again.
\<close>

definition Export ::
  "(string \<Rightarrow> url option) \<Rightarrow> (string \<Rightarrow> unit result) \<Rightarrow> (string \<Rightarrow> unit result) \<Rightarrow> export_config \<Rightarrow> exported result \<times> string list" where
  "Export url_parse metric_exporter trace_exporter cfg =
     (let endpoint = trim_suffix_slash (trim_space (ec_Endpoint cfg)) in
      if endpoint = '''' then (Inl (New ''observability: an OTLP endpoint is required to export''), [])
      else if (case url_parse endpoint of None \<Rightarrow> True
                 | Some u \<Rightarrow> (u_Scheme u \<noteq> ''http'' \<and> u_Scheme u \<noteq> ''https'') \<or> u_Host u = '''')
      then (Inl (New ''observability: not an http(s) OTLP endpoint''), [])
      else if trim_space (ec_Deployable cfg) = '''' \<or> trim_space (ec_System cfg) = ''''
      then (Inl (New ''observability: deployable and system are required''), [])
      else (case metric_exporter (endpoint @ ''/v1/metrics'') of
          Inl e \<Rightarrow> (Inl (Wrapf ''observability: metric exporter'' [e]), [])
        | Inr _ \<Rightarrow>
            (case trace_exporter (endpoint @ ''/v1/traces'') of
               Inl e \<Rightarrow> (Inl (Wrapf ''observability: trace exporter'' [e]), [''meters''])
             | Inr _ \<Rightarrow>
                 (Inr \<lparr>ex_metrics = endpoint @ ''/v1/metrics'', ex_traces = endpoint @ ''/v1/traces'',
                       ex_resource = [(''service.name'', ec_Deployable cfg), (''deployable'', ec_Deployable cfg), (''system'', ec_System cfg)],
                       ex_interval = (if sint (ec_Interval cfg) \<le> 0 then 30000000000 else ec_Interval cfg),
                       ex_shutdown = [''meters'', ''tracers'']\<rparr>, []))))"

text \<open>\<^verbatim>\<open>Exported.Shutdown\<close>: every provider is stopped, in order, and the errors are joined; \<open>errors.Join\<close> of no error is nil.\<close>

definition Shutdown_exported :: "(string \<Rightarrow> unit result) \<Rightarrow> exported \<Rightarrow> unit result \<times> string list" where
  "Shutdown_exported stop e =
     (let errs = List.map_filter (\<lambda>n. case stop n of Inl x \<Rightarrow> Some x | Inr _ \<Rightarrow> None) (ex_shutdown e) in
      (if errs = [] then Inr () else Inl (Wrapf '''' errs), ex_shutdown e))"

section \<open>Correlation end to end\<close>

lemma CorrelationID_With [simp]: "\<not> IsNil u \<Longrightarrow> CorrelationID (WithCorrelationID ctx u) = Some u"
  by (simp add: CorrelationID_def WithCorrelationID_def non_nil_def)

lemma CorrelationID_not_nil: "CorrelationID ctx = Some u \<Longrightarrow> \<not> IsNil u"
  by (auto simp: CorrelationID_def non_nil_def split: option.splits if_splits)

lemma version_not_nil: "Version u = 7 \<Longrightarrow> \<not> IsNil u"
  by (auto simp: Version_def IsNil_def Nil_uuid_def)

text \<open>
  C32: A request's correlation identifier is never empty and never a reflected malformed value, and it is not lost on the way: EnsureCorrelation keeps a valid
  inbound identifier and replaces anything else by a fresh UUIDv7, the context it returns carries exactly the identifier returned, and so does the context a consumer restores
  from the metadata of an event written under that context, whatever context the consumer had before; the causation is the recorded one or else the correlation itself.
\<close>

theorem correlation_end_to_end:
  assumes "EnsureCorrelation ctx inbound g clock (Inr bs) = Some (Inr (ctx', u), g', clock')"
    "wf_generator g" "clock48 clock" "length bs = 8"
  shows "\<not> IsNil u \<and> wf_uuid u \<and> CorrelationID ctx' = Some u
    \<and> (case Parse (trim_space inbound) of Inr v \<Rightarrow> u = v \<and> g' = g | Inl _ \<Rightarrow> Version u = 7 \<and> Variant u = 2)
    \<and> CorrelationID (ContextWithMetadata consumer (MetadataFromContext ctx')) = Some u
    \<and> CausationID (ContextWithMetadata consumer (MetadataFromContext ctx')) = Some (case CausationID ctx of Some c \<Rightarrow> c | None \<Rightarrow> u)"
proof -
  have u: "\<not> IsNil u \<and> wf_uuid u \<and> (case Parse (trim_space inbound) of Inr v \<Rightarrow> u = v \<and> g' = g | Inl _ \<Rightarrow> Version u = 7 \<and> Variant u = 2)
      \<and> ctx' = WithCorrelationID ctx u"
  proof (cases "Parse (trim_space inbound)")
    case (Inl e)
    then obtain "NewV7 g clock (Inr bs) = Some (g', Inr u, clock')" "ctx' = WithCorrelationID ctx u"
      using assms(1) by (auto simp: EnsureCorrelation_def split: option.splits sum.splits)
    with NewV7_Some[OF this(1) assms(2-4)] Inl show ?thesis by (auto simp: wf_uuid_def dest: version_not_nil)
  next
    case (Inr v)
    then show ?thesis using assms(1) Parse_InrD[OF Inr] by (auto simp: EnsureCorrelation_def wf_uuid_def)
  qed
  then have c: "CorrelationID ctx' = Some u" "CausationID ctx' = CausationID ctx"
    by (simp_all add: CausationID_def) (simp add: WithCorrelationID_def)
  have "CausationID ctx = Some c \<Longrightarrow> \<not> IsNil c" for c by (auto simp: CausationID_def non_nil_def split: option.splits if_splits)
  with u c show ?thesis
    by (auto simp: MetadataFromContext_def ContextWithMetadata_def or_nil_def WithCausationID_def Let_def CausationID_def[of "_\<lparr>ctx_causation := _\<rparr>"] non_nil_def
        CorrelationID_def[of "_\<lparr>ctx_causation := _\<rparr>"] WithCorrelationID_def split: option.split)
qed

definition sample_bytes :: "byte list" where "sample_bytes = replicate 8 0xAB"

theorem correlation_end_to_end_witness:
  "\<exists>ctx' u g'. EnsureCorrelation background ''not-an-id'' init_generator [5] (Inr sample_bytes) = Some (Inr (ctx', u), g', [])
     \<and> CorrelationID (ContextWithMetadata background (MetadataFromContext ctx')) = Some u \<and> Version u = 7"
proof -
  have p: "Parse (trim_space ''not-an-id'') = Inl ErrInvalid" by code_simp
  have n: "nextSequence init_generator [5] = Some (\<lparr>lastMS = 5, sequence = 0\<rparr>, 5, 0, [])" by (simp add: init_generator_def)
  obtain ctx' u g' where e: "EnsureCorrelation background ''not-an-id'' init_generator [5] (Inr sample_bytes) = Some (Inr (ctx', u), g', [])"
    unfolding EnsureCorrelation_def p NewV7_def n by simp
  have "wf_generator init_generator" "clock48 [5]" "length sample_bytes = 8"
    by (simp_all add: wf_generator_def init_generator_def clock48_def sample_bytes_def)
  from correlation_end_to_end[OF e this, of background] e p show ?thesis by auto
qed

section \<open>Identity of signals\<close>

definition carried :: "signal \<Rightarrow> (string \<times> string) list" where
  "carried s = (case s of Counter _ as \<Rightarrow> as | Histogram _ _ as \<Rightarrow> as | Span _ as _ _ \<Rightarrow> as | Log _ _ \<Rightarrow> [])"


text \<open>
  No signal is anonymous: every counter, histogram and span the telemetry of a deployable emits carries its deployable, its system and the correlation
  identifier of the context, and every log line carries them as the redaction of the log passed them on; a telemetry without either name is not built.
\<close>

theorem signals_carry_identity:
  assumes "New_telemetry instrument cfg = Inr t" "CorrelationID ctx = Some u"
  shows "trim_space (tc_Deployable cfg) \<noteq> '''' \<and> trim_space (tc_System cfg) \<noteq> ''''
    \<and> (\<forall>s \<in> set (RecordRequest t ctx meth status d @ RecordShed t ctx @ RecordPanic t ctx @ [Start t ctx name link k, StartConsumer t ctx name link]).
         {(''deployable'', trim_space (tc_Deployable cfg)), (''system'', trim_space (tc_System cfg)), (''correlation_id'', String u)} \<subseteq> set (carried s))
    \<and> (\<exists>m attrs. log_line t ctx msg as = Log m attrs
         \<and> {redactAttr ''deployable'' (VString (trim_space (tc_Deployable cfg))), redactAttr ''system'' (VString (trim_space (tc_System cfg))),
            redactAttr ''correlation_id'' (VString (String u))} \<subseteq> set attrs)"
proof -
  have t: "trim_space (tc_Deployable cfg) \<noteq> ''''" "trim_space (tc_System cfg) \<noteq> ''''" "t_deployable t = trim_space (tc_Deployable cfg)"
    "t_system t = trim_space (tc_System cfg)" "sensitiveGroup (t_handler t) = False"
    "t_logger t = [redactAttr ''deployable'' (VString (trim_space (tc_Deployable cfg))), redactAttr ''system'' (VString (trim_space (tc_System cfg)))]"
    using assms(1) by (auto simp: New_telemetry_def Let_def WithAttrs_def clean_attrs_def split: if_splits)
  show ?thesis
    using t assms(2)
    by (auto simp: RecordRequest_def RecordShed_def RecordPanic_def StartConsumer_def Start_def attributes_def identity_attributes_def carried_def Let_def
        log_line_def Logger_def WithAttrs_def clean_attrs_def)
qed

theorem signals_carry_identity_witness:
  "\<exists>t. New_telemetry (\<lambda>_. Inr ()) \<lparr>tc_Deployable = '' api '', tc_System = ''crm''\<rparr> = Inr t
     \<and> (''deployable'', ''api'') \<in> set (carried (hd (RecordShed t (background\<lparr>ctx_correlation := Some sample_bytes\<rparr>))))"
proof -
  let ?cfg = "\<lparr>tc_Deployable = '' api '', tc_System = ''crm''\<rparr>" and ?ctx = "background\<lparr>ctx_correlation := Some sample_bytes\<rparr>"
  have tr: "trim_space '' api '' = ''api''" "trim_space ''crm'' = ''crm''" by code_simp+
  then obtain t where t: "New_telemetry (\<lambda>_. Inr ()) ?cfg = Inr t" by (simp add: New_telemetry_def Let_def WithAttrs_def)
  have "CorrelationID ?ctx = Some sample_bytes" by (simp add: CorrelationID_def non_nil_def IsNil_def Nil_uuid_def sample_bytes_def)
  from signals_carry_identity[OF t this, of "''GET''" 200 1 "''s''" None False "''m''" "[]"] t tr show ?thesis by (auto simp: RecordShed_def)
qed

end
