(* ===== verification/Httpapi.thy ===== *)
theory Httpapi
  imports Observability JsonWrite Jwks
begin

text \<open>
  \<^verbatim>\<open>src/httpapi\<close>: the problem documents, the fixed middleware chain and the server. A handler is a function of the request and of the process; it
  answers with the calls it made on its response writer, in order, how it ended, the request as it left it (a handler holds a pointer to it) and the process. A
  middleware is a function on handlers, as in the source.
\<close>

section \<open>Requests, writers and handlers\<close>

record request =
  r_Method :: string
  r_Path :: string
  r_Header :: "string \<Rightarrow> string"
  r_ctx :: goctx

text \<open>
  The calls on a response writer. A handler that puts a key into the header map without its canonical form is not modelled; flushing is not a call the
  buffer of the chain offers.
\<close>

datatype write_op = HSet string string | HAdd string string | HDel string | WriteHeader int | Write string

datatype completion = Returns | Panics string | Waits

text \<open>
  The process: the generator of identifiers with the clock and random readings it has yet to take, the monotonic clock, the shedder's counter, the signals emitted, and
  whatever else the consumer's code has.
\<close>

record 'a world =
  w_generator :: generator
  w_ms :: "64 word list"
  w_random :: "nat \<Rightarrow> byte list result"
  w_draws :: nat
  w_clock :: "nat \<Rightarrow> time"
  w_ticks :: nat
  w_inFlight :: "64 word"
  w_signals :: "signal list"
  w_app :: 'a

record 'a outcome =
  o_ops :: "write_op list"
  o_end :: completion
  o_request :: request
  o_world :: "'a world"

type_synonym 'a http_handler = "request \<Rightarrow> 'a world \<Rightarrow> 'a outcome"
type_synonym 'a middleware = "'a http_handler \<Rightarrow> 'a http_handler"

definition emit :: "signal list \<Rightarrow> 'a world \<Rightarrow> 'a world" where
  "emit s w = w\<lparr>w_signals := w_signals w @ s\<rparr>"

definition read_clock :: "'a world \<Rightarrow> time \<times> 'a world" where
  "read_clock w = (w_clock w (w_ticks w), w\<lparr>w_ticks := Suc (w_ticks w)\<rparr>)"

definition CorrelationHeader :: string where "CorrelationHeader = ''X-Correlation-ID''"

section \<open>Headers\<close>

text \<open>\<^verbatim>\<open>textproto.CanonicalMIMEHeaderKey\<close>: a key with a byte that no token has is left as it is.\<close>

definition token_char :: "char \<Rightarrow> bool" where
  "token_char c \<longleftrightarrow> (let n = (of_char c :: nat) in 97 \<le> n \<and> n \<le> 122 \<or> 65 \<le> n \<and> n \<le> 90 \<or> 48 \<le> n \<and> n \<le> 57) \<or> c \<in> set ''!#$%&*+-.^_|~`'' \<or> c = CHR 0x27"

definition upper_char :: "char \<Rightarrow> char" where
  "upper_char c = (let n = (of_char c :: nat) in if 97 \<le> n \<and> n \<le> 122 then char_of (n - 32) else c)"

fun canonical_from :: "bool \<Rightarrow> string \<Rightarrow> string" where
  "canonical_from up [] = []"
| "canonical_from up (c # s) = (if up then upper_char c else lower_char c) # canonical_from (c = CHR ''-'') s"

definition canonical :: "string \<Rightarrow> string" where
  "canonical k = (if list_all token_char k then canonical_from True k else k)"

type_synonym headers = "(string \<times> string list) list"

definition header_set :: "string \<Rightarrow> string \<Rightarrow> headers \<Rightarrow> headers" where
  "header_set k v hs = filter (\<lambda>h. fst h \<noteq> canonical k) hs @ [(canonical k, [v])]"

definition header_del :: "string \<Rightarrow> headers \<Rightarrow> headers" where
  "header_del k hs = filter (\<lambda>h. fst h \<noteq> canonical k) hs"

definition header_add :: "string \<Rightarrow> string \<Rightarrow> headers \<Rightarrow> headers" where
  "header_add k v hs =
     (case map_of hs (canonical k) of
        None \<Rightarrow> hs @ [(canonical k, [v])]
      | Some vs \<Rightarrow> map (\<lambda>h. if fst h = canonical k then (fst h, vs @ [v]) else h) hs)"

section \<open>Problem documents\<close>

type_synonym problem_type = "8 word"

definition ValidationFailed :: problem_type where "ValidationFailed = 1"
definition AuthenticationRequired :: problem_type where "AuthenticationRequired = 2"
definition Forbidden :: problem_type where "Forbidden = 3"
definition NotFound :: problem_type where "NotFound = 4"
definition InvitationNotAcceptable :: problem_type where "InvitationNotAcceptable = 5"
definition VersionConflict :: problem_type where "VersionConflict = 6"
definition IdempotencyKeyConflict :: problem_type where "IdempotencyKeyConflict = 7"
definition StateTransitionRefused :: problem_type where "StateTransitionRefused = 8"
definition RequestInProgress :: problem_type where "RequestInProgress = 9"
definition PreconditionUnmet :: problem_type where "PreconditionUnmet = 10"
definition PayloadTooLarge :: problem_type where "PayloadTooLarge = 11"
definition RateLimited :: problem_type where "RateLimited = 12"
definition Overloaded :: problem_type where "Overloaded = 13"
definition DependencyUnavailable :: problem_type where "DependencyUnavailable = 14"
definition Internal :: problem_type where "Internal = 15"

record problemDefinition =
  pd_URI :: string
  pd_Title :: string
  pd_Status :: int

definition registered :: "string \<Rightarrow> string \<Rightarrow> int \<Rightarrow> problemDefinition" where
  "registered slug title status = \<lparr>pd_URI = ''https://problems.scnehaux.com/'' @ slug, pd_Title = title, pd_Status = status\<rparr>"

definition problemRegistry :: "(problem_type \<times> problemDefinition) list" where
  "problemRegistry =
     [(ValidationFailed, registered ''validation-failed'' ''The request is invalid'' 400),
      (AuthenticationRequired, registered ''authentication-required'' ''Authentication is required'' 401),
      (Forbidden, registered ''forbidden'' ''The operation is forbidden'' 403),
      (NotFound, registered ''not-found'' ''The requested resource was not found'' 404),
      (InvitationNotAcceptable, registered ''invitation-not-acceptable'' ''The invitation cannot be accepted'' 404),
      (VersionConflict, registered ''version-conflict'' ''The record changed since it was read'' 409),
      (IdempotencyKeyConflict, registered ''idempotency-key-conflict'' ''The idempotency key was reused with a different request'' 409),
      (StateTransitionRefused, registered ''state-transition-refused'' ''The requested state transition was refused'' 409),
      (RequestInProgress, registered ''request-in-progress'' ''An identical request is still in progress'' 409),
      (PreconditionUnmet, registered ''precondition-unmet'' ''A request precondition was not met'' 412),
      (PayloadTooLarge, registered ''payload-too-large'' ''The request content is too large'' 413),
      (RateLimited, registered ''rate-limited'' ''The request rate is too high'' 429),
      (Overloaded, registered ''overloaded'' ''The service is overloaded'' 503),
      (DependencyUnavailable, registered ''dependency-unavailable'' ''A required dependency is unavailable'' 503),
      (Internal, registered ''internal'' ''An internal error occurred'' 500)]"

definition problem_definition :: "problem_type \<Rightarrow> problemDefinition" where
  "problem_definition k =
     (case map_of problemRegistry k of Some d \<Rightarrow> d | None \<Rightarrow> the (map_of problemRegistry Internal))"

text \<open>The document, with \<^verbatim>\<open>detail\<close> and \<^verbatim>\<open>correlation_id\<close> left out when empty, and the calls that write it.\<close>

definition problem_document :: "problemDefinition \<Rightarrow> string \<Rightarrow> request \<Rightarrow> json" where
  "problem_document d detail r =
     JObj ([(''type'', JStr (pd_URI d)), (''title'', JStr (pd_Title d)), (''status'', JNum (show_int (pd_Status d)))]
       @ (if redact_string detail = '''' then [] else [(''detail'', JStr (redact_string detail))])
       @ [(''instance'', JStr (r_Path r))]
       @ (case CorrelationID (r_ctx r) of Some u \<Rightarrow> [(''correlation_id'', JStr (String u))] | None \<Rightarrow> []))"

definition Problem :: "request \<Rightarrow> problem_type \<Rightarrow> string \<Rightarrow> write_op list" where
  "Problem r kind detail =
     (let d = problem_definition kind in
      (case CorrelationID (r_ctx r) of Some u \<Rightarrow> [HSet CorrelationHeader (String u)] | None \<Rightarrow> [])
      @ [HSet ''Content-Type'' ''application/problem+json'', HSet ''Cache-Control'' ''no-store'', HSet ''X-Content-Type-Options'' ''nosniff'',
         WriteHeader (pd_Status d), Write (write_json (problem_document d detail r) @ [CHR 0x0A])])"

section \<open>Recovery\<close>

record bufferedResponse =
  b_header :: headers
  b_status :: int
  b_body :: string

definition newBufferedResponse :: bufferedResponse where
  "newBufferedResponse = \<lparr>b_header = [], b_status = 0, b_body = ''''\<rparr>"

fun buffer_op :: "write_op \<Rightarrow> bufferedResponse \<Rightarrow> bufferedResponse" where
  "buffer_op (HSet k v) b = b\<lparr>b_header := header_set k v (b_header b)\<rparr>"
| "buffer_op (HAdd k v) b = b\<lparr>b_header := header_add k v (b_header b)\<rparr>"
| "buffer_op (HDel k) b = b\<lparr>b_header := header_del k (b_header b)\<rparr>"
| "buffer_op (WriteHeader s) b = (if b_status b = 0 then b\<lparr>b_status := s\<rparr> else b)"
| "buffer_op (Write t) b = b\<lparr>b_status := (if b_status b = 0 then 200 else b_status b), b_body := b_body b @ t\<rparr>"

definition buffered :: "write_op list \<Rightarrow> bufferedResponse" where
  "buffered ops = fold buffer_op ops newBufferedResponse"

definition commit :: "bufferedResponse \<Rightarrow> write_op list" where
  "commit b = concat (map (\<lambda>(k, vs). map (HAdd k) vs) (b_header b))
     @ [WriteHeader (if b_status b = 0 then 200 else b_status b), Write (b_body b)]"

definition recovery :: "telemetry option \<Rightarrow> 'a middleware" where
  "recovery telemetry next r w =
     (let out = next r w in
      case o_end out of
        Waits \<Rightarrow> out\<lparr>o_ops := []\<rparr>
      | Returns \<Rightarrow> out\<lparr>o_ops := commit (buffered (o_ops out))\<rparr>
      | Panics p \<Rightarrow>
          let r' = o_request out;
              w' = (case telemetry of None \<Rightarrow> o_world out
                      | Some t \<Rightarrow> emit (RecordPanic t (r_ctx r') @ [log_line t (r_ctx r') ''panic recovered'' [(''panic'', VString p)]]) (o_world out))
          in \<lparr>o_ops = Problem r' Internal ''The request could not be completed'', o_end = Returns, o_request = r', o_world = w'\<rparr>)"

section \<open>Correlation\<close>

definition ensure :: "request \<Rightarrow> 'a world \<Rightarrow> ((goctx \<times> uuid) result \<times> 'a world) option" where
  "ensure r w =
     map_option (\<lambda>(res, g, ms). (res, w\<lparr>w_generator := g, w_ms := ms, w_draws := Suc (w_draws w)\<rparr>))
       (EnsureCorrelation (r_ctx r) (r_Header r CorrelationHeader) (w_generator w) (w_ms w) (w_random w (w_draws w)))"

definition correlation :: "'a middleware" where
  "correlation next r w =
     (case ensure r w of
        None \<Rightarrow> \<lparr>o_ops = [], o_end = Waits, o_request = r, o_world = w\<rparr>
      | Some (Inl _, w') \<Rightarrow>
          \<lparr>o_ops = Problem r Internal ''Unable to create a request correlation identifier'', o_end = Returns, o_request = r, o_world = w'\<rparr>
      | Some (Inr (ctx, u), w') \<Rightarrow>
          (let out = next (r\<lparr>r_ctx := ctx\<rparr>) w' in out\<lparr>o_ops := HSet CorrelationHeader (String u) # o_ops out\<rparr>))"

section \<open>Logging\<close>

text \<open>The calls a \<^verbatim>\<open>statusResponseWriter\<close> passes on, and the status it saw.\<close>

fun status_writer :: "int \<Rightarrow> write_op list \<Rightarrow> write_op list \<times> int" where
  "status_writer st [] = ([], st)"
| "status_writer st (WriteHeader s # ops) =
     (if st \<noteq> 0 then status_writer st ops else map_prod (\<lambda>os. WriteHeader s # os) id (status_writer s ops))"
| "status_writer st (Write t # ops) =
     (if st = 0 then map_prod (\<lambda>os. WriteHeader 200 # Write t # os) id (status_writer 200 ops)
      else map_prod (\<lambda>os. Write t # os) id (status_writer st ops))"
| "status_writer st (x # ops) = map_prod (\<lambda>os. x # os) id (status_writer st ops)"

definition requestLog :: "telemetry option \<Rightarrow> 'a middleware" where
  "requestLog telemetry next r w =
     (let (started, w1) = read_clock w;
          out = next r w1;
          (ops, seen) = status_writer 0 (o_ops out);
          out' = out\<lparr>o_ops := ops\<rparr>;
          status = (if seen = 0 then 200 else seen)
      in case (o_end out, telemetry) of
           (Returns, Some t) \<Rightarrow>
             (let (ended, w2) = read_clock (o_world out);
                  r' = o_request out;
                  d = word_of_int (time_sub ended started) :: duration
              in out'\<lparr>o_world := emit (log_line t (r_ctx r') ''http request completed''
                   [(''http.method'', VString (r_Method r')), (''http.path'', VString (r_Path r')), (''http.status'', VOther (show_int status)),
                    (''duration'', VOther (show_int (sint d)))] # RecordRequest t (r_ctx r') (r_Method r') status d) w2\<rparr>)
         | _ \<Rightarrow> out')"

section \<open>Load shedding and timeout\<close>

definition retry_seconds :: "duration \<Rightarrow> int" where
  "retry_seconds retryAfter = max 1 (sint (retryAfter + 1000000000 - 1) sdiv 1000000000)"

text \<open>The two atomic operations on the counter: on the way in with the decision, and on the way out.\<close>

definition shed_enter :: "64 word \<Rightarrow> 64 word \<Rightarrow> 64 word \<times> bool" where
  "shed_enter limit inFlight = (let current = inFlight + 1 in (current, \<not> sint current > sint limit))"

definition shed_leave :: "64 word \<Rightarrow> 64 word" where
  "shed_leave inFlight = inFlight - 1"

definition shed_middleware :: "64 word \<Rightarrow> duration \<Rightarrow> telemetry option \<Rightarrow> 'a middleware" where
  "shed_middleware limit retryAfter telemetry next r w =
     (let (current, admit) = shed_enter limit (w_inFlight w); w1 = w\<lparr>w_inFlight := current\<rparr> in
      if \<not> admit then
        let w2 = w1\<lparr>w_inFlight := shed_leave (w_inFlight w1)\<rparr>;
            w3 = (case telemetry of None \<Rightarrow> w2 | Some t \<Rightarrow> emit (RecordShed t (r_ctx r)) w2)
        in \<lparr>o_ops = HSet ''Retry-After'' (show_int (retry_seconds retryAfter)) # Problem r Overloaded ''Request capacity is temporarily exhausted'',
            o_end = Returns, o_request = r, o_world = w3\<rparr>
      else
        let out = next r w1 in
        if o_end out = Waits then out else out\<lparr>o_world := (o_world out)\<lparr>w_inFlight := shed_leave (w_inFlight (o_world out))\<rparr>\<rparr>)"

text \<open>
  \<^verbatim>\<open>timeout\<close> hands on a copy of the request with a context of its own; the URL and the header of the two are the same objects, so that a change a stage
  makes there is seen by the stages outside. An earlier deadline of the parent stays.
\<close>

definition with_timeout :: "duration \<Rightarrow> time \<Rightarrow> goctx \<Rightarrow> goctx" where
  "with_timeout d now ctx =
     ctx\<lparr>ctx_deadline := Some (case ctx_deadline ctx of None \<Rightarrow> now + sint d | Some t \<Rightarrow> min t (now + sint d))\<rparr>"

definition timeout :: "duration \<Rightarrow> 'a middleware" where
  "timeout d next r w =
     (let (now, w1) = read_clock w; out = next (r\<lparr>r_ctx := with_timeout d now (r_ctx r)\<rparr>) w1
      in out\<lparr>o_request := r\<lparr>r_Path := r_Path (o_request out), r_Header := r_Header (o_request out)\<rparr>\<rparr>)"

section \<open>The chain\<close>

record 'a options =
  opt_Telemetry :: "telemetry option"
  opt_Timeout :: duration
  opt_MaxInFlight :: "64 word"
  opt_RetryAfter :: duration
  opt_Authentication :: "'a middleware option"
  opt_Authorization :: "'a middleware option"
  opt_Idempotency :: "'a middleware option"

definition chain_defaults :: "'a options \<Rightarrow> 'a options" where
  "chain_defaults opts =
     opts\<lparr>opt_Timeout := (if sint (opt_Timeout opts) \<le> 0 then 30000000000 else opt_Timeout opts),
          opt_MaxInFlight := (if sint (opt_MaxInFlight opts) \<le> 0 then 256 else opt_MaxInFlight opts),
          opt_RetryAfter := (if sint (opt_RetryAfter opts) \<le> 0 then 1000000000 else opt_RetryAfter opts)\<rparr>"

definition hook :: "'a middleware option \<Rightarrow> 'a middleware" where
  "hook m next = (case m of None \<Rightarrow> next | Some f \<Rightarrow> f next)"

definition Chain :: "'a options \<Rightarrow> 'a middleware" where
  "Chain opts0 next =
     (let opts = chain_defaults opts0;
          h1 = hook (opt_Idempotency opts) next;
          h2 = hook (opt_Authorization opts) h1;
          h3 = hook (opt_Authentication opts) h2;
          h4 = timeout (opt_Timeout opts) h3;
          h5 = shed_middleware (opt_MaxInFlight opts) (opt_RetryAfter opts) (opt_Telemetry opts) h4;
          h6 = requestLog (opt_Telemetry opts) h5;
          h7 = correlation h6
      in recovery (opt_Telemetry opts) h7)"

section \<open>The server\<close>

record server_config =
  ReadTimeout :: duration
  ReadHeaderTimeout :: duration
  WriteTimeout :: duration
  IdleTimeout :: duration
  MaxHeaderBytes :: "64 word"

definition applyDefaults :: "server_config \<Rightarrow> server_config" where
  "applyDefaults c =
     \<lparr>ReadTimeout = (if sint (ReadTimeout c) \<le> 0 then 10000000000 else ReadTimeout c),
      ReadHeaderTimeout = (if sint (ReadHeaderTimeout c) \<le> 0 then 5000000000 else ReadHeaderTimeout c),
      WriteTimeout = (if sint (WriteTimeout c) \<le> 0 then 30000000000 else WriteTimeout c),
      IdleTimeout = (if sint (IdleTimeout c) \<le> 0 then 60000000000 else IdleTimeout c),
      MaxHeaderBytes = (if sint (MaxHeaderBytes c) \<le> 0 then 1048576 else MaxHeaderBytes c)\<rparr>"

record 'h server =
  s_Addr :: string
  s_Handler :: 'h
  s_config :: server_config

definition NewServer :: "string \<Rightarrow> 'h option \<Rightarrow> server_config \<Rightarrow> 'h server result" where
  "NewServer address handler cfg =
     (case handler of
        None \<Rightarrow> Inl (New ''httpapi: handler is required'')
      | Some h \<Rightarrow> Inr \<lparr>s_Addr = address, s_Handler = h, s_config = applyDefaults cfg\<rparr>)"

text \<open>\<^verbatim>\<open>Shutdown\<close>: the server drains within the context it is given, whose deadline is the grace or the parent's.\<close>

definition Shutdown :: "('h server \<Rightarrow> goctx \<Rightarrow> unit result) \<Rightarrow> time \<Rightarrow> goctx \<Rightarrow> 'h server option \<Rightarrow> duration \<Rightarrow> unit result" where
  "Shutdown drain now ctx server grace =
     (case server of
        None \<Rightarrow> Inl (New ''httpapi: server is required'')
      | Some s \<Rightarrow>
          if sint grace \<le> 0 then Inl (New ''httpapi: shutdown grace must be positive'')
          else drain s (with_timeout grace now ctx))"

section \<open>What a client receives\<close>

text \<open>
  The response writer of \<^verbatim>\<open>net/http\<close>: an informational status is sent and does not count, the first other status is final and fixes the headers, writing without one
  means 200, some statuses have no body. A status outside three digits panics there.
\<close>

record wire =
  x_header :: headers
  x_sent :: "(int \<times> headers) option"
  x_body :: string

definition body_allowed :: "int \<Rightarrow> bool" where
  "body_allowed s \<longleftrightarrow> \<not> (100 \<le> s \<and> s \<le> 199) \<and> s \<noteq> 204 \<and> s \<noteq> 304"

definition wire_status :: "int \<Rightarrow> wire \<Rightarrow> wire" where
  "wire_status s x =
     (if x_sent x \<noteq> None \<or> (100 \<le> s \<and> s \<le> 199 \<and> s \<noteq> 101) then x else x\<lparr>x_sent := Some (s, x_header x)\<rparr>)"

fun wire_op :: "write_op \<Rightarrow> wire \<Rightarrow> wire" where
  "wire_op (HSet k v) x = x\<lparr>x_header := header_set k v (x_header x)\<rparr>"
| "wire_op (HAdd k v) x = x\<lparr>x_header := header_add k v (x_header x)\<rparr>"
| "wire_op (HDel k) x = x\<lparr>x_header := header_del k (x_header x)\<rparr>"
| "wire_op (WriteHeader s) x = wire_status s x"
| "wire_op (Write t) x =
     (let x' = (if x_sent x = None then wire_status 200 x else x) in
      if body_allowed (fst (the (x_sent x'))) then x'\<lparr>x_body := x_body x' @ t\<rparr> else x')"

definition received :: "write_op list \<Rightarrow> int \<times> headers \<times> string" where
  "received ops =
     (let x = fold wire_op ops \<lparr>x_header = [], x_sent = None, x_body = ''''\<rparr> in
      case x_sent x of None \<Rightarrow> (200, x_header x, x_body x) | Some (s, hs) \<Rightarrow> (s, hs, x_body x))"

section \<open>Buffering is transparent\<close>

definition header_op :: "write_op \<Rightarrow> bool" where
  "header_op x \<longleftrightarrow> (case x of HSet _ _ \<Rightarrow> True | HAdd _ _ \<Rightarrow> True | HDel _ \<Rightarrow> True | _ \<Rightarrow> False)"

definition final_op :: "write_op \<Rightarrow> bool" where
  "final_op x \<longleftrightarrow> (case x of WriteHeader s \<Rightarrow> 200 \<le> s \<and> s \<le> 999 | Write _ \<Rightarrow> True | _ \<Rightarrow> False)"

text \<open>A handler that sets its headers before it writes and uses final statuses only.\<close>

definition orderly :: "write_op list \<Rightarrow> bool" where
  "orderly ops \<longleftrightarrow> list_all final_op (dropWhile header_op ops)"

definition good_headers :: "headers \<Rightarrow> bool" where
  "good_headers hs \<longleftrightarrow> distinct (map fst hs) \<and> (\<forall>(k, vs) \<in> set hs. canonical k = k \<and> vs \<noteq> [])"

lemma case_chars: "upper_char (upper_char c) = upper_char c" "lower_char (lower_char c) = lower_char c"
  "upper_char c = CHR ''-'' \<longleftrightarrow> c = CHR ''-''" "lower_char c = CHR ''-'' \<longleftrightarrow> c = CHR ''-''"
  "token_char c \<Longrightarrow> token_char (upper_char c)" "token_char c \<Longrightarrow> token_char (lower_char c)"
proof -
  have d: "x = CHR ''-'' \<longleftrightarrow> (of_char x :: nat) = 45" for x
    using of_char_eq_iff[of x "CHR ''-''", where 'a = nat] by simp
  show "upper_char c = CHR ''-'' \<longleftrightarrow> c = CHR ''-''" "lower_char c = CHR ''-'' \<longleftrightarrow> c = CHR ''-''"
    unfolding d by (auto simp: upper_char_def lower_char_def Let_def)
qed (auto simp: upper_char_def lower_char_def token_char_def Let_def)

lemma canonical_idem [simp]: "canonical (canonical k) = canonical k"
proof -
  have "canonical_from up (canonical_from up s) = canonical_from up s" for up s
    by (induction up s rule: canonical_from.induct) (auto simp: case_chars)
  moreover have "list_all token_char s \<Longrightarrow> list_all token_char (canonical_from up s)" for up s
    by (induction up s rule: canonical_from.induct) (auto simp: case_chars)
  ultimately show ?thesis by (simp add: canonical_def)
qed

lemma good_set: "good_headers hs \<Longrightarrow> good_headers (header_set k v hs)"
  by (auto simp: good_headers_def header_set_def distinct_map_filter)

lemma good_del: "good_headers hs \<Longrightarrow> good_headers (header_del k hs)"
  by (auto simp: good_headers_def header_del_def distinct_map_filter)

lemma good_add: "good_headers hs \<Longrightarrow> good_headers (header_add k v hs)"
  by (auto simp: good_headers_def header_add_def map_of_eq_None_iff comp_def if_distrib cong: if_cong split: option.split)

lemma good_buffer: "good_headers (b_header b) \<Longrightarrow> good_headers (b_header (fold buffer_op ops b))"
proof (induction ops arbitrary: b)
  case (Cons x ops)
  then show ?case by (cases x) (simp_all add: Cons.IH good_set good_add good_del)
qed simp

lemma add_values:
  assumes "k \<notin> fst ` set acc" "canonical k = k"
  shows "vs \<noteq> [] \<Longrightarrow> fold (header_add k) vs acc = acc @ [(k, vs)]"
proof (induction vs rule: rev_induct)
  case (snoc v vs)
  have n: "map_of acc k = None" using assms by (simp add: map_of_eq_None_iff)
  show ?case
  proof (cases "vs = []")
    case True
    then show ?thesis using n assms by (simp add: header_add_def)
  next
    case False
    have m: "map (\<lambda>h. if fst h = k then f h else h) acc = acc" for f using assms(1) by (intro map_idI) auto
    have "header_add k v (acc @ [(k, vs)]) = acc @ [(k, vs @ [v])]" using n assms(2) by (simp add: header_add_def m map_add_def)
    with snoc.IH False show ?thesis by simp
  qed
qed simp

lemma rebuild_headers:
  "good_headers (acc @ hs) \<Longrightarrow>
     fold wire_op (concat (map (\<lambda>(k, vs). map (HAdd k) vs) hs)) (x\<lparr>x_header := acc\<rparr>) = x\<lparr>x_header := acc @ hs\<rparr>"
proof (induction hs arbitrary: acc)
  case (Cons h hs)
  obtain k vs where h: "h = (k, vs)" by (cases h)
  have f: "fold wire_op (map (HAdd k) vs) (x\<lparr>x_header := a\<rparr>) = x\<lparr>x_header := fold (header_add k) vs a\<rparr>" for a
    by (induction vs arbitrary: a) simp_all
  have "k \<notin> fst ` set acc" "canonical k = k" "vs \<noteq> []" using Cons.prems h by (auto simp: good_headers_def)
  then show ?case using Cons.IH[of "acc @ [(k, vs)]"] Cons.prems by (simp add: h f add_values)
qed simp

lemma header_ops_together:
  assumes "list_all header_op ops" "x_header x = b_header b"
  shows "fold wire_op ops x = x\<lparr>x_header := b_header (fold buffer_op ops b)\<rparr>
    \<and> b_status (fold buffer_op ops b) = b_status b \<and> b_body (fold buffer_op ops b) = b_body b"
  using assms
proof (induction ops arbitrary: x b)
  case (Cons a ops)
  then show ?case
    using Cons.IH[of "wire_op a x" "buffer_op a b"] by (cases a) (auto simp: header_op_def)
qed simp

text \<open>Once a status is fixed, both writers only collect the body.\<close>

lemma final_ops_sent:
  assumes "list_all final_op ops" "x_sent x = Some (s, hs)" "b_status b = s" "s \<noteq> 0"
  shows "x_sent (fold wire_op ops x) = Some (s, hs)
    \<and> (\<exists>t. x_body (fold wire_op ops x) = x_body x @ (if body_allowed s then t else '''') \<and> b_body (fold buffer_op ops b) = b_body b @ t)
    \<and> b_status (fold buffer_op ops b) = s \<and> b_header (fold buffer_op ops b) = b_header b"
  using assms
proof (induction ops arbitrary: x b)
  case (Cons a ops)
  have n: "x_sent (wire_op a x) = Some (s, hs)" "b_status (buffer_op a b) = s" "b_header (buffer_op a b) = b_header b"
    using Cons.prems by (cases a; auto simp: final_op_def wire_status_def Let_def)+
  obtain u where u: "x_body (wire_op a x) = x_body x @ (if body_allowed s then u else '''')" "b_body (buffer_op a b) = b_body b @ u"
    using Cons.prems by (cases a; cases "body_allowed s") (auto simp: final_op_def wire_status_def Let_def)
  from Cons.IH[OF _ n(1,2)] Cons.prems n(3) u show ?case by (auto intro: exI[of _ "u @ _"])
qed auto

lemma body_allowed_OK [simp]: "body_allowed 200"
  by (simp add: body_allowed_def)

lemma first_final:
  assumes "final_op a" "x_sent x = None" "x_body x = ''''" "b_status b = 0" "b_body b = ''''"
  obtains s u where "x_sent (wire_op a x) = Some (s, x_header x)" "b_status (buffer_op a b) = s" "200 \<le> s"
    "x_body (wire_op a x) = (if body_allowed s then u else '''')" "b_body (buffer_op a b) = u" "b_header (buffer_op a b) = b_header b"
proof (cases a)
  case (WriteHeader s)
  then show ?thesis using that[of s "''''"] assms by (simp add: final_op_def wire_status_def)
next
  case (Write t)
  then show ?thesis using that[of 200 t] assms by (simp add: final_op_def wire_status_def Let_def)
qed (use assms in \<open>auto simp: final_op_def\<close>)

lemma received_commit:
  assumes "good_headers (b_header b)" "b_status b = 0 \<or> 200 \<le> b_status b"
  shows "received (commit b) = (let s = (if b_status b = 0 then 200 else b_status b) in (s, b_header b, if body_allowed s then b_body b else ''''))"
  using rebuild_headers[of "[]" "b_header b" "\<lparr>x_header = [], x_sent = None, x_body = ''''\<rparr>"] assms
  by (auto simp: received_def commit_def Let_def wire_status_def)

lemma buffered_transparent:
  assumes "orderly ops"
  shows "received (commit (buffered ops)) = received ops"
proof -
  define hops wops where "hops = takeWhile header_op ops" and "wops = dropWhile header_op ops"
  let ?x0 = "\<lparr>x_header = [], x_sent = None, x_body = ''''\<rparr>" and ?b0 = newBufferedResponse
  have ops: "ops = hops @ wops" by (simp add: hops_def wops_def)
  have "list_all header_op hops" by (auto simp: hops_def list_all_iff dest: set_takeWhileD)
  from header_ops_together[OF this, of ?x0 ?b0]
  obtain b1 where b1: "fold buffer_op hops ?b0 = b1" "fold wire_op hops ?x0 = ?x0\<lparr>x_header := b_header b1\<rparr>" "b_status b1 = 0" "b_body b1 = ''''"
    by (simp add: newBufferedResponse_def)
  have g: "good_headers (b_header (buffered ops))" unfolding buffered_def by (rule good_buffer) (simp add: newBufferedResponse_def good_headers_def)
  have f: "list_all final_op wops" using assms by (simp add: orderly_def wops_def)
  show ?thesis
  proof (cases wops)
    case Nil
    then have "buffered ops = b1" by (simp add: buffered_def ops b1)
    with Nil g b1 show ?thesis by (simp add: received_commit) (simp add: received_def ops)
  next
    case (Cons a rest)
    let ?x2 = "wire_op a (?x0\<lparr>x_header := b_header b1\<rparr>)" and ?b2 = "buffer_op a b1"
    obtain s u where a: "x_sent ?x2 = Some (s, b_header b1)" "b_status ?b2 = s" "200 \<le> s" "x_body ?x2 = (if body_allowed s then u else '''')" "b_body ?b2 = u"
      "b_header ?b2 = b_header b1"
      using first_final[of a "?x0\<lparr>x_header := b_header b1\<rparr>" b1] f b1(3,4) unfolding Cons by simp metis
    have "list_all final_op rest" using f Cons by simp
    note r = final_ops_sent[OF this a(1,2)]
    have "buffered ops = fold buffer_op rest ?b2" by (simp add: buffered_def ops b1 Cons)
    with r a g show ?thesis
      by (auto simp: received_commit) (auto simp: received_def ops b1 Cons)
  qed
qed

lemma status_writer_buffer:
  "b_status b = st \<Longrightarrow> fold buffer_op (fst (status_writer st ops)) b = fold buffer_op ops b"
proof (induction st ops arbitrary: b rule: status_writer.induct)
  case (2 st s ops)
  then show ?case by (cases "st = 0") simp_all
next
  case (3 st t ops)
  then show ?case by (cases "st = 0") simp_all
qed simp_all

section \<open>The chain\<close>

text \<open>The consumer's stages as the chain nests them, and what they are called with: the identifier, the request as recovery sees it afterwards, the request and the process they get.\<close>

definition stages :: "'a options \<Rightarrow> 'a middleware" where
  "stages opts next = hook (opt_Authentication opts) (hook (opt_Authorization opts) (hook (opt_Idempotency opts) next))"

definition reaches :: "'a options \<Rightarrow> request \<Rightarrow> 'a world \<Rightarrow> (uuid \<times> request \<times> request \<times> 'a world) option" where
  "reaches opts0 r w =
     (let opts = chain_defaults opts0 in
      case ensure r w of
        Some (Inr (ctx, u), w1) \<Rightarrow>
          (let (_, w2) = read_clock w1; (current, admit) = shed_enter (opt_MaxInFlight opts) (w_inFlight w2);
               (now, w3) = read_clock (w2\<lparr>w_inFlight := current\<rparr>)
           in if admit then Some (u, r\<lparr>r_ctx := ctx\<rparr>, r\<lparr>r_ctx := with_timeout (opt_Timeout opts) now ctx\<rparr>, w3) else None)
      | _ \<Rightarrow> None)"

lemma stages_defaults [simp]: "stages (chain_defaults opts) = stages opts"
  by (rule ext)+ (simp add: stages_def chain_defaults_def)

lemma Chain_stages:
  "Chain opts0 next =
     (let opts = chain_defaults opts0 in
      recovery (opt_Telemetry opts) (correlation (requestLog (opt_Telemetry opts)
        (shed_middleware (opt_MaxInFlight opts) (opt_RetryAfter opts) (opt_Telemetry opts) (timeout (opt_Timeout opts) (stages opts next))))))"
  by (simp add: Chain_def stages_def Let_def)

lemma emit_frame [simp]: "w_app (emit s w) = w_app w" "w_inFlight (emit s w) = w_inFlight w" "w_signals (emit s w) = w_signals w @ s"
  by (simp_all add: emit_def)

lemma read_clock_frame [simp]: "w_app (snd (read_clock w)) = w_app w" "w_inFlight (snd (read_clock w)) = w_inFlight w"
  "w_signals (snd (read_clock w)) = w_signals w"
  by (simp_all add: read_clock_def)

lemma ensure_frame: "ensure r w = Some (res, w') \<Longrightarrow> w_app w' = w_app w \<and> w_inFlight w' = w_inFlight w \<and> w_signals w' = w_signals w"
  by (auto simp: ensure_def)

lemma requestLog_out:
  fixes inner :: "'a http_handler" and r :: request and w :: "'a world"
  defines "out \<equiv> inner r (snd (read_clock w))"
  shows "o_ops (requestLog telemetry inner r w) = fst (status_writer 0 (o_ops out))" "o_end (requestLog telemetry inner r w) = o_end out"
    "o_request (requestLog telemetry inner r w) = o_request out" "w_app (o_world (requestLog telemetry inner r w)) = w_app (o_world out)"
    "w_inFlight (o_world (requestLog telemetry inner r w)) = w_inFlight (o_world out)"
proof -
  obtain ops seen where "status_writer 0 (o_ops (inner r (snd (read_clock w)))) = (ops, seen)" by fastforce
  moreover obtain t1 w1 where "read_clock w = (t1, w1)" by fastforce
  moreover obtain t2 w2 where "read_clock (o_world (inner r w1)) = (t2, w2)" by fastforce
  moreover have "w_app w2 = w_app (o_world (inner r w1))" "w_inFlight w2 = w_inFlight (o_world (inner r w1))"
    using read_clock_frame(1,2)[of "o_world (inner r w1)"] calculation(3) by simp_all
  ultimately show "o_ops (requestLog telemetry inner r w) = fst (status_writer 0 (o_ops out))" "o_end (requestLog telemetry inner r w) = o_end out"
    "o_request (requestLog telemetry inner r w) = o_request out" "w_app (o_world (requestLog telemetry inner r w)) = w_app (o_world out)"
    "w_inFlight (o_world (requestLog telemetry inner r w)) = w_inFlight (o_world out)"
    unfolding out_def by (cases "o_end (inner r w1)"; cases telemetry; simp add: requestLog_def Let_def)+
qed

text \<open>Everything below recovery, for a request that reaches the stages.\<close>

lemma below_recovery:
  assumes "reaches opts r w = Some (u, r1, r', w')" "o_end (stages opts next r' w') \<noteq> Waits"
  defines "out \<equiv> correlation (requestLog (opt_Telemetry opts) (shed_middleware (opt_MaxInFlight (chain_defaults opts)) (opt_RetryAfter (chain_defaults opts))
      (opt_Telemetry opts) (timeout (opt_Timeout (chain_defaults opts)) (stages opts next)))) r w"
  shows "o_ops out = HSet CorrelationHeader (String u) # fst (status_writer 0 (o_ops (stages opts next r' w')))"
    "o_end out = o_end (stages opts next r' w')" "o_request out = r1\<lparr>r_Path := r_Path (o_request (stages opts next r' w')), r_Header := r_Header (o_request (stages opts next r' w'))\<rparr>"
    "w_app (o_world out) = w_app (o_world (stages opts next r' w'))" "w_inFlight (o_world out) = w_inFlight (o_world (stages opts next r' w')) - 1"
proof -
  obtain ctx w1 where e: "ensure r w = Some (Inr (ctx, u), w1)" "r1 = r\<lparr>r_ctx := ctx\<rparr>"
    using assms(1) by (auto simp: reaches_def Let_def split: option.splits sum.splits prod.splits if_splits)
  obtain t1 w2 where c1: "read_clock w1 = (t1, w2)" by (cases "read_clock w1")
  obtain cur ad where sh: "shed_enter (opt_MaxInFlight (chain_defaults opts)) (w_inFlight w2) = (cur, ad)" by fastforce
  obtain t2 w3 where c2: "read_clock (w2\<lparr>w_inFlight := cur\<rparr>) = (t2, w3)" by fastforce
  have r: "ad" "r' = r\<lparr>r_ctx := with_timeout (opt_Timeout (chain_defaults opts)) t2 ctx\<rparr>" "w' = w3"
    using assms(1) by (auto simp: reaches_def Let_def e c1 sh c2 split: if_splits)
  obtain ops seen where st: "status_writer 0 (o_ops (stages opts next r' w')) = (ops, seen)" by fastforce
  let ?a = "stages opts next r' w'"
  let ?q = "r1\<lparr>r_Path := r_Path (o_request ?a), r_Header := r_Header (o_request ?a)\<rparr>"
  define wl where "wl = (o_world ?a)\<lparr>w_inFlight := w_inFlight (o_world ?a) - 1\<rparr>"

  have t: "timeout (opt_Timeout (chain_defaults opts)) (stages opts next) r1 (w2\<lparr>w_inFlight := cur\<rparr>) = ?a\<lparr>o_request := ?q\<rparr>"
    using r by (simp add: timeout_def c2 e(2) Let_def)
  have m: "shed_middleware (opt_MaxInFlight (chain_defaults opts)) (opt_RetryAfter (chain_defaults opts)) (opt_Telemetry opts)
      (timeout (opt_Timeout (chain_defaults opts)) (stages opts next)) r1 w2 = ?a\<lparr>o_request := ?q, o_world := wl\<rparr>"
    using r(1) assms(2) by (simp add: shed_middleware_def sh t shed_leave_def wl_def Let_def)
  show "o_ops out = HSet CorrelationHeader (String u) # fst (status_writer 0 (o_ops ?a))" "o_end out = o_end ?a" "o_request out = ?q"
    "w_app (o_world out) = w_app (o_world ?a)" "w_inFlight (o_world out) = w_inFlight (o_world ?a) - 1"
    unfolding out_def correlation_def e(1) by (simp_all add: e(2)[symmetric] requestLog_out c1 m st) (simp_all add: wl_def)
qed

lemma header_keys: "canonical CorrelationHeader = ''X-Correlation-Id''" "canonical ''Content-Type'' = ''Content-Type''"
  "canonical ''Cache-Control'' = ''Cache-Control''" "canonical ''X-Content-Type-Options'' = ''X-Content-Type-Options''"
  "canonical ''Retry-After'' = ''Retry-After''"
  by code_simp+

lemma registry_status: "pd_Status (problem_definition Internal) = 500" "pd_Status (problem_definition Overloaded) = 503"
  by code_simp+

definition problem_headers :: headers where
  "problem_headers = [(''Content-Type'', [''application/problem+json'']), (''Cache-Control'', [''no-store'']), (''X-Content-Type-Options'', [''nosniff''])]"

lemma Chain_never_panics: "o_end (Chain opts next r w) \<noteq> Panics p"
  by (simp add: Chain_stages recovery_def Let_def split: completion.split)

lemma ensure_carries:
  assumes "ensure r w = Some (Inr (ctx, u), w1)" "\<not> IsNil u"
  shows "CorrelationID ctx = Some u"
  using assms by (auto simp: ensure_def EnsureCorrelation_def WithCorrelationID_def CorrelationID_def non_nil_def split: option.splits sum.splits)

lemma reaches_carries:
  assumes "reaches opts r w = Some (u, r1, r', w')" "\<not> IsNil u"
  shows "CorrelationID (r_ctx r1) = Some u" "r_Path r1 = r_Path r"
  using assms(1) ensure_carries[OF _ assms(2), of r w]
  by (auto simp: reaches_def Let_def split: option.splits sum.splits prod.splits if_splits)

text \<open>
  C16: A panic below recovery never reaches the server and never leaks a partial response: whatever the handler, authentication, authorization or idempotency stage wrote before it
  panicked, the client receives status 500 with exactly the Internal problem document, which carries the request's correlation identifier in the header and in the body and names the path as the
  stages left it; and the load shedder's slot is given back.
\<close>

theorem panic_isolated:
  assumes "reaches opts r w = Some (u, r1, r', w')" "\<not> IsNil u" "o_end (stages opts next r' w') = Panics p"
  defines "out \<equiv> Chain opts next r w"
  shows "o_end out = Returns
    \<and> received (o_ops out) = (500, (''X-Correlation-Id'', [String u]) # problem_headers,
        write_json (problem_document (problem_definition Internal) ''The request could not be completed'' (r1\<lparr>r_Path := r_Path (o_request (stages opts next r' w'))\<rparr>)) @ [CHR 0x0A])
    \<and> CorrelationID (r_ctx r1) = Some u \<and> r_Path r1 = r_Path r
    \<and> w_inFlight (o_world out) = w_inFlight (o_world (stages opts next r' w')) - 1
    \<and> w_app (o_world out) = w_app (o_world (stages opts next r' w'))"
proof -
  have nw: "o_end (stages opts next r' w') \<noteq> Waits" using assms(3) by simp
  have t: "opt_Telemetry (chain_defaults opts) = opt_Telemetry opts" by (simp add: chain_defaults_def)
  note b = below_recovery[OF assms(1) nw]
  note c = reaches_carries[OF assms(1,2)]
  let ?path = "r1\<lparr>r_Path := r_Path (o_request (stages opts next r' w'))\<rparr>"
  let ?q = "r1\<lparr>r_Path := r_Path (o_request (stages opts next r' w')), r_Header := r_Header (o_request (stages opts next r' w'))\<rparr>"
  have d: "problem_document x m ?q = problem_document x m ?path" for x m by (simp add: problem_document_def)
  have "received (Problem ?q Internal ''The request could not be completed'') = (500, (''X-Correlation-Id'', [String u]) # problem_headers,
        write_json (problem_document (problem_definition Internal) ''The request could not be completed'' ?path) @ [CHR 0x0A])"
    by (simp add: Problem_def c(1) d received_def header_set_def header_keys wire_status_def registry_status body_allowed_def problem_headers_def Let_def)
  with b c assms(3) show ?thesis
    unfolding out_def Chain_stages recovery_def Let_def t stages_defaults by (auto split: option.split)
qed

text \<open>
  C17: The chain changes nothing an orderly response says: for a request that is admitted, when the stages return and their response is orderly (it sets, adds and deletes its headers before it
  writes a status or a body, and every status it writes is a final one, from 200 to 999), it reaches the client with the same status, headers and body as if it had been written straight to the
  connection, plus the correlation identifier, although it passes a logging writer and a buffer; and the shedder's slot is given back. A response that sends an informational status, or changes a header
  after it wrote, is not covered: the buffer takes a first informational status for the final one, and sends the late headers.
\<close>

theorem chain_transparent:
  assumes "reaches opts r w = Some (u, r1, r', w')" "o_end (stages opts next r' w') = Returns" "orderly (o_ops (stages opts next r' w'))"
  defines "out \<equiv> Chain opts next r w"
  shows "o_end out = Returns
    \<and> received (o_ops out) = received (HSet CorrelationHeader (String u) # o_ops (stages opts next r' w'))
    \<and> w_inFlight (o_world out) = w_inFlight (o_world (stages opts next r' w')) - 1
    \<and> w_app (o_world out) = w_app (o_world (stages opts next r' w'))"
proof -
  have nw: "o_end (stages opts next r' w') \<noteq> Waits" using assms(2) by simp
  have t: "opt_Telemetry (chain_defaults opts) = opt_Telemetry opts" by (simp add: chain_defaults_def)
  note b = below_recovery[OF assms(1) nw]
  let ?ops = "o_ops (stages opts next r' w')"
  have "buffered (HSet CorrelationHeader (String u) # fst (status_writer 0 ?ops)) = buffered (HSet CorrelationHeader (String u) # ?ops)"
    by (simp add: buffered_def newBufferedResponse_def status_writer_buffer)
  moreover have "orderly (HSet CorrelationHeader (String u) # ?ops)" using assms(3) by (simp add: orderly_def header_op_def)
  ultimately have "received (commit (buffered (HSet CorrelationHeader (String u) # fst (status_writer 0 ?ops)))) = received (HSet CorrelationHeader (String u) # ?ops)"
    by (simp add: buffered_transparent)
  with b assms(2) show ?thesis
    unfolding out_def Chain_stages recovery_def Let_def t stages_defaults by simp
qed

lemma retry_rounds_up:
  assumes "0 < sint d" "sint d < 2 ^ 62"
  shows "sint d \<le> retry_seconds d * 1000000000" "retry_seconds d * 1000000000 < sint d + 1000000000"
proof -
  have "sint (word_of_int (sint d + 999999999) :: 64 word) = sint d + 999999999" using assms by (intro sint_word_of_int_small) auto
  then have s: "sint (d + 1000000000 - 1) = sint d + 999999999" by (simp add: add.commute)
  have "(sint d + 999999999) sdiv 1000000000 = (sint d + 999999999) div 1000000000"
    using assms by (simp add: signed_divide_int_def)
  then have "retry_seconds d = max 1 ((sint d + 999999999) div 1000000000)" by (simp add: retry_seconds_def s[simplified])
  moreover have "1 \<le> (sint d + 999999999) div 1000000000" using assms(1) by (simp add: pos_imp_zdiv_pos_iff int_one_le_iff_zero_less)
  moreover have "(sint d + 999999999) div 1000000000 * 1000000000 + (sint d + 999999999) mod 1000000000 = sint d + 999999999" by (rule div_mult_mod_eq)
  moreover have "0 \<le> (sint d + 999999999) mod 1000000000" "(sint d + 999999999) mod 1000000000 < 1000000000" by simp_all
  ultimately show "sint d \<le> retry_seconds d * 1000000000" "retry_seconds d * 1000000000 < sint d + 1000000000" by linarith+
qed

lemma shed_enter_full:
  assumes "0 \<le> sint n" "sint n < 2 ^ 63 - 1"
  shows "shed_enter limit n = (n + 1, sint n < sint limit)"
proof -
  have "sint (word_of_int (sint n + 1) :: 64 word) = sint n + 1" using assms by (intro sint_word_of_int_small) auto
  then have "sint (n + 1) = sint n + 1" by simp
  then show ?thesis by (auto simp: shed_enter_def Let_def)
qed

lemma shed_refuses:
  fixes inner :: "'a http_handler"
  assumes "ensure r w = Some (Inr (ctx, u), w1)" "\<not> IsNil u"
    "\<not> snd (shed_enter (opt_MaxInFlight (chain_defaults opts)) (w_inFlight w))"
  defines "out \<equiv> Chain opts inner r w"
  shows "o_end out = Returns \<and> w_app (o_world out) = w_app w \<and> w_inFlight (o_world out) = w_inFlight w
    \<and> received (o_ops out) = (503, (''Retry-After'', [show_int (retry_seconds (opt_RetryAfter (chain_defaults opts)))]) # (''X-Correlation-Id'', [String u]) # problem_headers,
        write_json (problem_document (problem_definition Overloaded) ''Request capacity is temporarily exhausted'' (r\<lparr>r_ctx := ctx\<rparr>)) @ [CHR 0x0A])"
proof -
  have f: "w_app w1 = w_app w" "w_inFlight w1 = w_inFlight w" using ensure_frame[OF assms(1)] by simp_all
  obtain t1 w2 where c1: "read_clock w1 = (t1, w2)" by fastforce
  then have w2: "w_app w2 = w_app w" "w_inFlight w2 = w_inFlight w" using read_clock_frame(1,2)[of w1] f by simp_all
  obtain cur where sh: "shed_enter (opt_MaxInFlight (chain_defaults opts)) (w_inFlight w) = (cur, False)" "shed_leave cur = w_inFlight w"
    using assms(3) by (cases "shed_enter (opt_MaxInFlight (chain_defaults opts)) (w_inFlight w)") (auto simp: shed_enter_def shed_leave_def Let_def)
  let ?r1 = "r\<lparr>r_ctx := ctx\<rparr>" and ?tel = "opt_Telemetry opts" and ?retry = "show_int (retry_seconds (opt_RetryAfter (chain_defaults opts)))"
  let ?shed = "shed_middleware (opt_MaxInFlight (chain_defaults opts)) (opt_RetryAfter (chain_defaults opts)) ?tel
    (timeout (opt_Timeout (chain_defaults opts)) (stages opts inner))"
  have t: "opt_Telemetry (chain_defaults opts) = ?tel" by (simp add: chain_defaults_def)
  let ?ops = "HSet ''Retry-After'' ?retry # Problem ?r1 Overloaded ''Request capacity is temporarily exhausted''"
  have s: "o_ops (?shed ?r1 w2) = ?ops" "o_end (?shed ?r1 w2) = Returns" "w_app (o_world (?shed ?r1 w2)) = w_app w" "w_inFlight (o_world (?shed ?r1 w2)) = w_inFlight w"
    using sh w2 by (simp_all add: shed_middleware_def Let_def split: option.split)
  have o: "orderly (HSet CorrelationHeader (String u) # ?ops)"
    by (simp add: orderly_def Problem_def Let_def header_op_def final_op_def registry_status split: option.split)
  have "buffered (HSet CorrelationHeader (String u) # fst (status_writer 0 ?ops)) = buffered (HSet CorrelationHeader (String u) # ?ops)"
    by (simp add: buffered_def newBufferedResponse_def status_writer_buffer)
  then have b: "received (commit (buffered (HSet CorrelationHeader (String u) # fst (status_writer 0 ?ops)))) = received (HSet CorrelationHeader (String u) # ?ops)"
    using buffered_transparent[OF o] by simp
  have "received (HSet CorrelationHeader (String u) # ?ops) = (503, (''Retry-After'', [?retry]) # (''X-Correlation-Id'', [String u]) # problem_headers,
        write_json (problem_document (problem_definition Overloaded) ''Request capacity is temporarily exhausted'' ?r1) @ [CHR 0x0A])"
    using ensure_carries[OF assms(1,2)]
    by (simp add: Problem_def received_def header_set_def header_keys wire_status_def registry_status body_allowed_def problem_headers_def Let_def)
  then show ?thesis
    unfolding out_def Chain_stages recovery_def Let_def t stages_defaults correlation_def assms(1) by (simp add: requestLog_out c1 s b[simplified])
qed

text \<open>The request that is admitted: what the stages are called with, and what their end leaves.\<close>

lemma shed_admits:
  assumes "ensure r w = Some (Inr (ctx, u), w1)" "snd (shed_enter (opt_MaxInFlight (chain_defaults opts)) (w_inFlight w))"
  shows "\<exists>r1 r' w'. reaches opts r w = Some (u, r1, r', w') \<and> w_app w' = w_app w \<and> w_inFlight w' = w_inFlight w + 1
    \<and> r_Method r' = r_Method r \<and> r_Path r' = r_Path r \<and> r_Header r' = r_Header r"
proof -
  have f: "w_app w1 = w_app w" "w_inFlight w1 = w_inFlight w" using ensure_frame[OF assms(1)] by simp_all
  have s: "shed_enter (opt_MaxInFlight (chain_defaults opts)) (w_inFlight w) = (w_inFlight w + 1, True)"
    using assms(2) by (simp add: shed_enter_def Let_def)
  show ?thesis unfolding reaches_def Let_def assms(1) using f s by (simp add: read_clock_def)
qed

text \<open>
  C29: Load is shed at the configured capacity and before any consumer stage runs. The capacity is \<^verbatim>\<open>MaxInFlight\<close>, or 256 when that is not positive. A request that finds at least so many
  requests inside is answered 503 with the Overloaded problem document and a Retry-After that is the configured delay (or one second) rounded up to whole seconds, its counter increment is taken back, and nothing of the consumer's state has
  changed, so authentication was not asked. A request that finds fewer inside reaches the consumer's stages, with the counter one higher and the process otherwise as it came, and when the stages end, by returning or by a panic, the
  consumer's state is what they left and the counter is one lower than they left it.
\<close>

theorem shed_before_stages:
  fixes inner :: "'a http_handler"
  assumes "ensure r w = Some (Inr (ctx, u), w1)" "\<not> IsNil u" "0 \<le> sint (w_inFlight w)" "sint (w_inFlight w) < 2 ^ 63 - 1"
    and "capacity = (if sint (opt_MaxInFlight opts) \<le> 0 then 256 else sint (opt_MaxInFlight opts))"
    "delay = (if sint (opt_RetryAfter opts) \<le> 0 then 1000000000 else sint (opt_RetryAfter opts))" "delay < 2 ^ 62"
  defines "out \<equiv> Chain opts inner r w"
  shows "if capacity \<le> sint (w_inFlight w) then
      o_end out = Returns \<and> w_app (o_world out) = w_app w \<and> w_inFlight (o_world out) = w_inFlight w
      \<and> (\<exists>seconds. delay \<le> seconds * 1000000000 \<and> seconds * 1000000000 < delay + 1000000000
         \<and> received (o_ops out) = (503, (''Retry-After'', [show_int seconds]) # (''X-Correlation-Id'', [String u]) # problem_headers,
              write_json (problem_document (problem_definition Overloaded) ''Request capacity is temporarily exhausted'' (r\<lparr>r_ctx := ctx\<rparr>)) @ [CHR 0x0A]))
    else \<exists>r1 r' w'. reaches opts r w = Some (u, r1, r', w') \<and> w_app w' = w_app w \<and> w_inFlight w' = w_inFlight w + 1
      \<and> r_Method r' = r_Method r \<and> r_Path r' = r_Path r \<and> r_Header r' = r_Header r
      \<and> (o_end (stages opts inner r' w') \<noteq> Waits \<longrightarrow> o_end out = Returns \<and> w_app (o_world out) = w_app (o_world (stages opts inner r' w'))
           \<and> w_inFlight (o_world out) = w_inFlight (o_world (stages opts inner r' w')) - 1)"
proof -
  have l: "sint (opt_MaxInFlight (chain_defaults opts)) = capacity" by (simp add: chain_defaults_def assms(5))
  have d: "sint (opt_RetryAfter (chain_defaults opts)) = delay" "0 < delay" by (auto simp: chain_defaults_def assms(6))
  note e = shed_enter_full[OF assms(3,4), of "opt_MaxInFlight (chain_defaults opts)", unfolded l]
  show ?thesis
  proof (cases "capacity \<le> sint (w_inFlight w)")
    case True
    then have "\<not> snd (shed_enter (opt_MaxInFlight (chain_defaults opts)) (w_inFlight w))" by (simp add: e)
    from shed_refuses[OF assms(1,2) this, of inner] retry_rounds_up[of "opt_RetryAfter (chain_defaults opts)"] d assms(7) True
    show ?thesis unfolding out_def by auto
  next
    case False
    then have "snd (shed_enter (opt_MaxInFlight (chain_defaults opts)) (w_inFlight w))" by (simp add: e)
    from shed_admits[OF assms(1) this] obtain r1 r' w' where a: "reaches opts r w = Some (u, r1, r', w')" "w_app w' = w_app w" "w_inFlight w' = w_inFlight w + 1"
      "r_Method r' = r_Method r" "r_Path r' = r_Path r" "r_Header r' = r_Header r" by blast
    have t: "opt_Telemetry (chain_defaults opts) = opt_Telemetry opts" by (simp add: chain_defaults_def)
    have "o_end out = Returns \<and> w_app (o_world out) = w_app (o_world (stages opts inner r' w'))
        \<and> w_inFlight (o_world out) = w_inFlight (o_world (stages opts inner r' w')) - 1" if "o_end (stages opts inner r' w') \<noteq> Waits"
      using below_recovery[OF a(1) that] that
      unfolding out_def Chain_stages recovery_def Let_def t stages_defaults by (auto split: completion.split option.split)
    then show ?thesis using False a by (simp only: if_False) blast
  qed
qed

section \<open>Capacity under concurrency\<close>

text \<open>
  Any interleaving of requests at the shedder: how many run behind it, how many it has refused that have not yet taken their increment back, and the counter. There are
  fewer than \<open>2\<^sup>6\<^sup>3\<close> requests at a time.
\<close>

inductive shed_run :: "64 word \<Rightarrow> nat \<Rightarrow> nat \<Rightarrow> 64 word \<Rightarrow> bool" for limit where
  idle: "shed_run limit 0 0 0"
| admit: "shed_run limit a b n \<Longrightarrow> a + b + 1 < 2 ^ 63 \<Longrightarrow> shed_enter limit n = (n', True) \<Longrightarrow> shed_run limit (Suc a) b n'"
| refuse: "shed_run limit a b n \<Longrightarrow> a + b + 1 < 2 ^ 63 \<Longrightarrow> shed_enter limit n = (n', False) \<Longrightarrow> shed_run limit a (Suc b) n'"
| finish: "shed_run limit (Suc a) b n \<Longrightarrow> shed_run limit a b (shed_leave n)"
| refused: "shed_run limit a (Suc b) n \<Longrightarrow> shed_run limit a b (shed_leave n)"

lemma shed_run_invariant:
  "shed_run limit a b n \<Longrightarrow> 0 \<le> sint limit \<Longrightarrow> n = word_of_int (int a + int b) \<and> a + b < 2 ^ 63 \<and> int a \<le> sint limit"
proof (induction rule: shed_run.induct)
  case (admit a b n n')
  then have n: "n' = word_of_int (int a + int b + 1)" "sint n' \<le> sint limit" by (auto simp: shed_enter_def Let_def)
  moreover have "sint (word_of_int (int a + int b + 1) :: 64 word) = int a + int b + 1" using admit by (intro sint_word_of_int_small) auto
  ultimately have "int (Suc a) \<le> sint limit" by simp
  then show ?case using admit n by (simp add: algebra_simps)
next
  case (refuse a b n n')
  then show ?case by (auto simp: shed_enter_def Let_def algebra_simps)
qed (auto simp: shed_leave_def algebra_simps)

text \<open>
  The load shedder holds its limit under every interleaving of concurrent requests: never more requests run behind it than the limit allows, its counter is exactly the number of
  requests inside (so no increment is ever lost), and a request is refused only when that number has reached the limit.
\<close>

theorem shed_capacity:
  assumes "shed_run (opt_MaxInFlight (chain_defaults opts)) running refusing counter"
  defines "limit \<equiv> sint (opt_MaxInFlight (chain_defaults opts))"
  shows "int running \<le> limit \<and> 0 < limit \<and> sint counter = int running + int refusing
    \<and> (running + refusing + 1 < 2 ^ 63 \<and> \<not> snd (shed_enter (opt_MaxInFlight (chain_defaults opts)) counter) \<longrightarrow> limit \<le> int running + int refusing)
    \<and> (refusing = 0 \<and> int running < limit \<longrightarrow> snd (shed_enter (opt_MaxInFlight (chain_defaults opts)) counter))"
proof -
  have l: "0 < limit" by (simp add: limit_def chain_defaults_def)
  note i = shed_run_invariant[OF assms(1)]
  have n: "counter = word_of_int (int running + int refusing)" "running + refusing < 2 ^ 63" "int running \<le> limit"
    using i l unfolding limit_def by simp_all
  have c: "sint counter = int running + int refusing" unfolding n(1) using n(2) by (intro sint_word_of_int_small) auto
  have s: "sint (counter + 1) = int running + int refusing + 1" if "running + refusing + 1 < 2 ^ 63"
  proof -
    have "counter + 1 = word_of_int (int running + int refusing + 1)" by (simp add: n(1))
    then show ?thesis using that sint_word_of_int_small[of "int running + int refusing + 1"] by simp
  qed
  have m: "limit < 2 ^ 63" unfolding limit_def using sint_lt[of "opt_MaxInFlight (chain_defaults opts)"] by simp
  show ?thesis using l n(3) c s m by (auto simp: shed_enter_def Let_def limit_def[symmetric])
qed

section \<open>Informational statuses\<close>

text \<open>
  A handler that announces early hints and then answers 404 is received as 404 when it writes straight to the connection, and as 200 behind the chain: the buffer
  keeps the first status it sees, which is the informational one.
\<close>

lemma early_hints_lose_the_status:
  "fst (received [WriteHeader 103, WriteHeader 404, Write ''missing'']) = 404"
  "fst (received (commit (buffered [WriteHeader 103, WriteHeader 404, Write ''missing'']))) = 200"
  by code_simp+

section \<open>A request\<close>

definition sample_id :: uuid where
  "sample_id = [0x01, 0x92, 0x35, 0xf1, 0x8c, 0x4a, 0x7c, 0x1e, 0x9d, 0x0b, 0x3f, 0x4a, 0x2b, 0x6e, 0x5d, 0x71]"

definition sample_request :: request where
  "sample_request = \<lparr>r_Method = ''GET'', r_Path = ''/v1/records'', r_Header = (\<lambda>_. ''019235f1-8c4a-7c1e-9d0b-3f4a2b6e5d71''), r_ctx = background\<rparr>"

definition sample_world :: "64 word \<Rightarrow> nat world" where
  "sample_world n = \<lparr>w_generator = init_generator, w_ms = [], w_random = (\<lambda>_. Inl (New ''no entropy'')), w_draws = 0, w_clock = int, w_ticks = 0,
     w_inFlight = n, w_signals = [], w_app = 0\<rparr>"

definition sample_options :: "nat options" where
  "sample_options = \<lparr>opt_Telemetry = None, opt_Timeout = 0, opt_MaxInFlight = 2, opt_RetryAfter = 0, opt_Authentication = None,
     opt_Authorization = None, opt_Idempotency = None\<rparr>"

definition sample_handler :: "completion \<Rightarrow> nat http_handler" where
  "sample_handler fate r w = \<lparr>o_ops = [HSet ''ETag'' ''v1'', WriteHeader 201, Write ''secret''], o_end = fate, o_request = r, o_world = w\<lparr>w_app := Suc (w_app w)\<rparr>\<rparr>"

lemma sample_parsed: "Parse (trim_space ''019235f1-8c4a-7c1e-9d0b-3f4a2b6e5d71'') = Inr sample_id"
  by code_simp

lemma sample_not_nil: "\<not> IsNil sample_id"
  by (simp add: sample_id_def IsNil_def Nil_uuid_def numeral_eq_Suc)

lemma sample_ensure: "\<exists>w1. ensure sample_request (sample_world n) = Some (Inr (background\<lparr>ctx_correlation := Some sample_id\<rparr>, sample_id), w1)"
  by (simp add: ensure_def EnsureCorrelation_def sample_request_def sample_parsed WithCorrelationID_def sample_not_nil)

lemma sample_reaches:
  obtains r1 r' w' where "reaches sample_options sample_request (sample_world 0) = Some (sample_id, r1, r', w')"
    "\<And>fate. stages sample_options (sample_handler fate) r' w' = sample_handler fate r' w'"
proof -
  have "w_inFlight w1 = 0" if "ensure sample_request (sample_world 0) = Some (x, w1)" for x w1
    using ensure_frame[OF that] by (simp add: sample_world_def)
  then have "\<exists>r1 r' w'. reaches sample_options sample_request (sample_world 0) = Some (sample_id, r1, r', w')"
    using sample_ensure[of 0] by (auto simp: reaches_def Let_def read_clock_def shed_enter_def chain_defaults_def sample_options_def)
  moreover have "stages sample_options (sample_handler fate) r' w' = sample_handler fate r' w'" for fate r' w'
    by (simp add: stages_def hook_def sample_options_def)
  ultimately show ?thesis using that by blast
qed

theorem panic_isolated_witness:
  "\<exists>body. received (o_ops (Chain sample_options (sample_handler (Panics ''boom'')) sample_request (sample_world 0)))
     = (500, (''X-Correlation-Id'', [String sample_id]) # problem_headers, body)"
proof -
  obtain r1 r' w' where r: "reaches sample_options sample_request (sample_world 0) = Some (sample_id, r1, r', w')"
    "\<And>fate. stages sample_options (sample_handler fate) r' w' = sample_handler fate r' w'" by (rule sample_reaches) blast
  have p: "o_end (stages sample_options (sample_handler (Panics ''boom'')) r' w') = Panics ''boom''" by (simp add: r(2) sample_handler_def)
  from panic_isolated[OF r(1) sample_not_nil p] show ?thesis by blast
qed

theorem chain_transparent_witness:
  "received (o_ops (Chain sample_options (sample_handler Returns) sample_request (sample_world 0)))
     = (201, [(''X-Correlation-Id'', [String sample_id]), (''Etag'', [''v1''])], ''secret'')"
proof -
  obtain r1 r' w' where r: "reaches sample_options sample_request (sample_world 0) = Some (sample_id, r1, r', w')"
    "\<And>fate. stages sample_options (sample_handler fate) r' w' = sample_handler fate r' w'" by (rule sample_reaches) blast
  have p: "o_end (stages sample_options (sample_handler Returns) r' w') = Returns" "orderly (o_ops (stages sample_options (sample_handler Returns) r' w'))"
    by (simp_all add: r(2) sample_handler_def orderly_def header_op_def final_op_def)
  have "canonical ''ETag'' = ''Etag''" by code_simp
  then have "received (HSet CorrelationHeader (String sample_id) # o_ops (stages sample_options (sample_handler Returns) r' w'))
      = (201, [(''X-Correlation-Id'', [String sample_id]), (''Etag'', [''v1''])], ''secret'')"
    by (simp add: r(2) sample_handler_def received_def header_set_def header_keys wire_status_def body_allowed_def)
  with chain_transparent[OF r(1) p] show ?thesis by simp
qed

theorem shed_before_stages_witness:
  "w_app (o_world (Chain sample_options (sample_handler Returns) sample_request (sample_world 2))) = 0
     \<and> fst (received (o_ops (Chain sample_options (sample_handler Returns) sample_request (sample_world 2)))) = 503"
proof -
  obtain w1 where e: "ensure sample_request (sample_world 2) = Some (Inr (background\<lparr>ctx_correlation := Some sample_id\<rparr>, sample_id), w1)"
    using sample_ensure by blast
  have n: "0 \<le> sint (w_inFlight (sample_world 2))" "sint (w_inFlight (sample_world 2)) < 2 ^ 63 - 1" "2 \<le> sint (w_inFlight (sample_world 2))"
    by (simp_all add: sample_world_def)
  have o: "(2 :: int) = (if sint (opt_MaxInFlight sample_options) \<le> 0 then 256 else sint (opt_MaxInFlight sample_options))"
    "1000000000 = (if sint (opt_RetryAfter sample_options) \<le> 0 then 1000000000 else sint (opt_RetryAfter sample_options))"
    by (simp_all add: sample_options_def)
  from shed_before_stages[OF e sample_not_nil n(1,2) o, of "sample_handler Returns"] n(3) show ?thesis by (auto simp: sample_world_def)
qed

theorem shed_capacity_witness:
  "shed_run (opt_MaxInFlight (chain_defaults sample_options)) 2 1 3 \<and> sint (3 :: 64 word) = int 2 + int 1"
proof -
  let ?l = "opt_MaxInFlight (chain_defaults sample_options)"
  have l: "?l = 2" by (simp add: chain_defaults_def sample_options_def)
  have "shed_run ?l 1 0 1" using admit[of ?l 0 0 0 1] idle[of ?l] by (simp add: l shed_enter_def)
  then have "shed_run ?l (Suc 1) 0 2" by (rule admit) (simp_all add: l shed_enter_def)
  then have "shed_run ?l 2 0 2" by (simp add: numeral_2_eq_2)
  then have r: "shed_run ?l 2 1 3" using refuse[of ?l 2 0 2 3] by (simp add: l shed_enter_def)
  from shed_capacity[OF this] r show ?thesis by blast
qed

end
