(* ===== verification/Clientauth.thy ===== *)
theory Clientauth
  imports Verify Observability
begin

text \<open>
  \<^verbatim>\<open>src/clientauth\<close>: a workload's key, the assertion it signs with it, and the cache of the access token it is given. Reading PEM and DER, SHA-256, signing and
  \<^verbatim>\<open>url.Parse\<close> are arguments, as is the answer of the token endpoint.
\<close>

section \<open>Keys\<close>

definition MinKeyBits :: nat where "MinKeyBits = 3072"

definition AssertionType :: string where "AssertionType = ''urn:ietf:params:oauth:client-assertion-type:jwt-bearer''"

definition assertionLifetime :: duration where "assertionLifetime = 60000000000"

record 'k private_key =
  pk_public :: rsa_key
  pk_secret :: 'k

record 'k client_key =
  ck_ID :: string
  ck_private :: "'k private_key"

definition b64 :: "string \<Rightarrow> string" where
  "b64 = raw_url_encode"

text \<open>\<^verbatim>\<open>big.Int.Bytes\<close>: the absolute value, big endian, no leading zero.\<close>

fun nat_bytes :: "nat \<Rightarrow> string" where
  "nat_bytes n = (if n = 0 then '''' else nat_bytes (n div 256) @ [char_of (n mod 256)])"

declare nat_bytes.simps [simp del]

definition thumbprint_text :: "rsa_key \<Rightarrow> string" where
  \<open>thumbprint_text public =
     ''{"e":"'' @ b64 (nat_bytes (nat \<bar>Exponent public\<bar>)) @ ''","kty":"RSA","n":"'' @ b64 (nat_bytes (Modulus public)) @ ''"}''\<close>

definition Thumbprint :: "(string \<Rightarrow> string) \<Rightarrow> rsa_key \<Rightarrow> string" where
  "Thumbprint sha public = b64 (sha (thumbprint_text public))"

definition KeyFromRSA :: "(string \<Rightarrow> string) \<Rightarrow> 'k private_key option \<Rightarrow> 'k client_key result" where
  "KeyFromRSA sha private =
     (case private of
        None \<Rightarrow> Inl (New ''clientauth: a private key is required'')
      | Some p \<Rightarrow>
          if Modulus (pk_public p) < 2 ^ (MinKeyBits - 1) then Inl (New ''clientauth: the client key is too short'')
          else Inr \<lparr>ck_ID = Thumbprint sha (pk_public p), ck_private = p\<rparr>)"

definition ParseKey ::
  "(string \<Rightarrow> (string \<times> string) option) \<Rightarrow> (string \<Rightarrow> 'k private_key option option) \<Rightarrow> (string \<Rightarrow> 'k private_key option)
     \<Rightarrow> (string \<Rightarrow> string) \<Rightarrow> string \<Rightarrow> 'k client_key result" where
  "ParseKey pem_decode parse_pkcs8 parse_pkcs1 sha pemBytes =
     (case pem_decode pemBytes of
        None \<Rightarrow> Inl (New ''clientauth: the client key is not PEM'')
      | Some (kind, bytes) \<Rightarrow>
          if kind = ''PRIVATE KEY'' then
            (case parse_pkcs8 bytes of
               None \<Rightarrow> Inl (New ''clientauth: the client key is not a PKCS#8 key'')
             | Some None \<Rightarrow> Inl (New ''clientauth: the client key is not an RSA key'')
             | Some (Some p) \<Rightarrow> KeyFromRSA sha (Some p))
          else if kind = ''RSA PRIVATE KEY'' then
            (case parse_pkcs1 bytes of
               None \<Rightarrow> Inl (New ''clientauth: the client key is not a PKCS#1 key'')
             | Some p \<Rightarrow> KeyFromRSA sha (Some p))
          else Inl (New ''clientauth: not a private key PEM block''))"

definition LoadKey :: "(string \<Rightarrow> string result) \<Rightarrow> (string \<Rightarrow> 'k client_key result) \<Rightarrow> string \<Rightarrow> 'k client_key result" where
  "LoadKey read_file parse path =
     (case read_file path of Inl e \<Rightarrow> Inl (Wrapf ''clientauth: reading the client key'' [e]) | Inr raw \<Rightarrow> parse raw)"

section \<open>The assertion\<close>

definition unix_seconds :: "time \<Rightarrow> int" where
  "unix_seconds t = t div 1000000000 - 62135596800"

definition assertion_header :: "string \<Rightarrow> json" where
  "assertion_header kid = JObj [(''alg'', JStr ''PS256''), (''kid'', JStr kid), (''typ'', JStr ''JWT'')]"

definition assertion_claims :: "string \<Rightarrow> string \<Rightarrow> string \<Rightarrow> time \<Rightarrow> json" where
  "assertion_claims clientID audience nonce now =
     JObj [(''aud'', JStr audience), (''exp'', JNum (show_int (unix_seconds (time_Add now (sint assertionLifetime))))),
           (''iat'', JNum (show_int (unix_seconds now))), (''iss'', JStr clientID), (''jti'', JStr (b64 nonce)), (''sub'', JStr clientID)]"

text \<open>A map is marshalled with its keys in order; \<open>sign\<close> is RSASSA-PSS over SHA-256 and may fail.\<close>

definition Assertion ::
  "('k private_key \<Rightarrow> string \<Rightarrow> string result) \<Rightarrow> string result \<Rightarrow> 'k client_key \<Rightarrow> string \<Rightarrow> string \<Rightarrow> time \<Rightarrow> string result" where
  "Assertion sign random key clientID audience now =
     (if trim_space clientID = '''' then Inl (New ''clientauth: a client_id is required'')
      else if trim_space audience = '''' then Inl (New ''clientauth: an audience is required'')
      else case random of
        Inl e \<Rightarrow> Inl (Wrapf ''clientauth: minting a jti'' [e])
      | Inr nonce \<Rightarrow>
          (let input = b64 (write_json (assertion_header (ck_ID key))) @ ''.'' @ b64 (write_json (assertion_claims clientID audience nonce now)) in
           case sign (ck_private key) input of
             Inl e \<Rightarrow> Inl (Wrapf ''clientauth: signing the client assertion'' [e])
           | Inr signature \<Rightarrow> Inr (input @ ''.'' @ b64 signature)))"

section \<open>The token\<close>

definition ErrRejected :: goerror where "ErrRejected = New ''clientauth: the token endpoint rejected the client credential''"

definition ErrUnavailable :: goerror where "ErrUnavailable = New ''clientauth: no access token could be obtained''"

record 'k tokens_config =
  tk_TokenURL :: string
  tk_Audience :: string
  tk_ClientID :: string
  tk_Key :: "'k client_key option"
  tk_Leeway :: duration

record 'k tokens =
  tk_cfg :: "'k tokens_config"
  tk_token :: string
  tk_expiry :: time

definition NewTokens :: "(string \<Rightarrow> url option) \<Rightarrow> 'k tokens_config \<Rightarrow> 'k tokens result" where
  "NewTokens url_parse cfg =
     (case url_parse (trim_space (tk_TokenURL cfg)) of
        None \<Rightarrow> Inl (New ''clientauth: the token URL is not an absolute URL'')
      | Some u \<Rightarrow>
          if u_Scheme u = '''' \<or> u_Host u = '''' then Inl (New ''clientauth: the token URL is not an absolute URL'')
          else if trim_space (tk_Audience cfg) = '''' then Inl (New ''clientauth: the audience is required'')
          else if trim_space (tk_ClientID cfg) = '''' then Inl (New ''clientauth: a client_id is required'')
          else if tk_Key cfg = None then Inl (New ''clientauth: a client key is required'')
          else if sint (tk_Leeway cfg) < 0 then Inl (New ''clientauth: the leeway cannot be negative'')
          else Inr \<lparr>tk_cfg = cfg\<lparr>tk_TokenURL := u_String u, tk_Leeway := (if tk_Leeway cfg = 0 then 30000000000 else tk_Leeway cfg)\<rparr>,
                    tk_token = '''', tk_expiry = 0\<rparr>)"

text \<open>\<^verbatim>\<open>url.QueryEscape\<close> and \<^verbatim>\<open>Values.Encode\<close>, whose keys come in order.\<close>

definition upper_hex :: "nat \<Rightarrow> char" where
  "upper_hex n = (if n < 10 then char_of (48 + n) else char_of (55 + n))"

definition query_byte :: "char \<Rightarrow> string" where
  "query_byte c =
     (let n = (of_char c :: nat) in
      if 48 \<le> n \<and> n \<le> 57 \<or> 65 \<le> n \<and> n \<le> 90 \<or> 97 \<le> n \<and> n \<le> 122 \<or> c \<in> set ''-_.~'' then [c]
      else if c = CHR '' '' then ''+''
      else [CHR ''%'', upper_hex (n div 16), upper_hex (n mod 16)])"

definition query_escape :: "string \<Rightarrow> string" where
  "query_escape s = concat (map query_byte s)"

definition token_form :: "string \<Rightarrow> string \<Rightarrow> string" where
  "token_form clientID assertion =
     ''client_assertion='' @ query_escape assertion @ ''&client_assertion_type='' @ query_escape AssertionType
     @ ''&client_id='' @ query_escape clientID @ ''&grant_type=client_credentials''"

record tokenResponse =
  tr_AccessToken :: string
  tr_ExpiresIn :: int

definition set_response :: "string \<Rightarrow> json \<Rightarrow> tokenResponse \<Rightarrow> tokenResponse result" where
  "set_response f v w =
     (if f = ''access_token'' then map_sum id (\<lambda>s. w\<lparr>tr_AccessToken := s\<rparr>) (decode_string v (tr_AccessToken w))
      else map_sum id (\<lambda>n. w\<lparr>tr_ExpiresIn := n\<rparr>) (decode_int64 v (tr_ExpiresIn w)))"

definition decode_response :: "string \<Rightarrow> tokenResponse result" where
  "decode_response body =
     (case parse_json body of
        None \<Rightarrow> Inl (New ''json: syntax error'')
      | Some j \<Rightarrow> decode_struct set_response [''access_token'', ''expires_in''] j \<lparr>tr_AccessToken = '''', tr_ExpiresIn = 0\<rparr>)"

definition maxTokenBytes :: nat where "maxTokenBytes = 1048576"

text \<open>What the endpoint granted, or why there is no token.\<close>

definition grant_of :: "http_answer \<Rightarrow> tokenResponse result" where
  "grant_of answer =
     (case answer of
        NoRequest \<Rightarrow> Inl (Wrapf ''clientauth: building the token request'' [New ''net/http''])
      | Unreachable \<Rightarrow> Inl (Wrapf ''clientauth: the token endpoint is unreachable'' [ErrUnavailable])
      | Truncated _ \<Rightarrow> Inl (Wrapf ''clientauth: the token response was truncated'' [ErrUnavailable])
      | Answer status body \<Rightarrow>
          if status = 400 \<or> status = 401 \<or> status = 403 then Inl (Wrapf ''clientauth: answered'' [ErrRejected])
          else if status < 200 \<or> status \<ge> 300 then Inl (Wrapf ''clientauth: the token endpoint answered'' [ErrUnavailable])
          else (case decode_response (take maxTokenBytes body) of
              Inl _ \<Rightarrow> Inl (Wrapf ''clientauth: the token response carried no access token'' [ErrUnavailable])
            | Inr d \<Rightarrow>
                if tr_AccessToken d = '''' then Inl (Wrapf ''clientauth: the token response carried no access token'' [ErrUnavailable])
                else Inr d))"

text \<open>A held token that is not within the leeway of its expiry, and the acquisition of another.\<close>

definition usable :: "'k tokens \<Rightarrow> time \<Rightarrow> bool" where
  "usable st now \<longleftrightarrow> tk_token st \<noteq> '''' \<and> time_Add now (sint (tk_Leeway (tk_cfg st))) < tk_expiry st"

definition acquire ::
  "('k private_key \<Rightarrow> string \<Rightarrow> string result) \<Rightarrow> string result \<Rightarrow> (string \<Rightarrow> string \<Rightarrow> http_answer) \<Rightarrow> time \<Rightarrow> 'k tokens_config
     \<Rightarrow> tokenResponse result" where
  "acquire sign random post now cfg =
     (case tk_Key cfg of
        None \<Rightarrow> Inl (New ''panic: nil key'')
      | Some key \<Rightarrow>
          bind_result (Assertion sign random key (tk_ClientID cfg) (tk_Audience cfg) now) (\<lambda>assertion.
            grant_of (post (tk_TokenURL cfg) (token_form (tk_ClientID cfg) assertion))))"

definition Token ::
  "('k private_key \<Rightarrow> string \<Rightarrow> string result) \<Rightarrow> string result \<Rightarrow> (string \<Rightarrow> string \<Rightarrow> http_answer) \<Rightarrow> time \<Rightarrow> 'k tokens
     \<Rightarrow> string result \<times> 'k tokens" where
  "Token sign random post now st =
     (if usable st now then (Inr (tk_token st), st)
      else case acquire sign random post now (tk_cfg st) of
        Inl e \<Rightarrow> (Inl e, st)
      | Inr d \<Rightarrow>
          if tr_ExpiresIn d \<le> 0 then (Inr (tr_AccessToken d), st\<lparr>tk_token := '''', tk_expiry := 0\<rparr>)
          else (Inr (tr_AccessToken d),
                st\<lparr>tk_token := tr_AccessToken d,
                   tk_expiry := time_Add now (sint (word_of_int (tr_ExpiresIn d) * 1000000000 :: duration))\<rparr>))"

definition Invalidate :: "'k tokens \<Rightarrow> 'k tokens" where
  "Invalidate st = st\<lparr>tk_token := '''', tk_expiry := 0\<rparr>"

section \<open>An assertion is a token the verifier accepts\<close>

lemma unix_roundtrip:
  assumes "0 \<le> t" "t < 2 ^ 62 * 1000000000"
  shows "unix_or_zero (Some (unix_seconds t)) = t div 1000000000 * 1000000000" "- (2 ^ 63) \<le> unix_seconds t" "unix_seconds t < 2 ^ 63"
proof -
  have r: "0 \<le> t div 1000000000" "t div 1000000000 < 2 ^ 62" using assms div_seconds[of t "2 ^ 62"] by (auto simp: pos_imp_zdiv_nonneg_iff)
  then show "- (2 ^ 63) \<le> unix_seconds t" "unix_seconds t < 2 ^ 63" by (simp_all add: unix_seconds_def)
  have "sint (word_of_int (t div 1000000000) :: 64 word) = t div 1000000000" using r by (intro sint_word_of_int_small) auto
  then show "unix_or_zero (Some (unix_seconds t)) = t div 1000000000 * 1000000000" by (simp add: unix_or_zero_def time_Unix_def unix_seconds_def)
qed

lemma encoded_nonempty: "raw_url_encode s = '''' \<longleftrightarrow> s = ''''"
proof -
  have "encode_values bs \<noteq> []" if "bs \<noteq> []" for bs using that by (cases bs rule: encode_values.cases) auto
  note e = this[of "map of_char s"]
  show ?thesis
  proof
    assume "raw_url_encode s = ''''"
    then have "encode_values (map of_char s) = []" by (simp add: raw_url_encode_def)
    then show "s = ''''" using e by blast
  qed (simp add: raw_url_encode_def)
qed

lemma assertion_utf8:
  "valid_utf8 ''alg''" "valid_utf8 ''PS256''" "valid_utf8 ''kid''" "valid_utf8 ''typ''" "valid_utf8 ''JWT''" "valid_utf8 ''aud''" "valid_utf8 ''exp''"
  "valid_utf8 ''iat''" "valid_utf8 ''iss''" "valid_utf8 ''jti''" "valid_utf8 ''sub''"
  by code_simp+

lemma assertion_decoded:
  assumes "valid_utf8 kid" "valid_utf8 clientID" "valid_utf8 audience" "0 \<le> now" "now + 60000000000 < 2 ^ 62 * 1000000000"
  defines "sec \<equiv> now div 1000000000 * 1000000000"
  shows "decode_header (write_json (assertion_header kid)) = Inr \<lparr>h_Algorithm = ''PS256'', h_KeyID = kid, h_Type = ''JWT''\<rparr>"
    "\<exists>raw. decodeClaims (write_json (assertion_claims clientID audience nonce now)) = Inr
      \<lparr>Issuer = clientID, Subject = clientID, Audience = [audience], ExpiresAt = sec + 60000000000, IssuedAt = sec, NotBefore = 0, raw_claims = raw, headerType = ''''\<rparr>"
proof -
  have p: "parse_json (write_json (assertion_header kid)) = Some (assertion_header kid)"
    by (rule parse_write) (simp add: assertion_header_def assertion_utf8 assms maxNestingDepth_def)
  show "decode_header (write_json (assertion_header kid)) = Inr \<lparr>h_Algorithm = ''PS256'', h_KeyID = kid, h_Type = ''JWT''\<rparr>"
    unfolding decode_header_def p by (simp add: assertion_header_def decode_struct_def match_field_def set_header_def decode_string_def)
  have q: "parse_json (write_json (assertion_claims clientID audience nonce now)) = Some (assertion_claims clientID audience nonce now)"
    by (rule parse_write) (auto simp: assertion_claims_def assertion_utf8 assms maxNestingDepth_def b64_def encoded_text)
  have a: "time_Add now (sint assertionLifetime) = now + 60000000000" using assms(4,5) by (simp add: assertionLifetime_def time_Add_exact)
  have "(now + 60000000000) div 1000000000 = now div 1000000000 + 60" by simp
  then have u: "unix_or_zero (Some (unix_seconds (now + 60000000000))) = sec + 60000000000" "unix_or_zero (Some (unix_seconds now)) = sec"
    using unix_roundtrip(1)[of "now + 60000000000"] unix_roundtrip(1)[of now] assms(4,5) by (simp_all add: sec_def)
  let ?fields = "[''iss'', ''sub'', ''exp'', ''iat'', ''nbf'']"
  have m: "match_field ?fields ''aud'' = None" "match_field ?fields ''jti'' = None" by code_simp+
  have f: "f \<in> set ?fields \<Longrightarrow> match_field ?fields f = Some f" for f by (simp add: match_field_def)
  have r: "decode_registered (assertion_claims clientID audience nonce now) = Inr \<lparr>g_Issuer = clientID, g_Subject = clientID,
      g_ExpiresAt = Some (unix_seconds (now + 60000000000)), g_IssuedAt = Some (unix_seconds now), g_NotBefore = None\<rparr>"
    using unix_roundtrip(2,3)[of "now + 60000000000"] unix_roundtrip(2,3)[of now] assms(4,5)
    by (simp add: decode_registered_def assertion_claims_def a decode_struct_def m f set_registered_def decode_string_def decode_int64_ptr_def)
  show "\<exists>raw. decodeClaims (write_json (assertion_claims clientID audience nonce now)) = Inr
      \<lparr>Issuer = clientID, Subject = clientID, Audience = [audience], ExpiresAt = sec + 60000000000, IssuedAt = sec, NotBefore = 0, raw_claims = raw, headerType = ''''\<rparr>"
    unfolding decodeClaims_def q
    by (simp add: r) (simp add: assertion_claims_def decode_raw_map_def decodeAudience_def decode_string_def u unix_or_zero_def[of None])
qed

text \<open>
  C19: What a workload signs, the verifier of this module accepts: an assertion made by Assertion with a key of KeyFromRSA is accepted by a verifier that holds the key's public half under
  its thumbprint and is configured with the client as issuer and with the same audience, at every moment from the skew before the assertion was made until the skew after its
  sixty seconds are over; and the claims it reads are the client as issuer and subject, the audience alone, and the two times.
\<close>

theorem assertion_verifies:
  assumes "KeyFromRSA sha (Some private) = Inr key" "Assertion sign (Inr nonce) key clientID audience now = Inr token"
    "\<And>m s. sign private m = Inr s \<Longrightarrow> pss (pk_public private) m s"
    "New_verifier False cfg0 = Inr cfg" "v_Issuer cfg0 = clientID" "v_Audience cfg0 = audience" "\<not> v_RequireAccessTokenType cfg" "v_Requirement cfg = Some require"
    "\<And>c. Subject c = clientID \<Longrightarrow> require c = Inr ()"
    "lookup ks (ck_ID key) = Some (pk_public private)" "\<And>x. length (sha x) = 32"
    "valid_utf8 clientID" "valid_utf8 audience" "0 < now" "now < 2 ^ 61 * 1000000000"
    "now - sint (v_MaxSkew cfg) \<le> later" "later \<le> now div 1000000000 * 1000000000 + 60000000000 + sint (v_MaxSkew cfg)"
  shows "\<exists>c. Verify lookup refetch pss cfg later token ks = (Inr c, ks) \<and> Issuer c = clientID \<and> Subject c = clientID \<and> Audience c = [audience]
     \<and> ExpiresAt c = now div 1000000000 * 1000000000 + 60000000000 \<and> IssuedAt c = now div 1000000000 * 1000000000"
proof -
  let ?sec = "now div 1000000000 * 1000000000"
  let ?head = "\<lparr>h_Algorithm = ''PS256'', h_KeyID = ck_ID key, h_Type = ''JWT''\<rparr>"
  let ?h = "write_json (assertion_header (ck_ID key))" and ?p = "write_json (assertion_claims clientID audience nonce now)"
  have "sha x \<noteq> ''''" for x using assms(11)[of x] by auto
  then have key: "ck_private key = private" "valid_utf8 (ck_ID key)" "ck_ID key \<noteq> ''''"
    using assms(1) by (auto simp: KeyFromRSA_def Thumbprint_def b64_def encoded_text encoded_nonempty split: if_splits)
  obtain s where s: "sign private (raw_url_encode ?h @ ''.'' @ raw_url_encode ?p) = Inr s" "token = compact ?h ?p s"
    using assms(2) key(1) by (auto simp: Assertion_def b64_def compact_def Let_def split: if_splits sum.splits)
  note cfg = New_verifier_Inr[OF assms(4)]
  have n: "sint (- v_MaxSkew cfg) = - sint (v_MaxSkew cfg)" using cfg(4) by (intro sint_neg) simp
  have sec: "?sec \<le> now" "0 \<le> ?sec" using assms(14) div_mult_mod_eq[of now 1000000000] pos_mod_sign[of 1000000000 now] by (linarith, simp add: pos_imp_zdiv_nonneg_iff)
  note d = assertion_decoded[OF key(2) assms(12,13), of now]
  obtain raw where c0: "decodeClaims ?p = Inr \<lparr>Issuer = clientID, Subject = clientID, Audience = [audience], ExpiresAt = ?sec + 60000000000, IssuedAt = ?sec,
      NotBefore = 0, raw_claims = raw, headerType = ''''\<rparr>" (is "_ = Inr ?c0")
    using d(2) assms(14,15) by auto
  have "decode_header ?h = Inr ?head" using d(1) assms(14,15) by simp
  moreover have "check_header cfg ?head = Inr ()" unfolding check_header_Inr type_ok_def using assms(7) key(3) by (simp add: lower_types(3)[simplified])
  moreover have "pss (pk_public private) (raw_url_encode ?h @ ''.'' @ raw_url_encode ?p) s" using assms(3) s(1) by blast
  ultimately have v: "Verify lookup refetch pss cfg later token ks = (verify_payload cfg later ?head (raw_url_encode ?p), ks)"
    unfolding s(2) using assms(10) by (intro Verify_compact) auto
  let ?c = "?c0\<lparr>headerType := ''JWT''\<rparr>"
  have "time_Add (?sec + 60000000000) (sint (v_MaxSkew cfg)) = ?sec + 60000000000 + sint (v_MaxSkew cfg)"
    "time_Add ?sec (- sint (v_MaxSkew cfg)) = ?sec - sint (v_MaxSkew cfg)"
    using sec cfg(4,5) assms(15) by (simp_all add: time_Add_exact)
  then have "in_time cfg later ?c" using assms(16,17) sec by (simp add: in_time_def n)
  then have "checkRegistered cfg later ?c = Inr ()" unfolding checkRegistered_Inr using cfg(1,2) assms(5,6) by simp
  then have "verify_payload cfg later ?head (raw_url_encode ?p) = Inr ?c"
    unfolding verify_payload_Inr using c0 assms(8,9) by auto
  with v show ?thesis by (intro exI[of _ ?c]) simp
qed

definition sample_private :: "unit private_key" where
  "sample_private = \<lparr>pk_public = sample_rsa, pk_secret = ()\<rparr>"

definition sample_sha :: "string \<Rightarrow> string" where
  "sample_sha s = replicate 32 (CHR ''h'')"

definition sample_client :: "unit client_key" where
  "sample_client = \<lparr>ck_ID = Thumbprint sample_sha sample_rsa, ck_private = sample_private\<rparr>"

definition sample_issuer :: config where
  "sample_issuer = \<lparr>v_Issuer = ''svc'', v_Audience = ''billing'', v_Requirement = Some (\<lambda>c. if Subject c = ''svc'' then Inr () else Inl (New ''other'')),
     v_RequireAccessTokenType = False, v_MaxSkew = 30000000000\<rparr>"

theorem assertion_verifies_witness:
  "\<exists>token c. Assertion (\<lambda>_ _. Inr ''signature'') (Inr ''n'') sample_client ''svc'' ''billing'' sample_now = Inr token
     \<and> Verify static_Key static_Refetch (\<lambda>key _ sig. odd (Exponent key) \<and> sig = ''signature'') sample_issuer sample_now token [ck_ID sample_client \<mapsto> sample_rsa]
         = (Inr c, [ck_ID sample_client \<mapsto> sample_rsa]) \<and> Subject c = ''svc''"
proof -
  have key: "KeyFromRSA sample_sha (Some sample_private) = Inr sample_client"
    by (simp add: KeyFromRSA_def sample_private_def sample_client_def MinKeyBits_def) (simp add: sample_rsa_def)
  have tr: "trim_space ''svc'' \<noteq> ''''" "trim_space ''billing'' \<noteq> ''''" "valid_utf8 ''svc''" "valid_utf8 ''billing''" by code_simp+
  then obtain token where t: "Assertion (\<lambda>_ _. Inr ''signature'') (Inr ''n'') sample_client ''svc'' ''billing'' sample_now = Inr token"
    by (simp add: Assertion_def Let_def)

  have v: "New_verifier False sample_issuer = Inr sample_issuer"
    using tr by (simp add: New_verifier_def validate_def applyDefaults_def sample_issuer_def maxSkewCeiling_def)
  have "\<exists>c. Verify static_Key static_Refetch (\<lambda>key _ sig. odd (Exponent key) \<and> sig = ''signature'') sample_issuer sample_now token [ck_ID sample_client \<mapsto> sample_rsa]
         = (Inr c, [ck_ID sample_client \<mapsto> sample_rsa]) \<and> Issuer c = ''svc'' \<and> Subject c = ''svc'' \<and> Audience c = [''billing'']
     \<and> ExpiresAt c = sample_now div 1000000000 * 1000000000 + 60000000000 \<and> IssuedAt c = sample_now div 1000000000 * 1000000000"
    by (rule assertion_verifies[OF key t _ v, where require = "\<lambda>c. if Subject c = ''svc'' then Inr () else Inl (New ''other'')"])
      (simp_all add: tr sample_issuer_def sample_sha_def static_Key_def sample_private_def sample_now_def, simp_all add: sample_rsa_def)
  with t show ?thesis by blast
qed

section \<open>The token cache\<close>

text \<open>
  Every history of a cache: calls one after the other, since the mutex is held for the whole of one, with what the endpoint has granted so far: the token, the time of the
  call that asked for it and its lifetime in seconds.
\<close>

definition call_grants ::
  "('k private_key \<Rightarrow> string \<Rightarrow> string result) \<Rightarrow> string result \<Rightarrow> (string \<Rightarrow> string \<Rightarrow> http_answer) \<Rightarrow> time \<Rightarrow> 'k tokens
     \<Rightarrow> (string \<times> time \<times> int) list" where
  "call_grants sign random post now st =
     (if usable st now then []
      else case acquire sign random post now (tk_cfg st) of Inl _ \<Rightarrow> [] | Inr d \<Rightarrow> [(tr_AccessToken d, now, tr_ExpiresIn d)])"

definition in_era :: "time \<Rightarrow> bool" where
  "in_era t \<longleftrightarrow> 0 \<le> t \<and> t < 2 ^ 61 * 1000000000"

inductive token_run :: "'k tokens \<Rightarrow> (string \<times> time \<times> int) list \<Rightarrow> bool" where
  built: "NewTokens url_parse cfg = Inr st \<Longrightarrow> token_run st []"
| called: "token_run st grants \<Longrightarrow> in_era now \<Longrightarrow> Token sign random post now st = (res, st') \<Longrightarrow>
    token_run st' (call_grants sign random post now st @ grants)"
| dropped: "token_run st grants \<Longrightarrow> token_run (Invalidate st) grants"

lemma lifetime_le: "0 < n \<Longrightarrow> sint (word_of_int n * 1000000000 :: duration) \<le> n * 1000000000"
proof -
  assume n: "0 < n"
  have "sint (word_of_int n * 1000000000 :: duration) = sint (word_of_int (n * 1000000000) :: duration)" by simp
  also have "sint (word_of_int (n * 1000000000) :: duration) \<le> n * 1000000000" if "\<And>m. 0 \<le> m \<Longrightarrow> sint (word_of_int m :: duration) \<le> m"
    using that[of "n * 1000000000"] n by simp
  finally have fin: "(\<And>m. 0 \<le> m \<Longrightarrow> sint (word_of_int m :: duration) \<le> m) \<Longrightarrow> sint (word_of_int n * 1000000000 :: duration) \<le> n * 1000000000" .
  have "sint (word_of_int m :: duration) \<le> m" if "0 \<le> m" for m
  proof (cases "m < 2 ^ 63")
    case True
    then show ?thesis using that by (simp add: sint_word_of_int_small)
  next
    case False
    then show ?thesis using sint_lt[of "word_of_int m :: duration"] by simp
  qed
  then show ?thesis by (rule fin)
qed

lemma expiry_le:
  assumes "in_era t" "- (2 ^ 63) \<le> d" "d < 2 ^ 63"
  shows "time_Add t d = t + d"
  using assms by (intro time_Add_exact) (auto simp: in_era_def)

lemma token_run_invariant:
  "token_run st grants \<Longrightarrow> 0 < sint (tk_Leeway (tk_cfg st))
     \<and> (tk_token st \<noteq> '''' \<longrightarrow> (\<exists>t n. (tk_token st, t, n) \<in> set grants \<and> 0 < n \<and> tk_expiry st \<le> t + n * 1000000000))"
proof (induction rule: token_run.induct)
  case (built url_parse cfg st)
  have "sint (tk_Leeway cfg) = 0 \<longleftrightarrow> tk_Leeway cfg = 0" by (metis of_int_0 of_int_sint scast_id signed_0)
  with built show ?case by (auto simp: NewTokens_def split: option.splits if_splits)
next
  case (called st grants now sign random post res st')
  show ?case
  proof (cases "usable st now")
    case True
    then show ?thesis using called by (auto simp: Token_def call_grants_def)
  next
    case False
    show ?thesis
    proof (cases "acquire sign random post now (tk_cfg st)")
      case (Inl e)
      then show ?thesis using called False by (auto simp: Token_def call_grants_def)
    next
      case (Inr d)
      let ?l = "sint (word_of_int (tr_ExpiresIn d) * 1000000000 :: duration)"
      have "time_Add now ?l = now + ?l" using called.hyps(2) sint_ge[of "word_of_int (tr_ExpiresIn d) * 1000000000 :: duration"]
          sint_lt[of "word_of_int (tr_ExpiresIn d) * 1000000000 :: duration"] by (intro expiry_le) simp_all
      then have e: "0 < tr_ExpiresIn d \<Longrightarrow> time_Add now ?l \<le> now + tr_ExpiresIn d * 1000000000" using lifetime_le[of "tr_ExpiresIn d"] by simp
      have g: "(tr_AccessToken d, now, tr_ExpiresIn d) \<in> set (call_grants sign random post now st @ grants)" using False Inr by (simp add: call_grants_def)
      show ?thesis
      proof (cases "tr_ExpiresIn d \<le> 0")
        case False
        then have "tk_token st' = tr_AccessToken d" "tk_expiry st' = time_Add now ?l" "tk_cfg st' = tk_cfg st"
          using called.hyps(3) \<open>\<not> usable st now\<close> Inr by (auto simp: Token_def)
        with g e False called.IH show ?thesis by (metis not_le_imp_less)
      qed (use called False Inr in \<open>auto simp: Token_def\<close>)
    qed
  qed
next
  case (dropped st grants)
  then show ?case by (simp add: Invalidate_def)
qed

text \<open>
  C18: The token cache never hands out a token it was not granted or one that is about to expire: in every history of calls and invalidations, a token it returns without asking the
  endpoint was granted with a stated lifetime of which more than the leeway is still left, although the lifetime is multiplied in 64 bits; a token with no lifetime is used once; a failed call
  changes nothing; a credential the endpoint refuses is told apart from an endpoint that has no answer; and after Invalidate the next call asks again.
\<close>

theorem token_cache_safe:
  assumes "token_run st grants" "in_era now" "Token sign random post now st = (res, st')"
  shows "(\<forall>tok. res = Inr tok \<longrightarrow>
      (\<exists>n. (tok, now, n) \<in> set (call_grants sign random post now st) \<and> (n \<le> 0 \<longrightarrow> tk_token st' = ''''))
      \<or> (\<exists>t n. (tok, t, n) \<in> set grants \<and> 0 < n \<and> now + sint (tk_Leeway (tk_cfg st)) < t + n * 1000000000))
    \<and> (\<forall>e. res = Inl e \<longrightarrow> st' = st)
    \<and> (\<forall>status body. (\<exists>e. grant_of (Answer status body) = Inl e \<and> is_error e ErrRejected) = (status \<in> {400, 401, 403}))
    \<and> \<not> usable (Invalidate st) now"
proof -
  note i = token_run_invariant[OF assms(1)]
  have l: "time_Add now (sint (tk_Leeway (tk_cfg st))) = now + sint (tk_Leeway (tk_cfg st))"
    using i assms(2) sint_lt[of "tk_Leeway (tk_cfg st)"] by (intro expiry_le) auto
  have r: "(\<exists>e. grant_of (Answer status body) = Inl e \<and> is_error e ErrRejected) = (status \<in> {400, 401, 403})" for status body
    by (auto simp: grant_of_def ErrRejected_def ErrUnavailable_def split: sum.splits if_splits)
  have c: "\<exists>t n. (tok, t, n) \<in> set grants \<and> 0 < n \<and> now + sint (tk_Leeway (tk_cfg st)) < t + n * 1000000000" if "usable st now" "tok = tk_token st" for tok
    using i that l by (force simp: usable_def)
  have v: "\<not> usable (Invalidate st) now" by (simp add: usable_def Invalidate_def)
  show ?thesis
  proof (cases "usable st now")
    case True
    then show ?thesis using assms(3) c r v by (simp add: Token_def) blast
  next
    case False
    then show ?thesis
      using assms(3) r v by (cases "acquire sign random post now (tk_cfg st)") (auto simp: Token_def call_grants_def split: if_splits)
  qed
qed

definition sample_tokens :: "unit tokens" where
  "sample_tokens = \<lparr>tk_cfg = \<lparr>tk_TokenURL = ''https://issuer/token'', tk_Audience = ''billing'', tk_ClientID = ''svc'', tk_Key = Some sample_client, tk_Leeway = 30000000000\<rparr>,
     tk_token = '''', tk_expiry = 0\<rparr>"

definition sample_grant :: string where
  "sample_grant = write_json (JObj [(''access_token'', JStr ''abc''), (''expires_in'', JNum (show_int 300))])"

lemma sample_granted: "grant_of (Answer 200 sample_grant) = Inr \<lparr>tr_AccessToken = ''abc'', tr_ExpiresIn = 300\<rparr>"
proof -
  let ?j = "JObj [(''access_token'', JStr ''abc''), (''expires_in'', JNum (show_int 300))]"
  have u: "valid_utf8 ''access_token''" "valid_utf8 ''abc''" "valid_utf8 ''expires_in''" by code_simp+
  have "parse_json sample_grant = Some ?j" unfolding sample_grant_def by (rule parse_write) (auto simp: u maxNestingDepth_def)
  moreover have "length sample_grant \<le> 100" by code_simp
  ultimately show ?thesis
    by (simp add: grant_of_def decode_response_def maxTokenBytes_def decode_struct_def match_field_def set_response_def decode_string_def)
qed

theorem token_cache_safe_witness:
  "\<exists>st. Token (\<lambda>_ _. Inr ''signature'') (Inr ''n'') (\<lambda>_ _. Answer 200 sample_grant) 1000000000 sample_tokens = (Inr ''abc'', st)
     \<and> Token (\<lambda>_ _. Inr ''signature'') (Inr ''n'') (\<lambda>_ _. Unreachable) 200000000000 st = (Inr ''abc'', st)"
proof -
  let ?sign = "\<lambda>_ _. Inr ''signature''" and ?st = "sample_tokens\<lparr>tk_token := ''abc'', tk_expiry := 301000000000\<rparr>"
  let ?post = "\<lambda>_ _. Answer 200 sample_grant"
  have tr: "trim_space ''svc'' \<noteq> ''''" "trim_space ''billing'' \<noteq> ''''" by code_simp+
  then have a: "acquire ?sign (Inr ''n'') ?post 1000000000 (tk_cfg sample_tokens) = Inr \<lparr>tr_AccessToken = ''abc'', tr_ExpiresIn = 300\<rparr>"
    by (simp add: acquire_def sample_tokens_def Assertion_def Let_def sample_granted)
  have u: "\<not> usable sample_tokens 1000000000" by (simp add: usable_def sample_tokens_def)
  have t1: "Token ?sign (Inr ''n'') ?post 1000000000 sample_tokens = (Inr ''abc'', ?st)"
    using u by (simp add: Token_def a time_Add_def)
  have "NewTokens (\<lambda>s. Some \<lparr>u_Scheme = ''https'', u_Host = ''issuer'', u_String = ''https://issuer/token''\<rparr>) (tk_cfg sample_tokens) = Inr sample_tokens"
    using tr by (simp add: NewTokens_def sample_tokens_def)
  from called[OF built[OF this] _ t1]
  have run: "token_run ?st (call_grants ?sign (Inr ''n'') ?post 1000000000 sample_tokens @ [])" by (simp add: in_era_def)
  have "usable ?st 200000000000" by (simp add: usable_def sample_tokens_def time_Add_def)
  then have t2: "Token ?sign (Inr ''n'') (\<lambda>_ _. Unreachable) 200000000000 ?st = (Inr ''abc'', ?st)" by (simp add: Token_def)
  have "\<not> usable (Invalidate ?st) 200000000000" using token_cache_safe[OF run _ t2] by (simp add: in_era_def)
  with t1 t2 show ?thesis by blast
qed

end
