(* ===== verification/Httpdelivery.thy ===== *)
theory Httpdelivery
  imports Clientauth Envelope Dispatcher
begin

text \<open>
  \<^verbatim>\<open>src/outbox/httpdelivery\<close>: the publisher that posts an envelope to one consumer. The interface \<^verbatim>\<open>TokenSource\<close> is the locale
  \<open>token_source\<close>, which the static token and the token cache of \<^verbatim>\<open>clientauth\<close> interpret; the consumer's answer is an argument.
\<close>

definition maxDetail :: nat where "maxDetail = 4096"

section \<open>Token sources\<close>

definition static_token :: "string \<Rightarrow> string result \<times> string" where
  "static_token s = (Inr s, s)"

definition static_invalidate :: "string \<Rightarrow> string" where
  "static_invalidate s = s"

section \<open>The publisher\<close>

text \<open>A configured token source: nil, a static token or another one.\<close>

datatype token_kind = NoTokens | StaticToken string | OtherTokens

record delivery_config =
  dl_Endpoint :: string
  dl_Tokens :: token_kind
  dl_Timeout :: duration
  dl_Telemetry :: bool

record publisher =
  pub_endpoint :: string
  pub_tokens :: token_kind
  pub_timeout :: duration

definition NewPublisher :: "(string \<Rightarrow> url option) \<Rightarrow> delivery_config \<Rightarrow> publisher result" where
  "NewPublisher url_parse cfg =
     (let trimmed = trim_space (dl_Endpoint cfg) in
      if trimmed = '''' then Inl (New ''httpdelivery: the consumer endpoint is required'')
      else if (case url_parse trimmed of None \<Rightarrow> True | Some u \<Rightarrow> u_Scheme u = '''' \<or> u_Host u = '''')
      then Inl (New ''httpdelivery: not an absolute URL'')
      else if dl_Tokens cfg = NoTokens then Inl (New ''httpdelivery: a delivery credential is required'')
      else if (case dl_Tokens cfg of StaticToken s \<Rightarrow> trim_space s = '''' | _ \<Rightarrow> False)
      then Inl (New ''httpdelivery: a delivery credential is required'')
      else if sint (dl_Timeout cfg) \<le> 0 then Inl (New ''httpdelivery: the publication timeout must be positive'')
      else if \<not> dl_Telemetry cfg then Inl (New ''httpdelivery: telemetry is required'')
      else Inr \<lparr>pub_endpoint = trimmed, pub_tokens = dl_Tokens cfg, pub_timeout = dl_Timeout cfg\<rparr>)"

text \<open>
  \<^verbatim>\<open>correlationOf\<close>: the context's identifier, else a valid one under the payload's \<^verbatim>\<open>correlation_id\<close>.
\<close>

definition set_correlation :: "string \<Rightarrow> json \<Rightarrow> json option \<Rightarrow> json option result" where
  "set_correlation f v w = Inr (Some v)"

definition payload_correlation :: "raw \<Rightarrow> string option" where
  "payload_correlation data =
     (case data of
        Document j \<Rightarrow>
          (case decode_struct set_correlation [''correlation_id''] j None of
             Inr (Some (JStr s)) \<Rightarrow> (case UnmarshalText Nil_uuid s of (u, Inr _) \<Rightarrow> if IsNil u then None else Some (String u) | _ \<Rightarrow> None)
           | _ \<Rightarrow> None)
      | _ \<Rightarrow> None)"

definition correlationOf :: "goctx \<Rightarrow> envelope \<Rightarrow> string option" where
  "correlationOf ctx env =
     (case CorrelationID ctx of Some u \<Rightarrow> Some (String u) | None \<Rightarrow> payload_correlation (e_Data env))"

text \<open>What is sent and what comes back.\<close>

record delivery_request =
  dr_url :: string
  dr_body :: json
  dr_authorization :: string
  dr_correlation :: "string option"

datatype delivery_answer = NotDelivered goerror | Responded int string string

definition refusal :: "int \<Rightarrow> string \<Rightarrow> goerror" where
  "refusal status detail =
     (let trimmed = trim_space (take maxDetail detail) in
      if status = 401 then Wrapf (''httpdelivery: the consumer refused the credential with 401: '' @ trimmed) []
      else if status = 400 \<or> status = 409 \<or> status = 422
      then Wrapf (''the consumer refused with '' @ show_int status @ '': '' @ trimmed) [ErrPoison]
      else Wrapf (''httpdelivery: the consumer answered '' @ show_int status @ '': '' @ trimmed) [])"

text \<open>\<^verbatim>\<open>http.NewRequestWithContext\<close> fails before the token is asked for, with the error \<open>not_built\<close>.\<close>

definition Publish ::
  "('s \<Rightarrow> string result \<times> 's) \<Rightarrow> ('s \<Rightarrow> 's) \<Rightarrow> (delivery_request \<Rightarrow> delivery_answer) \<Rightarrow> goerror option \<Rightarrow> publisher \<Rightarrow> goctx \<Rightarrow> envelope \<Rightarrow> 's
     \<Rightarrow> receipt result \<times> 's" where
  "Publish token invalidate deliver not_built p ctx env tokens =
     (case MarshalJSON env of
        Inl _ \<Rightarrow> (Inl (Wrapf ''encoding'' [ErrPoison]), tokens)
      | Inr body \<Rightarrow>
          (case not_built of
             Some e \<Rightarrow> (Inl (Wrapf ''httpdelivery: building the delivery'' [e]), tokens)
           | None \<Rightarrow>
               (case token tokens of
                  (Inl e, tokens') \<Rightarrow> (Inl (Wrapf ''httpdelivery: obtaining the delivery credential'' [e]), tokens')
                | (Inr t, tokens') \<Rightarrow>
                    (case deliver \<lparr>dr_url = pub_endpoint p, dr_body = body, dr_authorization = ''Bearer '' @ t, dr_correlation = correlationOf ctx env\<rparr> of
                       NotDelivered e \<Rightarrow> (Inl (Wrapf ''httpdelivery: delivering'' [e]), tokens')
                     | Responded status marker detail \<Rightarrow>
                         if 200 \<le> status \<and> status < 300 then (Inr (ReceiptFromMarker marker), tokens')
                         else (Inl (refusal status detail), if status = 401 then invalidate tokens' else tokens')))))"

section \<open>What a publication does\<close>

text \<open>The request of a delivery, and when one is poison.\<close>

definition delivery_of :: "publisher \<Rightarrow> goctx \<Rightarrow> envelope \<Rightarrow> json \<Rightarrow> string \<Rightarrow> delivery_request" where
  "delivery_of p ctx env body t =
     \<lparr>dr_url = pub_endpoint p, dr_body = body, dr_authorization = ''Bearer '' @ t, dr_correlation = correlationOf ctx env\<rparr>"

definition poison_status :: "int \<Rightarrow> bool" where
  "poison_status status \<longleftrightarrow> status = 400 \<or> status = 409 \<or> status = 422"

lemma refusal_class: "classify (refusal status detail) = FailurePoison \<longleftrightarrow> poison_status status"
  by (auto simp: refusal_def classify_def poison_status_def ErrPoison_def Let_def)

lemma wrapped_class: "\<not> is_error e ErrPoison \<Longrightarrow> classify (Wrapf m [e]) = FailureUnavailable"
  by (simp add: classify_def ErrPoison_def)

lemma poison_class: "classify (Wrapf m [ErrPoison]) = FailurePoison"
  by (simp add: classify_def ErrPoison_def)

lemma dead_letters_poison: "decide c prio n limit = DispositionDeadLetter \<longleftrightarrow> c = FailurePoison"
  by (simp add: decide_def)

lemma Publish_Inr:
  "fst (Publish token invalidate deliver not_built p ctx env tokens) = Inr r \<longleftrightarrow>
     (\<exists>body t status marker detail. MarshalJSON env = Inr body \<and> not_built = None \<and> fst (token tokens) = Inr t
        \<and> deliver (delivery_of p ctx env body t) = Responded status marker detail \<and> 200 \<le> status \<and> status < 300
        \<and> r = ReceiptFromMarker marker)"
  by (auto simp: Publish_def delivery_of_def split: sum.splits option.splits prod.splits delivery_answer.splits)

text \<open>What a source of credentials promises a publisher: its failures are about the credential, never about the event.\<close>

locale token_source =
  fixes token :: "'s \<Rightarrow> string result \<times> 's" and invalidate :: "'s \<Rightarrow> 's"
  assumes token_error: "fst (token s) = Inl e \<Longrightarrow> \<not> is_error e ErrPoison"
begin

lemma publish_dead_letters:
  assumes "fst (Publish token invalidate deliver not_built p ctx env tokens) = Inl e"
    and transport: "\<And>req f. deliver req = NotDelivered f \<Longrightarrow> \<not> is_error f ErrPoison"
    and built: "\<And>f. not_built = Some f \<Longrightarrow> \<not> is_error f ErrPoison"
  shows "classify e = FailurePoison \<longleftrightarrow>
    (\<forall>body. MarshalJSON env \<noteq> Inr body) \<or>
    (\<exists>body t status marker detail. MarshalJSON env = Inr body \<and> not_built = None \<and> fst (token tokens) = Inr t
       \<and> deliver (delivery_of p ctx env body t) = Responded status marker detail \<and> poison_status status)"
proof (cases "MarshalJSON env")
  case (Inl m)
  then show ?thesis using assms(1) by (auto simp: Publish_def poison_class)
next
  case body: (Inr body)
  show ?thesis
  proof (cases not_built)
    case (Some f)
    then show ?thesis using assms(1) body built by (auto simp: Publish_def wrapped_class)
  next
    case None
    obtain res tokens' where tok: "token tokens = (res, tokens')" by (cases "token tokens")
    show ?thesis
    proof (cases res)
      case (Inl f)
      then show ?thesis using assms(1) body None tok token_error[of tokens f] by (auto simp: Publish_def wrapped_class)
    next
      case (Inr t)
      then show ?thesis
        using assms(1) body None tok transport
        by (cases "deliver (delivery_of p ctx env body t)")
          (auto simp: Publish_def delivery_of_def wrapped_class refusal_class poison_status_def split: if_splits)
    qed
  qed
qed

end
interpretation static_credential: token_source static_token static_invalidate
  by unfold_locales (simp add: static_token_def)

text \<open>
  The failures of the cached source: the two of the standard library it wraps, \<^verbatim>\<open>rand.Read\<close> and \<^verbatim>\<open>rsa.SignPSS\<close>, and its own.
\<close>

definition signer :: "('k private_key \<Rightarrow> string \<Rightarrow> string option) \<Rightarrow> 'k private_key \<Rightarrow> string \<Rightarrow> string result" where
  "signer sig key msg = (case sig key msg of None \<Rightarrow> Inl (New ''crypto/rsa: message too long for RSA key size'') | Some s \<Rightarrow> Inr s)"

definition nonce_read :: "string option \<Rightarrow> string result" where
  "nonce_read random = (case random of None \<Rightarrow> Inl (New ''crypto/rand: read failed'') | Some s \<Rightarrow> Inr s)"

lemma grant_not_poison: "grant_of answer = Inl e \<Longrightarrow> \<not> is_error e ErrPoison"
  by (auto simp: grant_of_def ErrPoison_def ErrRejected_def ErrUnavailable_def split: http_answer.splits if_splits sum.splits)

lemma assertion_not_poison:
  "Assertion (signer sig) (nonce_read random) key client audience now = Inl e \<Longrightarrow> \<not> is_error e ErrPoison"
  by (auto simp: Assertion_def signer_def nonce_read_def ErrPoison_def Let_def split: if_splits option.splits sum.splits)

lemma acquire_not_poison: "acquire (signer sig) (nonce_read random) post now cfg = Inl e \<Longrightarrow> \<not> is_error e ErrPoison"
proof (cases "tk_Key cfg")
  case None
  assume "acquire (signer sig) (nonce_read random) post now cfg = Inl e"
  then show ?thesis using None by (auto simp: acquire_def ErrPoison_def)
next
  case (Some key)
  assume "acquire (signer sig) (nonce_read random) post now cfg = Inl e"
  then show ?thesis
    using Some grant_not_poison assertion_not_poison[of sig random key "tk_ClientID cfg" "tk_Audience cfg" now e]
    by (auto simp: acquire_def bind_result_def split: sum.splits)
qed

interpretation workload_credential: token_source "Token (signer sig) (nonce_read random) post now" Invalidate
  for sig :: "'k private_key \<Rightarrow> string \<Rightarrow> string option" and random post now
proof
  fix st :: "'k tokens" and e
  assume "fst (Token (signer sig) (nonce_read random) post now st) = Inl e"
  then show "\<not> is_error e ErrPoison"
    using acquire_not_poison[of sig random post now "tk_cfg st" e] by (auto simp: Token_def split: if_splits sum.splits)
qed

section \<open>The header a delivery carries\<close>

lemma payload_correlation_parses: "payload_correlation data = Some s \<Longrightarrow> \<exists>u. Parse s = Inr u \<and> \<not> IsNil u"
  by (auto simp: payload_correlation_def UnmarshalText_def split: raw.splits sum.splits option.splits json.splits if_splits prod.splits)
    (metis Parse_InrD Parse_String_wf)

lemma decode_correlation:
  assumes "\<forall>(k, v) \<in> set post. match_field [''correlation_id''] k = None"
  shows "decode_members set_correlation [''correlation_id''] (pre @ (''correlation_id'', j) # post) w = Inr (Some j)"
proof -
  have rest: "decode_members set_correlation [''correlation_id''] post w' = Inr w'" for w'
    using assms by (induction post arbitrary: w') auto
  have here: "match_field [''correlation_id''] ''correlation_id'' = Some ''correlation_id''" by code_simp
  show ?thesis
  proof (induction pre arbitrary: w)
    case Nil
    have "set_correlation ''correlation_id'' j w = Inr (Some j)" by (simp add: set_correlation_def)
    then show ?case by (simp add: here rest)
  next
    case (Cons m pre)
    then show ?case by (cases m) (auto simp: set_correlation_def split: option.splits)
  qed
qed

text \<open>
  C9: The status mapping of a delivery made with the credential of a workload, with a transport whose own failures do not claim to be poison. The
  dispatcher records the event as published exactly when the consumer answered 2xx, and with applied evidence exactly when that answer carried the
  marker; it dead-letters exactly when the envelope does not encode or the consumer answered 400, 409 or 422, at any priority and after any number of
  attempts, so a lost response, a missing credential, 401, 403 and 5xx never do; and the credential a consumer refused with 401 is not used again.
\<close>

theorem delivery_contract:
  assumes "Publish (Token (signer sig) (nonce_read random) post now) Invalidate deliver not_built p ctx env st = (res, st')"
    and "\<And>req f. deliver req = NotDelivered f \<Longrightarrow> \<not> is_error f ErrPoison"
    and "\<And>f. not_built = Some f \<Longrightarrow> \<not> is_error f ErrPoison"
  shows "(\<forall>r. res = Inr r \<longleftrightarrow> (\<exists>body t status marker detail. MarshalJSON env = Inr body \<and> not_built = None
        \<and> fst (Token (signer sig) (nonce_read random) post now st) = Inr t
        \<and> deliver (delivery_of p ctx env body t) = Responded status marker detail \<and> status \<in> {200..<300}
        \<and> r_evidence r = (if marker = ''applied'' then EvidenceConsumerApplied else EvidenceTransportAccepted)))
    \<and> (\<forall>e prio n limit. res = Inl e \<longrightarrow> (decide (classify e) prio n limit = DispositionDeadLetter \<longleftrightarrow>
        (\<forall>body. MarshalJSON env \<noteq> Inr body) \<or>
        (\<exists>body t status marker detail. MarshalJSON env = Inr body \<and> not_built = None
           \<and> fst (Token (signer sig) (nonce_read random) post now st) = Inr t
           \<and> deliver (delivery_of p ctx env body t) = Responded status marker detail \<and> status \<in> {400, 409, 422})))
    \<and> (\<forall>body t marker detail later. MarshalJSON env = Inr body \<and> not_built = None
           \<and> fst (Token (signer sig) (nonce_read random) post now st) = Inr t
           \<and> deliver (delivery_of p ctx env body t) = Responded 401 marker detail \<longrightarrow> \<not> usable st' later)"
proof (intro conjI allI impI)
  let ?tok = "Token (signer sig) (nonce_read random) post now"
  have res: "fst (Publish ?tok Invalidate deliver not_built p ctx env st) = res" using assms(1) by simp
  have receipt: "r = ReceiptFromMarker m \<longleftrightarrow> r_evidence r = (if m = ''applied'' then EvidenceConsumerApplied else EvidenceTransportAccepted)" for r m
    by (cases r) (simp add: ReceiptFromMarker_def ApplicationReceiptApplied_def)
  show "res = Inr r \<longleftrightarrow> (\<exists>body t status marker detail. MarshalJSON env = Inr body \<and> not_built = None \<and> fst (?tok st) = Inr t
        \<and> deliver (delivery_of p ctx env body t) = Responded status marker detail \<and> status \<in> {200..<300}
        \<and> r_evidence r = (if marker = ''applied'' then EvidenceConsumerApplied else EvidenceTransportAccepted))" for r
    unfolding res[symmetric] Publish_Inr receipt by (auto simp del: receipt)
  show "decide (classify e) prio n limit = DispositionDeadLetter \<longleftrightarrow>
      (\<forall>body. MarshalJSON env \<noteq> Inr body) \<or>
      (\<exists>body t status marker detail. MarshalJSON env = Inr body \<and> not_built = None \<and> fst (?tok st) = Inr t
         \<and> deliver (delivery_of p ctx env body t) = Responded status marker detail \<and> status \<in> {400, 409, 422})" if "res = Inl e" for e prio n limit
    using workload_credential.publish_dead_letters[OF res[unfolded that] assms(2,3)]
    by (simp add: dead_letters_poison poison_status_def)
  show "\<not> usable st' later" if "MarshalJSON env = Inr body \<and> not_built = None \<and> fst (?tok st) = Inr t
      \<and> deliver (delivery_of p ctx env body t) = Responded 401 marker detail" for body t marker detail later
    using that assms(1) by (auto simp: Publish_def delivery_of_def usable_def Invalidate_def split: prod.splits)
qed

definition sample_publisher :: publisher where
  "sample_publisher = \<lparr>pub_endpoint = ''https://consumer/events'', pub_tokens = OtherTokens, pub_timeout = 5000000000\<rparr>"

definition held_tokens :: "unit tokens" where
  "held_tokens = sample_tokens\<lparr>tk_token := ''abc'', tk_expiry := 301000000000\<rparr>"

theorem delivery_contract_witness:
  "\<exists>e. fst (Publish (Token (signer (\<lambda>_ _. None)) (nonce_read None) (\<lambda>_ _. Unreachable) 200000000000) Invalidate (\<lambda>_. Responded 422 '''' ''no'')
       None sample_publisher background sample_envelope held_tokens) = Inl e \<and> decide (classify e) 0 1 10 = DispositionDeadLetter"
proof -
  let ?tok = "Token (signer (\<lambda>_ _. None)) (nonce_read None) (\<lambda>_ _. Unreachable) 200000000000"
  have u: "usable held_tokens 200000000000" by (simp add: usable_def held_tokens_def sample_tokens_def time_Add_def)
  then have t: "?tok held_tokens = (Inr ''abc'', held_tokens)" by (simp add: Token_def held_tokens_def)
  have "\<exists>j. encode_wire (wire_of sample_envelope) = Inr j" by (simp add: encode_wire_def wire_of_def sample_envelope_def)
  then obtain j where j: "MarshalJSON sample_envelope = Inr j" using sample_valid by (auto simp: MarshalJSON_Inr)
  obtain res st' where p: "Publish ?tok Invalidate (\<lambda>_. Responded 422 '''' ''no'') None sample_publisher background sample_envelope held_tokens = (res, st')"
    by (meson surj_pair)
  from p t j obtain e where e: "res = Inl e" by (auto simp: Publish_def)
  have "decide (classify e) 0 1 10 = DispositionDeadLetter"
    using delivery_contract[OF p] e j t by auto
  with p e show ?thesis by auto
qed

text \<open>
  An event whose payload carries the metadata of the request that appended it is delivered under that request's correlation identifier, although the
  dispatcher publishes on a context that has none.
\<close>

lemma dispatched_correlation:
  assumes "CorrelationID ctx = None" "wf_uuid u" "\<not> IsNil u"
    "e_Data env = Document (JObj (pre @ (''correlation_id'', JStr (String u)) # post))"
    "\<forall>(k, v) \<in> set post. match_field [''correlation_id''] k = None"
  shows "correlationOf ctx env = Some (String u)"
  using assms decode_correlation[OF assms(5)]
  by (simp add: correlationOf_def payload_correlation_def decode_struct_def UnmarshalText_def Parse_String_wf)

lemma correlation_valid:
  assumes "correlationOf ctx env = Some s" "\<And>u. CorrelationID ctx = Some u \<Longrightarrow> wf_uuid u \<and> \<not> IsNil u"
  shows "\<exists>u. Parse s = Inr u \<and> \<not> IsNil u"
  using assms payload_correlation_parses[of "e_Data env" s]
  by (auto simp: correlationOf_def Parse_String_wf split: option.splits)

end
