(* ===== verification/JsonDecode.thy ===== *)
theory JsonDecode
  imports JsonText
begin

text \<open>Decoding arrays into slices, as \<^verbatim>\<open>encoding/json\<close> does it for the two command line tools, and that a parsed value takes at least one byte of its text.\<close>

text \<open>
  A slice: the backing array and the length. Decoding an array reuses the elements of the backing array; an empty array and \<^verbatim>\<open>null\<close> start afresh.
\<close>

type_synonym 'a slice = "'a list \<times> nat"

definition elements :: "'a slice \<Rightarrow> 'a list" where
  "elements w = take (snd w) (fst w)"

fun decode_into :: "(json \<Rightarrow> 'a \<Rightarrow> 'a result) \<Rightarrow> 'a \<Rightarrow> json list \<Rightarrow> 'a list \<Rightarrow> 'a list result" where
  "decode_into dec zero [] backing = Inr []"
| "decode_into dec zero (j # js) backing =
     bind_result (dec j (case backing of [] \<Rightarrow> zero | b # _ \<Rightarrow> b))
       (\<lambda>x. map_sum id (\<lambda>xs. x # xs) (decode_into dec zero js (drop 1 backing)))"

definition decode_slice :: "(json \<Rightarrow> 'a \<Rightarrow> 'a result) \<Rightarrow> 'a \<Rightarrow> json \<Rightarrow> 'a slice \<Rightarrow> 'a slice result" where
  "decode_slice dec zero v w =
     (case v of
        JNull \<Rightarrow> Inr ([], 0)
      | JArr js \<Rightarrow>
          if js = [] then Inr ([], 0)
          else map_sum id (\<lambda>xs. (xs @ drop (length xs) (fst w), length xs)) (decode_into dec zero js (fst w))
      | _ \<Rightarrow> Inl type_error)"

section \<open>A value takes a byte\<close>

lemma skip_space_le: "length (skip_space s) \<le> length s"
  by (simp add: skip_space_def length_dropWhile_le)

lemma lex_string_shorter: "lex_string s = Some (t, r) \<Longrightarrow> length r < length s"
proof (induction s arbitrary: t r rule: lex_string.induct)
  case 1
  then show ?case by simp
next
  case (2 c s)
  then show ?case
    by (fastforce dest: lex_unicode_shorter split: if_splits list.splits option.splits)
qed

lemma take_digits_le: "take_digits s = (a, r) \<Longrightarrow> length r \<le> length s"
  by (auto simp: take_digits_def length_dropWhile_le)

lemma lex_int_shorter: "lex_int s = Some (a, r) \<Longrightarrow> length r < length s"
  by (auto simp: lex_int_def take_digits_def length_dropWhile_le less_Suc_eq_le split: list.splits if_splits)

lemma lex_frac_le: "lex_frac s = Some (a, r) \<Longrightarrow> length r \<le> length s"
  by (auto simp: lex_frac_def take_digits_def split: list.splits if_splits) (metis length_dropWhile_le le_SucI)+

lemma lex_exp_le: "lex_exp s = Some (a, r) \<Longrightarrow> length r \<le> length s"
  by (auto simp: lex_exp_def Let_def take_digits_def split: list.splits if_splits prod.splits) (metis length_dropWhile_le le_SucI length_Cons)+

lemma lex_number_shorter: "lex_number s = Some (a, r) \<Longrightarrow> length r < length s"
  by (fastforce simp: lex_number_def Let_def dest: lex_int_shorter lex_frac_le lex_exp_le split: list.splits if_splits prod.splits option.splits)


lemma skip_space_Cons: "skip_space s = c # r \<Longrightarrow> length r < length s"
  using skip_space_le[of s] by simp

lemma parse_shorter:
  "parse_value d s = Some (j, r) \<Longrightarrow> length r < length s"
  "parse_elements d s = Some (js, r) \<Longrightarrow> length r < length s"
  "parse_members d s = Some (ms, r) \<Longrightarrow> length r < length s"
proof (induction d s and d s and d s arbitrary: j r and js r and ms r rule: parse_value_parse_elements_parse_members.induct)
  case (1 d s)
  then show ?case
    by (subst (asm) parse_value.simps)
      (fastforce dest: skip_space_Cons lex_string_shorter lex_number_shorter split: list.splits if_splits)
next
  case (2 d s)
  then show ?case
    by (subst (asm) parse_elements.simps) (fastforce dest: skip_space_Cons split: option.splits list.splits if_splits)
next
  case (3 d s)
  from "3.prems" obtain s1 k s2 s3 v r1 c r' where p: "skip_space s = CHR 0x22 # s1" "lex_string s1 = Some (k, s2)" "skip_space s2 = CHR '':'' # s3"
    "length s3 < length s" "parse_value d s3 = Some (v, r1)" "skip_space r1 = c # r'"
    "c = CHR ''}'' \<and> r = r' \<or> c = CHR '','' \<and> length r' < length s \<and> (\<exists>ms'. parse_members d r' = Some (ms', r))"
    by (subst (asm) parse_members.simps) (auto split: option.splits list.splits if_splits)
  have v: "length r1 < length s3" using "3.IH"(1)[OF p(1) _ p(2) refl p(3) _ p(5)] p(4) by simp
  from p(7) show ?case
  proof (elim disjE conjE exE)
    assume "r = r'"
    then show ?thesis using v p(4) skip_space_Cons[OF p(6)] by simp
  next
    fix ms'
    assume c: "c = CHR '',''" "length r' < length s" "parse_members d r' = Some (ms', r)"
    then show ?thesis using "3.IH"(2)[OF p(1) _ p(2) refl p(3) _ p(5) refl p(6) _ _ c(3)] p(4) by simp
  qed
qed

end
