(* ===== verification/Schemacheck.thy ===== *)
theory Schemacheck
  imports JsonDecode JsonWrite "HOL-Library.AList"
begin

text \<open>
  \<^verbatim>\<open>src/tools/schemacheck\<close>: the gate on the event registry. The file system is a function from paths to contents. A Go map is an association list
  with distinct keys, in the order its keys were first set: a range over it meets its entries in some order, and only which of several errors is
  reported depends on that.
\<close>

section \<open>Paths\<close>

text \<open>\<^verbatim>\<open>filepath.Clean\<close> and \<^verbatim>\<open>filepath.Join\<close>: the segments are a stack, the innermost first.\<close>

definition clean_step :: "bool \<Rightarrow> string \<Rightarrow> string list \<Rightarrow> string list" where
  "clean_step rooted seg st =
     (if seg = '''' \<or> seg = ''.'' then st
      else if seg = ''..'' then
        (case st of
           [] \<Rightarrow> if rooted then [] else [''..'']
         | t # ts \<Rightarrow> if t = ''..'' then ''..'' # st else ts)
      else seg # st)"

definition join_slash :: "string list \<Rightarrow> string" where
  "join_slash segs = (case segs of [] \<Rightarrow> '''' | s # ss \<Rightarrow> s @ concat (map (\<lambda>x. CHR ''/'' # x) ss))"

definition IsAbs :: "string \<Rightarrow> bool" where
  "IsAbs p \<longleftrightarrow> has_prefix p ''/''"

definition clean_stack :: "string \<Rightarrow> string list" where
  "clean_stack p = fold (clean_step (IsAbs p)) (split_on (CHR ''/'') p) []"

definition Clean :: "string \<Rightarrow> string" where
  "Clean p =
     (let out = join_slash (rev (clean_stack p)) in
      if IsAbs p then CHR ''/'' # out else if out = '''' then ''.'' else out)"

definition Join :: "string \<Rightarrow> string \<Rightarrow> string" where
  "Join a b =
     (if a = '''' \<and> b = '''' then ''''
      else if a = '''' then Clean b
      else if b = '''' then Clean a
      else Clean (a @ ''/'' @ b))"

section \<open>Decoding\<close>

type_synonym json_map = "(string \<times> json) list"

text \<open>An object into a map: a map that is there is added to; \<^verbatim>\<open>null\<close> makes it nil.\<close>

definition decode_map :: "json \<Rightarrow> json_map option \<Rightarrow> json_map option result" where
  "decode_map v w =
     (case v of
        JNull \<Rightarrow> Inr None
      | JObj ms \<Rightarrow> Inr (Some (fold (\<lambda>m. AList.update (fst m) (snd m)) ms (case w of None \<Rightarrow> [] | Some old \<Rightarrow> old)))
      | _ \<Rightarrow> Inl type_error)"

text \<open>\<^verbatim>\<open>DisallowUnknownFields\<close>.\<close>

definition decode_strict :: "(string \<Rightarrow> json \<Rightarrow> 'w \<Rightarrow> 'w result) \<Rightarrow> string list \<Rightarrow> json \<Rightarrow> 'w \<Rightarrow> 'w result" where
  "decode_strict set_field fields j w =
     (case j of
        JObj ms \<Rightarrow>
          if list_all (\<lambda>m. match_field fields (fst m) \<noteq> None) ms then decode_struct set_field fields j w
          else Inl (New ''json: unknown field'')
      | _ \<Rightarrow> decode_struct set_field fields j w)"

record entry =
  en_EventType :: string
  en_Major :: int
  en_Versions :: "string slice"

definition zero_entry :: entry where
  "zero_entry = \<lparr>en_EventType = '''', en_Major = 0, en_Versions = ([], 0)\<rparr>"

definition set_entry :: "string \<Rightarrow> json \<Rightarrow> entry \<Rightarrow> entry result" where
  "set_entry f v w =
     (if f = ''event_type'' then map_sum id (\<lambda>s. w\<lparr>en_EventType := s\<rparr>) (decode_string v (en_EventType w))
      else if f = ''major'' then map_sum id (\<lambda>n. w\<lparr>en_Major := n\<rparr>) (decode_int64 v (en_Major w))
      else map_sum id (\<lambda>ss. w\<lparr>en_Versions := ss\<rparr>) (decode_slice decode_string '''' v (en_Versions w)))"

definition set_registry :: "string \<Rightarrow> json \<Rightarrow> entry slice \<Rightarrow> entry slice result" where
  "set_registry f v w = decode_slice (decode_strict set_entry [''event_type'', ''major'', ''versions'']) zero_entry v w"

record schema =
  s_Schema :: string
  s_ID :: string
  s_Type :: string
  s_Properties :: "json_map option"
  s_Required :: "string slice"

definition zero_schema :: schema where
  "zero_schema = \<lparr>s_Schema = '''', s_ID = '''', s_Type = '''', s_Properties = None, s_Required = ([], 0)\<rparr>"

definition set_schema :: "string \<Rightarrow> json \<Rightarrow> schema \<Rightarrow> schema result" where
  "set_schema f v w =
     (if f = ''$schema'' then map_sum id (\<lambda>s. w\<lparr>s_Schema := s\<rparr>) (decode_string v (s_Schema w))
      else if f = ''$id'' then map_sum id (\<lambda>s. w\<lparr>s_ID := s\<rparr>) (decode_string v (s_ID w))
      else if f = ''type'' then map_sum id (\<lambda>s. w\<lparr>s_Type := s\<rparr>) (decode_string v (s_Type w))
      else if f = ''properties'' then map_sum id (\<lambda>p. w\<lparr>s_Properties := p\<rparr>) (decode_map v (s_Properties w))
      else map_sum id (\<lambda>r. w\<lparr>s_Required := r\<rparr>) (decode_slice decode_string '''' v (s_Required w)))"

definition decode_schema :: "json \<Rightarrow> schema result" where
  "decode_schema j = decode_struct set_schema [''$schema'', ''$id'', ''type'', ''properties'', ''required''] j zero_schema"

definition decode_registry :: "json \<Rightarrow> entry slice result" where
  "decode_registry j = decode_strict set_registry [''schemas''] j ([], 0)"

text \<open>\<^verbatim>\<open>decode\<close>: one document and nothing after it but white space.\<close>

definition decode :: "(string \<Rightarrow> string result) \<Rightarrow> (json \<Rightarrow> 'w result) \<Rightarrow> string \<Rightarrow> 'w result" where
  "decode read target name =
     bind_result (read name) (\<lambda>content.
       case parse_value 0 content of
         None \<Rightarrow> Inl (Wrapf ''decoding'' [New ''json: syntax error''])
       | Some (j, rest) \<Rightarrow>
           (case target j of
              Inl e \<Rightarrow> Inl (Wrapf ''decoding'' [e])
            | Inr w \<Rightarrow> if skip_space rest = '''' then Inr w else Inl (New ''contains trailing JSON data'')))"

definition readRegistry :: "(string \<Rightarrow> string result) \<Rightarrow> string \<Rightarrow> entry list result" where
  "readRegistry read name =
     map_sum id elements (decode read decode_registry name)"

definition readSchema :: "(string \<Rightarrow> string result) \<Rightarrow> string \<Rightarrow> schema result" where
  "readSchema read name =
     bind_result
       (decode read decode_schema name)
       (\<lambda>s. if s_Schema s = '''' \<or> s_ID s = '''' then Inl (New ''$schema and $id are required'')
            else case s_Properties s of
              None \<Rightarrow> Inl (New ''root must be an object with properties'')
            | Some ps \<Rightarrow>
                if s_Type s \<noteq> ''object'' then Inl (New ''root must be an object with properties'')
                else case find (\<lambda>r. map_of ps r = None) (elements (s_Required s)) of
                  Some r \<Rightarrow> Inl (New (''required property '' @ r @ '' is not declared''))
                | None \<Rightarrow> Inr s)"

section \<open>Compatibility\<close>

record property =
  p_Type :: string
  p_Ref :: string
  p_Properties :: "json_map option"
  p_Required :: "string slice"
  p_Items :: "json option"

definition zero_property :: property where
  "zero_property = \<lparr>p_Type = '''', p_Ref = '''', p_Properties = None, p_Required = ([], 0), p_Items = None\<rparr>"

definition set_property :: "string \<Rightarrow> json \<Rightarrow> property \<Rightarrow> property result" where
  "set_property f v w =
     (if f = ''type'' then map_sum id (\<lambda>s. w\<lparr>p_Type := s\<rparr>) (decode_string v (p_Type w))
      else if f = ''$ref'' then map_sum id (\<lambda>s. w\<lparr>p_Ref := s\<rparr>) (decode_string v (p_Ref w))
      else if f = ''properties'' then map_sum id (\<lambda>p. w\<lparr>p_Properties := p\<rparr>) (decode_map v (p_Properties w))
      else if f = ''required'' then map_sum id (\<lambda>r. w\<lparr>p_Required := r\<rparr>) (decode_slice decode_string '''' v (p_Required w))
      else Inr (w\<lparr>p_Items := Some v\<rparr>))"

definition decode_property :: "json \<Rightarrow> property result" where
  "decode_property j = decode_struct set_property [''type'', ''$ref'', ''properties'', ''required'', ''items''] j zero_property"

definition entries :: "json_map option \<Rightarrow> json_map" where
  "entries m = (case m of None \<Rightarrow> [] | Some ps \<Rightarrow> ps)"

definition type_name :: "property \<Rightarrow> string" where
  "type_name p = (if p_Ref p \<noteq> '''' then ''$ref:'' @ p_Ref p else p_Type p)"

text \<open>A loop that returns the first error.\<close>

fun each :: "('a \<Rightarrow> unit result) \<Rightarrow> 'a list \<Rightarrow> unit result" where
  "each f [] = Inr ()"
| "each f (x # xs) = bind_result (f x) (\<lambda>_. each f xs)"

lemma each_cong [fundef_cong]: "xs = ys \<Longrightarrow> (\<And>x. x \<in> set ys \<Longrightarrow> f x = g x) \<Longrightarrow> each f xs = each g ys"
  by (induction ys arbitrary: xs) auto

lemma bind_result_cong [fundef_cong]: "r = s \<Longrightarrow> (\<And>x. s = Inr x \<Longrightarrow> f x = g x) \<Longrightarrow> bind_result r f = bind_result s g"
  by (cases s) auto

lemma each_Inr [simp]: "each f xs = Inr () \<longleftrightarrow> (\<forall>x \<in> set xs. f x = Inr ())"
  by (induction xs) auto

text \<open>What a property is made of is smaller than it.\<close>

lemma size_member: "(k, v) \<in> set ms \<Longrightarrow> size v < size (JObj ms)"
  by (induction ms) auto

lemma decode_members_keeps:
  assumes "decode_members set_field names ms w = Inr w'" "P w"
    and "\<And>k v f w w'. (k, v) \<in> set ms \<Longrightarrow> P w \<Longrightarrow> set_field f v w = Inr w' \<Longrightarrow> P w'"
  shows "P w'"
  using assms
proof (induction ms arbitrary: w)
  case Nil
  then show ?case by simp
next
  case (Cons m ms)
  obtain k v where m: "m = (k, v)" by (cases m)
  show ?case
  proof (cases "match_field names k")
    case None
    then have "decode_members set_field names ms w = Inr w'" using Cons.prems(1) m by simp
    then show ?thesis using Cons.IH Cons.prems(2,3) by (meson list.set_intros(2))
  next
    case (Some f)
    then obtain w1 where w1: "set_field f v w = Inr w1" "decode_members set_field names ms w1 = Inr w'"
      using Cons.prems(1) m by auto
    have "P w1" using Cons.prems(2,3) w1(1) m by (metis list.set_intros(1))
    then show ?thesis using Cons.IH[OF w1(2)] Cons.prems(3) by (meson list.set_intros(2))
  qed
qed

definition small :: "nat \<Rightarrow> property \<Rightarrow> bool" where
  "small n p \<longleftrightarrow> (\<forall>m \<in> set (entries (p_Properties p)). size (snd m) < n) \<and> (\<forall>i. p_Items p = Some i \<longrightarrow> size i < n)"

lemma update_set: "set (AList.update k v ps) \<subseteq> insert (k, v) (set ps)"
  by (induction ps) auto

lemma fold_update_set: "set (fold (\<lambda>m. AList.update (fst m) (snd m)) ms ps) \<subseteq> set ms \<union> set ps"
proof (induction ms arbitrary: ps)
  case Nil
  then show ?case by simp
next
  case (Cons m ms)
  have "set (fold (\<lambda>m. AList.update (fst m) (snd m)) ms (AList.update (fst m) (snd m) ps))
      \<subseteq> set ms \<union> set (AList.update (fst m) (snd m) ps)" by (rule Cons.IH)
  also have "\<dots> \<subseteq> set ms \<union> insert m (set ps)" using update_set[of "fst m" "snd m" ps] by auto
  finally show ?case by auto
qed

lemma decode_map_entries: "decode_map v w = Inr w' \<Longrightarrow> m \<in> set (entries w') \<Longrightarrow> m \<in> set (entries w) \<or> (\<exists>ms. v = JObj ms \<and> m \<in> set ms)"
  using fold_update_set
  by (cases v) (fastforce simp: decode_map_def entries_def split: option.splits)+

lemma set_property_small:
  assumes "set_property f v w = Inr w'" "small n w" "size v < n"
  shows "small n w'"
proof -
  have "size (snd m) < n" if "decode_map v (p_Properties w) = Inr ps" "m \<in> set (entries ps)" for m ps
    using decode_map_entries[OF that] assms(2,3) size_member[of "fst m" "snd m"] by (force simp: small_def)
  then show ?thesis using assms
    by (auto simp: set_property_def small_def map_sum_def split: if_splits sum.splits)
qed

lemma decode_property_small:
  assumes "decode_property j = Inr p"
  shows "small (size j) p"
proof -
  have z: "small n zero_property" for n by (simp add: small_def zero_property_def entries_def)
  show ?thesis
  proof (cases j)
    case (JObj ms)
    have "decode_members set_property [''type'', ''$ref'', ''properties'', ''required'', ''items''] ms zero_property = Inr p"
      using assms JObj by (simp add: decode_property_def decode_struct_def)
    from decode_members_keeps[OF this, of "small (size j)"] show ?thesis
      using z set_property_small size_member JObj by metis
  qed (use assms z in \<open>auto simp: decode_property_def decode_struct_def\<close>)
qed

function compatibleProperty :: "string \<Rightarrow> json \<Rightarrow> json \<Rightarrow> unit result" where
  "compatibleProperty path oldRaw newRaw =
     bind_result (decode_property oldRaw) (\<lambda>oldProperty.
     bind_result (decode_property newRaw) (\<lambda>newProperty.
       if type_name oldProperty = '''' \<or> type_name newProperty = '''' then Inl (New (''property '' @ path @ '' requires type or $ref''))
       else if type_name oldProperty \<noteq> type_name newProperty then Inl (New (''property '' @ path @ '' changed type''))
       else bind_result
         (if p_Type oldProperty = ''object'' then
            bind_result
              (each (\<lambda>m.
                 case map_of (entries (p_Properties newProperty)) (fst m) of
                   None \<Rightarrow> Inl (New (''property '' @ path @ ''.'' @ fst m @ '' was removed''))
                 | Some newChild \<Rightarrow> compatibleProperty (path @ ''.'' @ fst m) (snd m) newChild)
                (entries (p_Properties oldProperty)))
              (\<lambda>_. each (\<lambda>r. if r \<in> set (elements (p_Required oldProperty)) then Inr ()
                            else Inl (New (''property '' @ path @ ''.'' @ r @ '' became required'')))
                 (elements (p_Required newProperty)))
          else Inr ())
         (\<lambda>_. if p_Type oldProperty = ''array'' then
                (case (p_Items oldProperty, p_Items newProperty) of
                   (None, _) \<Rightarrow> Inr ()
                 | (Some _, None) \<Rightarrow> Inl (New (''property '' @ path @ '' removed its item contract''))
                 | (Some oldItem, Some newItem) \<Rightarrow> compatibleProperty (path @ ''[]'') oldItem newItem)
              else Inr ())))"
  by pat_completeness auto
termination
proof (relation "measure (\<lambda>(path, oldRaw, newRaw). size oldRaw)", goal_cases)
  case 1
  then show ?case by simp
next
  case (2 path oldRaw newRaw p q m newChild)
  then show ?case using decode_property_small[of oldRaw p] by (auto simp: small_def)
next
  case (3 path oldRaw newRaw p q u)
  then show ?case using decode_property_small[of oldRaw p] by (auto simp: small_def)
qed

declare compatibleProperty.simps [simp del]

definition compatible :: "schema \<Rightarrow> schema \<Rightarrow> unit result" where
  "compatible previous current =
     bind_result
       (each (\<lambda>m.
          case map_of (entries (s_Properties current)) (fst m) of
            None \<Rightarrow> Inl (New (''property '' @ fst m @ '' was removed''))
          | Some newProperty \<Rightarrow> compatibleProperty (fst m) (snd m) newProperty)
         (entries (s_Properties previous)))
       (\<lambda>_. each (\<lambda>r. if r \<in> set (elements (s_Required previous)) then Inr ()
                     else Inl (New (''property '' @ r @ '' became required'')))
          (elements (s_Required current)))"

section \<open>The check\<close>

fun contains :: "string \<Rightarrow> string \<Rightarrow> bool" where
  "contains [] sub = (sub = [])"
| "contains (c # s) sub = (has_prefix (c # s) sub \<or> contains s sub)"

fun check_versions :: "(string \<Rightarrow> string result) \<Rightarrow> string \<Rightarrow> string \<Rightarrow> schema option \<Rightarrow> string list \<Rightarrow> string list \<Rightarrow> unit result" where
  "check_versions read root key previous seenVersions [] = Inr ()"
| "check_versions read root key previous seenVersions (name # names) =
     (if name \<in> set seenVersions then Inl (New (key @ '' contains duplicate schema version '' @ name))
      else if IsAbs name \<or> contains (Clean name) ''..'' then Inl (New (key @ '' contains unsafe schema path '' @ name))
      else case readSchema read (Join root name) of
        Inl e \<Rightarrow> Inl (Wrapf (key @ '' version '' @ name) [e])
      | Inr current \<Rightarrow>
          (case (case previous of None \<Rightarrow> Inr () | Some p \<Rightarrow> compatible p current) of
             Inl e \<Rightarrow> Inl (Wrapf (key @ '' version '' @ name @ '' is incompatible'') [e])
           | Inr _ \<Rightarrow> check_versions read root key (Some current) (name # seenVersions) names))"

definition entry_key :: "entry \<Rightarrow> string" where
  "entry_key c = en_EventType c @ ''@v'' @ show_int (en_Major c)"

fun check_contracts :: "(string \<Rightarrow> string result) \<Rightarrow> string \<Rightarrow> string list \<Rightarrow> entry list \<Rightarrow> unit result" where
  "check_contracts read root seen [] = Inr ()"
| "check_contracts read root seen (contract # contracts) =
     (let key = entry_key contract in
      if trim_space (en_EventType contract) = '''' \<or> en_Major contract < 1
      then Inl (New (''registry entry '' @ key @ '' has no event type or positive major''))
      else if key \<in> set seen then Inl (New (''registry contains duplicate '' @ key))
      else if elements (en_Versions contract) = [] then Inl (New (key @ '' has no schema versions''))
      else bind_result (check_versions read root key None [] (elements (en_Versions contract)))
        (\<lambda>_. check_contracts read root (key # seen) contracts))"

definition check :: "(string \<Rightarrow> string result) \<Rightarrow> string \<Rightarrow> unit result" where
  "check read root =
     bind_result (readRegistry read (Join root ''registry.json'')) (check_contracts read root [])"

section \<open>What the check guarantees: documents\<close>

text \<open>
  Validity, as far as the keywords the check reads: \<^verbatim>\<open>type\<close>, \<^verbatim>\<open>$ref\<close>, \<^verbatim>\<open>properties\<close>, \<^verbatim>\<open>required\<close> and \<^verbatim>\<open>items\<close>. A document meets a property when it has its
  type and, for an object and an array, its members and items do: every required member, no member that is not declared, and items that meet the
  item contract. A scalar type and the target of a reference are the argument \<open>base\<close>. The other keywords of JSON Schema (\<^verbatim>\<open>enum\<close>, \<^verbatim>\<open>const\<close>, \<^verbatim>\<open>pattern\<close>,
  \<^verbatim>\<open>format\<close>, the numeric and length bounds, \<^verbatim>\<open>additionalProperties\<close>, the combinators) are read neither by the check nor here: a version that
  tightens one of them passes the check.
\<close>

function conforms :: "(string \<Rightarrow> json \<Rightarrow> bool) \<Rightarrow> json \<Rightarrow> json \<Rightarrow> bool" where
  "conforms base j d =
     (case decode_property j of
        Inl _ \<Rightarrow> False
      | Inr p \<Rightarrow>
          base (type_name p) d
          \<and> (p_Type p = ''object'' \<longrightarrow>
               (case d of
                  JObj ms \<Rightarrow>
                    set (elements (p_Required p)) \<subseteq> fst ` set ms
                    \<and> (\<forall>m \<in> set ms. case map_of (entries (p_Properties p)) (fst m) of None \<Rightarrow> False | Some c \<Rightarrow> conforms base c (snd m))
                | _ \<Rightarrow> False))
          \<and> (p_Type p = ''array'' \<longrightarrow>
               (case d of
                  JArr ds \<Rightarrow> (case p_Items p of None \<Rightarrow> True | Some i \<Rightarrow> \<forall>x \<in> set ds. conforms base i x)
                | _ \<Rightarrow> False)))"
  by pat_completeness auto
termination
proof (relation "measure (\<lambda>(base, j, d). size j)", goal_cases)
  case 1
  then show ?case by simp
next
  case (2 base j d p ms m c)
  then show ?case using decode_property_small[of j p] by (fastforce simp: small_def dest: map_of_SomeD)
next
  case (3 base j d p ds i x)
  then show ?case using decode_property_small[of j p] by (auto simp: small_def)
qed

declare conforms.simps [simp del]

definition meets :: "(string \<Rightarrow> json \<Rightarrow> bool) \<Rightarrow> schema \<Rightarrow> json \<Rightarrow> bool" where
  "meets base s d =
     (case d of
        JObj ms \<Rightarrow>
          set (elements (s_Required s)) \<subseteq> fst ` set ms
          \<and> (\<forall>m \<in> set ms. case map_of (entries (s_Properties s)) (fst m) of None \<Rightarrow> False | Some c \<Rightarrow> conforms base c (snd m))
      | _ \<Rightarrow> False)"

text \<open>A property says what it is: an array names its items, a reference stands alone.\<close>

function explicit :: "json \<Rightarrow> bool" where
  "explicit j =
     (case decode_property j of
        Inl _ \<Rightarrow> False
      | Inr p \<Rightarrow>
          (p_Ref p \<noteq> '''' \<longrightarrow> p_Type p = '''') \<and> (p_Type p = ''array'' \<longrightarrow> p_Items p \<noteq> None)
          \<and> list_all (\<lambda>m. explicit (snd m)) (entries (p_Properties p))
          \<and> (case p_Items p of None \<Rightarrow> True | Some i \<Rightarrow> explicit i))"
  by pat_completeness auto
termination
proof (relation "measure size", goal_cases)
  case 1
  then show ?case by simp
next
  case (2 j p m)
  then show ?case using decode_property_small[of j p] by (auto simp: small_def)
next
  case (3 j p i)
  then show ?case using decode_property_small[of j p] by (auto simp: small_def)
qed

declare explicit.simps [simp del]

definition explicit_schema :: "schema \<Rightarrow> bool" where
  "explicit_schema s \<longleftrightarrow> list_all (\<lambda>m. explicit (snd m)) (entries (s_Properties s))"

lemma compatible_shape:
  assumes "compatibleProperty path oldRaw newRaw = Inr ()" "explicit oldRaw" "explicit newRaw"
  obtains p q where "decode_property oldRaw = Inr p" "decode_property newRaw = Inr q" "type_name p = type_name q"
    "p_Type q = ''object'' \<longleftrightarrow> p_Type p = ''object''" "p_Type q = ''array'' \<longleftrightarrow> p_Type p = ''array''"
proof -
  from assms(1) obtain p q where pq: "decode_property oldRaw = Inr p" "decode_property newRaw = Inr q" "type_name p = type_name q"
    by (subst (asm) compatibleProperty.simps) (auto split: if_splits)
  have "p_Ref p \<noteq> '''' \<longrightarrow> p_Type p = ''''" "p_Ref q \<noteq> '''' \<longrightarrow> p_Type q = ''''"
    using assms(2,3) pq(1,2) by (auto simp: explicit.simps[of oldRaw] explicit.simps[of newRaw])
  with pq show ?thesis by (intro that[of p q]) (auto simp: type_name_def split: if_splits)
qed

lemma compatible_children:
  assumes "compatibleProperty path oldRaw newRaw = Inr ()" "decode_property oldRaw = Inr p" "decode_property newRaw = Inr q"
  shows "p_Type p = ''object'' \<Longrightarrow> (k, c) \<in> set (entries (p_Properties p)) \<Longrightarrow>
      \<exists>c'. map_of (entries (p_Properties q)) k = Some c' \<and> compatibleProperty (path @ ''.'' @ k) c c' = Inr ()"
    and "p_Type p = ''object'' \<Longrightarrow> set (elements (p_Required q)) \<subseteq> set (elements (p_Required p))"
    and "p_Type p = ''array'' \<Longrightarrow> p_Items p = Some i \<Longrightarrow> \<exists>i'. p_Items q = Some i' \<and> compatibleProperty (path @ ''[]'') i i' = Inr ()"
proof -
  note u = assms(1)[unfolded compatibleProperty.simps[of path oldRaw newRaw] assms(2,3) bind_result_simps]
  have ch: "p_Type p = ''object'' \<Longrightarrow> \<forall>m \<in> set (entries (p_Properties p)).
       (case map_of (entries (p_Properties q)) (fst m) of
          None \<Rightarrow> Inl (New (''property '' @ path @ ''.'' @ fst m @ '' was removed''))
        | Some newChild \<Rightarrow> compatibleProperty (path @ ''.'' @ fst m) (snd m) newChild) = Inr ()"
    using u by (simp split: if_splits)
  show "p_Type p = ''object'' \<Longrightarrow> (k, c) \<in> set (entries (p_Properties p)) \<Longrightarrow>
      \<exists>c'. map_of (entries (p_Properties q)) k = Some c' \<and> compatibleProperty (path @ ''.'' @ k) c c' = Inr ()"
    using ch by (force split: option.splits)
  show "p_Type p = ''object'' \<Longrightarrow> set (elements (p_Required q)) \<subseteq> set (elements (p_Required p))"
    using u by (auto split: if_splits)
  show "p_Type p = ''array'' \<Longrightarrow> p_Items p = Some i \<Longrightarrow> \<exists>i'. p_Items q = Some i' \<and> compatibleProperty (path @ ''[]'') i i' = Inr ()"
    using u by (simp split: if_splits option.splits)
qed

lemma explicit_children:
  assumes "explicit j" "decode_property j = Inr p"
  shows "m \<in> set (entries (p_Properties p)) \<Longrightarrow> explicit (snd m)" "p_Items p = Some i \<Longrightarrow> explicit i"
    "p_Type p = ''array'' \<Longrightarrow> \<exists>i. p_Items p = Some i"
  using assms by (auto simp: explicit.simps[of j] list_all_iff)

definition members_meet :: "(string \<Rightarrow> json \<Rightarrow> bool) \<Rightarrow> string list \<Rightarrow> json_map \<Rightarrow> json \<Rightarrow> bool" where
  "members_meet base required ps d \<longleftrightarrow> (\<exists>ms. d = JObj ms \<and> set required \<subseteq> fst ` set ms
     \<and> (\<forall>m \<in> set ms. \<exists>c. map_of ps (fst m) = Some c \<and> conforms base c (snd m)))"

lemma some_member: "(case r of None \<Rightarrow> False | Some c \<Rightarrow> P c) \<longleftrightarrow> (\<exists>c. r = Some c \<and> P c)"
  by (cases r) auto

lemma conforms_iff:
  assumes "decode_property j = Inr p"
  shows "conforms base j d \<longleftrightarrow> base (type_name p) d
    \<and> (p_Type p = ''object'' \<longrightarrow> members_meet base (elements (p_Required p)) (entries (p_Properties p)) d)
    \<and> (p_Type p = ''array'' \<longrightarrow> (\<exists>ds. d = JArr ds \<and> (\<forall>i. p_Items p = Some i \<longrightarrow> (\<forall>x \<in> set ds. conforms base i x))))"
  unfolding conforms.simps[of base j] assms members_meet_def some_member
  by (cases d; cases "p_Items p") simp_all

lemma meets_iff: "meets base s d \<longleftrightarrow> members_meet base (elements (s_Required s)) (entries (s_Properties s)) d"
  unfolding meets_def members_meet_def some_member by (cases d) simp_all

text \<open>Members that meet the old declarations meet the new ones.\<close>

lemma members_meet_mono:
  assumes "members_meet base required ps d" "set required' \<subseteq> set required"
    and "\<And>k c x. (k, c) \<in> set ps \<Longrightarrow> conforms base c x \<Longrightarrow> \<exists>c'. map_of ps' k = Some c' \<and> conforms base c' x"
  shows "members_meet base required' ps' d"
proof -
  obtain ms where ms: "d = JObj ms" "set required \<subseteq> fst ` set ms"
    "\<forall>m \<in> set ms. \<exists>c. map_of ps (fst m) = Some c \<and> conforms base c (snd m)"
    using assms(1) unfolding members_meet_def by blast
  have "\<exists>c. map_of ps' (fst m) = Some c \<and> conforms base c (snd m)" if "m \<in> set ms" for m
    using ms(3) that assms(3) map_of_SomeD by metis
  with ms(1,2) assms(2) show ?thesis unfolding members_meet_def by blast
qed

text \<open>The heart of the gate: a document of the old property is a document of the new one.\<close>

lemma compatibleProperty_sound:
  assumes "compatibleProperty path oldRaw newRaw = Inr ()" "explicit oldRaw" "explicit newRaw" "conforms base oldRaw d"
  shows "conforms base newRaw d"
  using assms
proof (induction "size oldRaw" arbitrary: path oldRaw newRaw d rule: less_induct)
  case less
  obtain p q where pq: "decode_property oldRaw = Inr p" "decode_property newRaw = Inr q" "type_name p = type_name q"
    "p_Type q = ''object'' \<longleftrightarrow> p_Type p = ''object''" "p_Type q = ''array'' \<longleftrightarrow> p_Type p = ''array''"
    by (rule compatible_shape[OF less.prems(1-3)])
  note sub = compatible_children[OF less.prems(1) pq(1,2)] and small = decode_property_small[OF pq(1), unfolded small_def]
  note ex = explicit_children[OF less.prems(2) pq(1)] explicit_children[OF less.prems(3) pq(2)]
  note old = less.prems(4)[unfolded conforms_iff[OF pq(1)]]
  have child: "\<exists>c'. map_of (entries (p_Properties q)) k = Some c' \<and> conforms base c' x"
    if o: "p_Type p = ''object''" "(k, c) \<in> set (entries (p_Properties p))" "conforms base c x" for k c x
  proof -
    obtain c' where c': "map_of (entries (p_Properties q)) k = Some c'" "compatibleProperty (path @ ''.'' @ k) c c' = Inr ()"
      using sub(1)[OF o(1,2)] by blast
    have "conforms base c' x"
      using less.hyps[OF _ c'(2) _ _ that(3)] small that(2) ex(1)[OF that(2)] ex(4)[OF map_of_SomeD[OF c'(1)]] by force
    with c'(1) show ?thesis by blast
  qed
  have item: "conforms base i' x" if "p_Type p = ''array''" "p_Items q = Some i'" "p_Items p = Some i" "conforms base i x" for i i' x
    using sub(3)[OF that(1,3)] less.hyps[OF _ _ _ _ that(4), of "path @ ''[]''" i'] small that ex(2)[OF that(3)] ex(5)[OF that(2)] by auto
  show ?case unfolding conforms_iff[OF pq(2)]
  proof (intro conjI impI)
    show "base (type_name q) d" using old pq(3) by simp
    show "members_meet base (elements (p_Required q)) (entries (p_Properties q)) d" if "p_Type q = ''object''"
      using members_meet_mono[OF _ sub(2) child] old that pq(4) by auto
    show "\<exists>ds. d = JArr ds \<and> (\<forall>i. p_Items q = Some i \<longrightarrow> (\<forall>x \<in> set ds. conforms base i x))" if "p_Type q = ''array''"
      using old item that pq(5) ex(3) by blast
  qed
qed

lemma compatible_sound:
  assumes "compatible old new = Inr ()" "explicit_schema old" "explicit_schema new" "meets base old d"
  shows "meets base new d"
proof -
  have c: "\<forall>m \<in> set (entries (s_Properties old)).
       (case map_of (entries (s_Properties new)) (fst m) of
          None \<Rightarrow> Inl (New (''property '' @ fst m @ '' was removed''))
        | Some newProperty \<Rightarrow> compatibleProperty (fst m) (snd m) newProperty) = Inr ()"
    using assms(1) by (simp add: compatible_def)
  have r: "set (elements (s_Required new)) \<subseteq> set (elements (s_Required old))"
    using assms(1) by (auto simp: compatible_def split: if_splits)
  have "\<exists>c'. map_of (entries (s_Properties new)) k = Some c' \<and> conforms base c' x"
    if kc: "(k, c) \<in> set (entries (s_Properties old))" "conforms base c x" for k c x
  proof -
    obtain c' where c': "map_of (entries (s_Properties new)) k = Some c'" "compatibleProperty k c c' = Inr ()"
      using c kc(1) by (force split: option.splits)
    have "explicit c" "explicit c'"
      using assms(2,3) kc(1) map_of_SomeD[OF c'(1)] by (force simp: explicit_schema_def list_all_iff)+
    with compatibleProperty_sound[OF c'(2)] kc(2) c'(1) show ?thesis by blast
  qed
  with assms(4) r show ?thesis unfolding meets_iff by (rule members_meet_mono)
qed

text \<open>The versions of a contract, each compatible with the one before.\<close>

lemma versions_meet:
  assumes "check_versions read root key (Some s) seen names = Inr ()" "explicit_schema s" "meets base s d"
    and "\<And>name s. name \<in> set names \<Longrightarrow> readSchema read (Join root name) = Inr s \<Longrightarrow> explicit_schema s"
  shows "\<forall>name \<in> set names. \<exists>s. readSchema read (Join root name) = Inr s \<and> meets base s d"
  using assms
proof (induction names arbitrary: s seen)
  case Nil
  then show ?case by simp
next
  case (Cons name names)
  from Cons.prems(1) obtain current where c: "readSchema read (Join root name) = Inr current" "compatible s current = Inr ()"
    "check_versions read root key (Some current) (name # seen) names = Inr ()"
    by (auto split: if_splits sum.splits)
  have e: "explicit_schema current" using Cons.prems(4)[of name] c(1) by simp
  have m: "meets base current d" using compatible_sound[OF c(2) Cons.prems(2) e Cons.prems(3)] .
  have "\<forall>name \<in> set names. \<exists>s. readSchema read (Join root name) = Inr s \<and> meets base s d"
    using Cons.prems(4) by (intro Cons.IH[OF c(3) e m]) auto
  with c(1) m show ?case by auto
qed

lemma versions_after:
  assumes "check_versions read root key previous seen (pre @ name # post) = Inr ()"
  obtains s seen' where "readSchema read (Join root name) = Inr s" "check_versions read root key (Some s) seen' post = Inr ()"
  using assms
proof (induction pre arbitrary: previous seen)
  case Nil
  then show ?case by (auto split: if_splits sum.splits)
next
  case (Cons n pre)
  then show ?case by (auto split: if_splits sum.splits)
qed

lemma versions_distinct:
  assumes "check_versions read root key previous seen names = Inr ()"
  shows "distinct names \<and> set names \<inter> set seen = {} \<and> (\<forall>name \<in> set names. \<not> IsAbs name \<and> \<not> contains (Clean name) ''..'')"
  using assms
proof (induction names arbitrary: previous seen)
  case Nil
  then show ?case by simp
next
  case (Cons n names)
  then show ?case by (fastforce split: if_splits sum.splits)
qed

section \<open>What the check guarantees: paths\<close>

lemma clean_keeps_dots: "''..'' \<in> set st \<Longrightarrow> ''..'' \<in> set (fold (clean_step False) segs st)"
proof (induction segs arbitrary: st)
  case Nil
  then show ?case by simp
next
  case (Cons seg segs)
  then have "''..'' \<in> set (clean_step False seg st)" by (auto simp: clean_step_def split: list.split)
  then show ?case using Cons.IH by simp
qed

lemma clean_on_top:
  assumes "''..'' \<notin> set (fold (clean_step False) segs st)"
  shows "fold (clean_step rooted) segs (st @ below) = fold (clean_step False) segs st @ below"
  using assms
proof (induction segs arbitrary: st)
  case Nil
  then show ?case by simp
next
  case (Cons seg segs)
  have no: "''..'' \<notin> set (clean_step False seg st)" using Cons.prems clean_keeps_dots by fastforce
  then have "clean_step rooted seg (st @ below) = clean_step False seg st @ below"
    by (auto simp: clean_step_def split: list.splits if_splits)
  then show ?case using Cons by simp
qed

lemma contains_append: "contains (a @ sub @ b) sub"
proof (induction a)
  case Nil
  have "has_prefix (sub @ b) sub" by (simp add: has_prefix_def)
  then show ?case by (cases "sub @ b") auto
next
  case (Cons c a)
  then show ?case by simp
qed

lemma join_slash_segment: "seg \<in> set segs \<Longrightarrow> \<exists>a b. join_slash segs = a @ seg @ b"
proof (cases segs)
  case (Cons s ss)
  assume "seg \<in> set segs"
  then consider "seg = s" | "seg \<in> set ss" using Cons by auto
  then show ?thesis
  proof cases
    case 1
    then show ?thesis using Cons by (auto simp: join_slash_def intro: exI[of _ "[]"])
  next
    case 2
    then obtain xs ys where "ss = xs @ seg # ys" by (meson split_list)
    then have "join_slash segs = (s @ concat (map (\<lambda>x. CHR ''/'' # x) xs) @ ''/'') @ seg @ concat (map (\<lambda>x. CHR ''/'' # x) ys)"
      using Cons by (simp add: join_slash_def)
    then show ?thesis by blast
  qed
qed simp

text \<open>A name the check accepts, joined to the directory, is below the directory.\<close>

lemma safe_name_inside:
  assumes "\<not> IsAbs name" "\<not> contains (Clean name) ''..''" "root \<noteq> ''''"
  shows "\<exists>segs. ''..'' \<notin> set segs \<and> clean_stack (root @ ''/'' @ name) = segs @ clean_stack root"
proof -
  have "''..'' \<notin> set (clean_stack name)"
  proof
    assume "''..'' \<in> set (clean_stack name)"
    then have "''..'' \<in> set (rev (clean_stack name))" by simp
    from join_slash_segment[OF this] obtain a b where "join_slash (rev (clean_stack name)) = a @ ''..'' @ b" by blast
    then have "Clean name = a @ ''..'' @ b" using assms(1) by (auto simp: Clean_def)
    then show False using assms(2) contains_append[of a "''..''" b] by simp
  qed
  then have no: "''..'' \<notin> set (fold (clean_step False) (split_on (CHR ''/'') name) [])" using assms(1) by (simp add: clean_stack_def)
  have abs: "IsAbs (root @ CHR ''/'' # name) = IsAbs root" using assms(3) by (cases root) (auto simp: IsAbs_def has_prefix_def)
  have "clean_stack (root @ CHR ''/'' # name) = fold (clean_step (IsAbs root)) (split_on (CHR ''/'') name) (clean_stack root)"
    unfolding clean_stack_def abs split_on_middle fold_append by simp
  also have "\<dots> = fold (clean_step False) (split_on (CHR ''/'') name) [] @ clean_stack root"
    using clean_on_top[OF no, of "IsAbs root" "clean_stack root"] by simp
  finally show ?thesis using no by auto
qed

lemma contracts_checked:
  assumes "check_contracts read root seen contracts = Inr ()"
  shows "distinct (map entry_key contracts) \<and> set (map entry_key contracts) \<inter> set seen = {}
    \<and> (\<forall>c \<in> set contracts. trim_space (en_EventType c) \<noteq> '''' \<and> 1 \<le> en_Major c \<and> elements (en_Versions c) \<noteq> []
        \<and> check_versions read root (entry_key c) None [] (elements (en_Versions c)) = Inr ())"
  using assms
proof (induction contracts arbitrary: seen)
  case Nil
  then show ?case by simp
next
  case (Cons c contracts)
  from Cons.prems have "check_contracts read root (entry_key c # seen) contracts = Inr ()" "entry_key c \<notin> set seen"
    "trim_space (en_EventType c) \<noteq> ''''" "1 \<le> en_Major c" "elements (en_Versions c) \<noteq> []"
    "check_versions read root (entry_key c) None [] (elements (en_Versions c)) = Inr ()"
    by (auto simp: Let_def split: if_splits)
  then show ?case using Cons.IH[of "entry_key c # seen"] by auto
qed

section \<open>The registry\<close>

text \<open>
  C36: What a passing check means. Each contract of the registry is registered once, with a positive major and at least one version, each version
  listed once; every version is a file below the registry's directory. And a document that meets one version meets every later version, under two
  conditions. From the one version on, every property of the schemas says what it is: an array names its items and a reference has no type beside
  it (without the first the claim fails, see \<open>items_may_appear\<close>). And to meet a version is validity by \<^verbatim>\<open>type\<close>, \<^verbatim>\<open>$ref\<close>, \<^verbatim>\<open>properties\<close>, \<^verbatim>\<open>required\<close> and \<^verbatim>\<open>items\<close>
  alone, with no member the version does not declare; nothing is said of \<^verbatim>\<open>enum\<close>, \<^verbatim>\<open>pattern\<close>, \<^verbatim>\<open>additionalProperties\<close> and the other keywords the check
  does not read.
\<close>

theorem registry_compatible:
  assumes "check read root = Inr ()" "root \<noteq> ''''"
  shows "\<exists>contracts. readRegistry read (Join root ''registry.json'') = Inr contracts \<and> distinct (map entry_key contracts)
    \<and> (\<forall>c \<in> set contracts. 1 \<le> en_Major c \<and> elements (en_Versions c) \<noteq> [] \<and> distinct (elements (en_Versions c))
        \<and> (\<forall>name \<in> set (elements (en_Versions c)).
             \<exists>segs. ''..'' \<notin> set segs \<and> clean_stack (root @ ''/'' @ name) = segs @ clean_stack root)
        \<and> (\<forall>pre name post. elements (en_Versions c) = pre @ name # post \<longrightarrow>
             (\<exists>s. readSchema read (Join root name) = Inr s
                \<and> ((\<forall>n \<in> set (name # post). \<forall>s. readSchema read (Join root n) = Inr s \<longrightarrow> explicit_schema s) \<longrightarrow>
                   (\<forall>base d. meets base s d \<longrightarrow>
                      (\<forall>later \<in> set post. \<exists>s'. readSchema read (Join root later) = Inr s' \<and> meets base s' d))))))"
proof -
  from assms(1) obtain contracts where reg: "readRegistry read (Join root ''registry.json'') = Inr contracts"
    "check_contracts read root [] contracts = Inr ()" by (auto simp: check_def)
  note cs = contracts_checked[OF reg(2)]
  have v: "check_versions read root (entry_key c) None [] (elements (en_Versions c)) = Inr ()" if "c \<in> set contracts" for c
    using cs that by blast
  have chain: "\<exists>s. readSchema read (Join root name) = Inr s
      \<and> ((\<forall>n \<in> set (name # post). \<forall>s. readSchema read (Join root n) = Inr s \<longrightarrow> explicit_schema s) \<longrightarrow>
         (\<forall>base d. meets base s d \<longrightarrow> (\<forall>later \<in> set post. \<exists>s'. readSchema read (Join root later) = Inr s' \<and> meets base s' d)))"
    if c: "c \<in> set contracts" "elements (en_Versions c) = pre @ name # post" for c pre name post
  proof -
    obtain s seen where s: "readSchema read (Join root name) = Inr s" "check_versions read root (entry_key c) (Some s) seen post = Inr ()"
      by (rule versions_after[OF v[OF c(1), unfolded c(2)]])
    show ?thesis using versions_meet[OF s(2)] s(1) by (intro exI[of _ s]) simp
  qed
  have inside: "\<exists>segs. ''..'' \<notin> set segs \<and> clean_stack (root @ ''/'' @ name) = segs @ clean_stack root"
    if "c \<in> set contracts" "name \<in> set (elements (en_Versions c))" for c name
    using versions_distinct[OF v[OF that(1)]] that(2) assms(2) by (intro safe_name_inside) auto
  have "distinct (elements (en_Versions c))" if "c \<in> set contracts" for c using versions_distinct[OF v[OF that]] by simp
  with reg(1) cs chain inside show ?thesis by blast
qed

text \<open>
  An array that gains an item contract is accepted, although events that were valid are no longer: the reason for the condition on arrays.
\<close>

definition any_array :: json where "any_array = JObj [(''type'', JStr ''array'')]"

definition string_array :: json where
  "string_array = JObj [(''type'', JStr ''array''), (''items'', JObj [(''type'', JStr ''string'')])]"

definition json_type :: "string \<Rightarrow> json \<Rightarrow> bool" where
  "json_type t d = (case d of JStr _ \<Rightarrow> t = ''string'' | JArr _ \<Rightarrow> t = ''array'' | JObj _ \<Rightarrow> t = ''object'' | JNull \<Rightarrow> t = ''null'' | JBool _ \<Rightarrow> t = ''boolean''
     | JNum _ \<Rightarrow> t = ''number'')"

lemma items_may_appear:
  "compatibleProperty ''tags'' any_array string_array = Inr ()"
  "conforms json_type any_array (JArr [JNull])" "\<not> conforms json_type string_array (JArr [JNull])"
proof -
  have a: "decode_property any_array = Inr (zero_property\<lparr>p_Type := ''array''\<rparr>)" by code_simp
  have s: "decode_property string_array = Inr (zero_property\<lparr>p_Type := ''array'', p_Items := Some (JObj [(''type'', JStr ''string'')])\<rparr>)" by code_simp
  have i: "decode_property (JObj [(''type'', JStr ''string'')]) = Inr (zero_property\<lparr>p_Type := ''string''\<rparr>)" by code_simp
  show "compatibleProperty ''tags'' any_array string_array = Inr ()"
    by (simp add: compatibleProperty.simps a s type_name_def zero_property_def)
  show "conforms json_type any_array (JArr [JNull])"
    by (simp add: conforms.simps[of _ any_array] a type_name_def zero_property_def json_type_def)
  show "\<not> conforms json_type string_array (JArr [JNull])"
    by (simp add: conforms.simps[of _ string_array] conforms.simps[of _ "JObj [(''type'', JStr ''string'')]"] s i type_name_def zero_property_def json_type_def)
qed

text \<open>A registry of one contract with two versions, the second with an optional property more.\<close>

definition sample_version :: "(string \<times> json) list \<Rightarrow> json" where
  "sample_version ps = JObj [(''$schema'', JStr ''d''), (''$id'', JStr ''i''), (''type'', JStr ''object''), (''properties'', JObj ps), (''required'', JArr [JStr ''id''])]"

definition text_property :: json where "text_property = JObj [(''type'', JStr ''string'')]"

definition sample_registry :: json where
  "sample_registry = JObj [(''schemas'', JArr [JObj [(''event_type'', JStr ''e''), (''major'', JNum ''1''), (''versions'', JArr [JStr ''a'', JStr ''b''])]])]"

definition sample_files :: "string \<Rightarrow> string result" where
  "sample_files name =
     (if name = ''r/registry.json'' then Inr (write_json sample_registry)
      else if name = ''r/a'' then Inr (write_json (sample_version [(''id'', text_property)]))
      else if name = ''r/b'' then Inr (write_json (sample_version [(''id'', text_property), (''note'', text_property)]))
      else Inl (New ''no such file''))"

lemma decode_written:
  assumes "read name = Inr (write_json j)" "writable 0 j" "target j = Inr w"
  shows "decode read target name = Inr w"
  using parse_write[OF assms(2)] assms(1,3)
  by (auto simp: decode_def parse_json_def split: option.splits if_splits)

lemma sample_writable: "writable 0 sample_registry" "writable 0 (sample_version [(''id'', text_property)])"
  "writable 0 (sample_version [(''id'', text_property), (''note'', text_property)])"
proof -
  have u: "valid_utf8 ''schemas''" "valid_utf8 ''event_type''" "valid_utf8 ''e''" "valid_utf8 ''major''" "valid_utf8 ''versions''" "valid_utf8 ''a''"
    "valid_utf8 ''b''" "valid_utf8 ''$schema''" "valid_utf8 ''d''" "valid_utf8 ''$id''" "valid_utf8 ''i''" "valid_utf8 ''type''" "valid_utf8 ''object''"
    "valid_utf8 ''properties''" "valid_utf8 ''required''" "valid_utf8 ''id''" "valid_utf8 ''note''" "valid_utf8 ''string''" by code_simp+
  have n: "\<exists>n. ''1'' = show_int n" by (rule exI[of _ 1]) code_simp
  show "writable 0 sample_registry" "writable 0 (sample_version [(''id'', text_property)])"
    "writable 0 (sample_version [(''id'', text_property), (''note'', text_property)])"
    using n by (simp_all add: sample_registry_def sample_version_def text_property_def u maxNestingDepth_def)
qed

definition sample_schema :: "(string \<times> json) list \<Rightarrow> schema" where
  "sample_schema ps = \<lparr>s_Schema = ''d'', s_ID = ''i'', s_Type = ''object'', s_Properties = Some ps, s_Required = ([''id''], 1)\<rparr>"

lemma sample_paths:
  "Join ''r'' ''registry.json'' = ''r/registry.json''" "Join ''r'' ''a'' = ''r/a''" "Join ''r'' ''b'' = ''r/b''"
  "\<not> IsAbs ''a''" "\<not> IsAbs ''b''" "\<not> contains (Clean ''a'') ''..''" "\<not> contains (Clean ''b'') ''..''"
  by code_simp+

definition sample_contract :: entry where
  "sample_contract = \<lparr>en_EventType = ''e'', en_Major = 1, en_Versions = ([''a'', ''b''], 2)\<rparr>"

lemma sample_read:
  "readRegistry sample_files ''r/registry.json'' = Inr [sample_contract]"
  "readSchema sample_files ''r/a'' = Inr (sample_schema [(''id'', text_property)])"
  "readSchema sample_files ''r/b'' = Inr (sample_schema [(''id'', text_property), (''note'', text_property)])"
proof -
  have r: "decode_registry sample_registry = Inr ([sample_contract], 1)" by code_simp
  have fr: "sample_files ''r/registry.json'' = Inr (write_json sample_registry)" by (simp add: sample_files_def)
  show "readRegistry sample_files ''r/registry.json'' = Inr [sample_contract]"
    using decode_written[where read = sample_files and target = decode_registry, OF fr sample_writable(1) r] by (simp add: readRegistry_def elements_def)
  have d: "decode_schema (sample_version [(''id'', text_property)])
      = Inr (sample_schema [(''id'', text_property)])"
    "decode_schema (sample_version [(''id'', text_property), (''note'', text_property)])
      = Inr (sample_schema [(''id'', text_property), (''note'', text_property)])"
    by code_simp+
  have f: "sample_files ''r/a'' = Inr (write_json (sample_version [(''id'', text_property)]))"
    "sample_files ''r/b'' = Inr (write_json (sample_version [(''id'', text_property), (''note'', text_property)]))"
    by (simp_all add: sample_files_def)
  show "readSchema sample_files ''r/a'' = Inr (sample_schema [(''id'', text_property)])"
    using decode_written[where read = sample_files and target = decode_schema, OF f(1) sample_writable(2) d(1)] by (simp add: readSchema_def sample_schema_def elements_def)
  show "readSchema sample_files ''r/b'' = Inr (sample_schema [(''id'', text_property), (''note'', text_property)])"
    using decode_written[where read = sample_files and target = decode_schema, OF f(2) sample_writable(3) d(2)] by (simp add: readSchema_def sample_schema_def elements_def)
qed

lemma sample_text: "decode_property text_property = Inr (zero_property\<lparr>p_Type := ''string''\<rparr>)"
  by code_simp

lemma sample_explicit: "explicit text_property"
  by (simp add: explicit.simps sample_text zero_property_def entries_def)

lemma sample_check: "check sample_files ''r'' = Inr ()"
proof -
  have "compatibleProperty path text_property text_property = Inr ()" for path
    by (simp add: compatibleProperty.simps sample_text type_name_def zero_property_def)
  then have "compatible (sample_schema [(''id'', text_property)]) (sample_schema [(''id'', text_property), (''note'', text_property)]) = Inr ()"
    by (simp add: compatible_def sample_schema_def entries_def elements_def)
  moreover have "trim_space ''e'' \<noteq> ''''" by code_simp
  ultimately show ?thesis
    by (simp add: check_def sample_paths sample_read sample_contract_def elements_def Let_def)
qed

theorem registry_compatible_witness:
  "\<exists>s'. readSchema sample_files ''r/b'' = Inr s' \<and> meets json_type s' (JObj [(''id'', JStr ''x'')])"
proof -
  let ?s = "sample_schema [(''id'', text_property)]" and ?d = "JObj [(''id'', JStr ''x'')]"
  have "conforms json_type text_property (JStr ''x'')"
    by (simp add: conforms.simps[of _ text_property] sample_text type_name_def zero_property_def json_type_def)
  then have m: "meets json_type ?s ?d" by (simp add: meets_def sample_schema_def entries_def elements_def)
  have e: "\<forall>n \<in> set (''a'' # [''b'']). \<forall>s. readSchema sample_files (Join ''r'' n) = Inr s \<longrightarrow> explicit_schema s"
    using sample_explicit by (simp add: sample_paths sample_read) (simp add: explicit_schema_def sample_schema_def entries_def)
  have v: "elements (en_Versions sample_contract) = [] @ ''a'' # [''b'']" by (simp add: sample_contract_def elements_def)
  obtain contracts where c: "readRegistry sample_files (Join ''r'' ''registry.json'') = Inr contracts"
    "\<forall>c \<in> set contracts. \<forall>pre name post. elements (en_Versions c) = pre @ name # post \<longrightarrow>
       (\<exists>s. readSchema sample_files (Join ''r'' name) = Inr s
          \<and> ((\<forall>n \<in> set (name # post). \<forall>s. readSchema sample_files (Join ''r'' n) = Inr s \<longrightarrow> explicit_schema s) \<longrightarrow>
             (\<forall>base d. meets base s d \<longrightarrow>
                (\<forall>later \<in> set post. \<exists>s'. readSchema sample_files (Join ''r'' later) = Inr s' \<and> meets base s' d))))"
    using registry_compatible[OF sample_check] by blast
  have "sample_contract \<in> set contracts" using c(1) by (auto simp: sample_paths sample_read)
  from c(2)[rule_format, OF this v] e m show ?thesis by (auto simp: sample_paths sample_read)
qed

end
