(* ===== verification/Archcheck.thy ===== *)
theory Archcheck
  imports JsonDecode JsonWrite "HOL-Library.AList" "HOL-Library.List_Lexorder" "HOL-Library.Char_ord"
begin

text \<open>
  \<^verbatim>\<open>src/tools/archcheck\<close>: the gate on the package graph. The ruleset and the output of \<^verbatim>\<open>go list\<close> are texts, decoded here; a parsed source file is
  the list of the nodes \<^verbatim>\<open>ast.Inspect\<close> visits, as far as the rules read them.
\<close>

section \<open>Rules and packages\<close>

record deniedImport =
  di_Reason :: string
  di_Except :: "string slice"

record rules =
  r_Module :: string
  r_InternalEdges :: "(string \<times> string slice) list"
  r_PureSegments :: "string slice"
  r_NoGoroutineSegments :: "string slice"
  r_DeniedImports :: "(string \<times> deniedImport) list"
  r_ReservedDirNames :: "string slice"

record pkg =
  k_ImportPath :: string
  k_Dir :: string
  k_Name :: string
  k_GoFiles :: "string slice"
  k_TestGoFiles :: "string slice"
  k_XTestGoFiles :: "string slice"
  k_Imports :: "string slice"
  k_TestImports :: "string slice"
  k_XTestImports :: "string slice"

definition allImports :: "pkg \<Rightarrow> string list" where
  "allImports p = elements (k_Imports p) @ elements (k_TestImports p) @ elements (k_XTestImports p)"

text \<open>An object into a map: each value is decoded afresh, \<^verbatim>\<open>null\<close> makes the map nil.\<close>

fun decode_entries :: "(json \<Rightarrow> 'a \<Rightarrow> 'a result) \<Rightarrow> 'a \<Rightarrow> (string \<times> json) list \<Rightarrow> (string \<times> 'a) list \<Rightarrow> (string \<times> 'a) list result" where
  "decode_entries dec zero [] m = Inr m"
| "decode_entries dec zero ((k, v) # ms) m = bind_result (dec v zero) (\<lambda>x. decode_entries dec zero ms (AList.update k x m))"

definition decode_map :: "(json \<Rightarrow> 'a \<Rightarrow> 'a result) \<Rightarrow> 'a \<Rightarrow> json \<Rightarrow> (string \<times> 'a) list \<Rightarrow> (string \<times> 'a) list result" where
  "decode_map dec zero v m =
     (case v of JNull \<Rightarrow> Inr [] | JObj ms \<Rightarrow> decode_entries dec zero ms m | _ \<Rightarrow> Inl type_error)"

abbreviation decode_names :: "json \<Rightarrow> string slice \<Rightarrow> string slice result" where
  "decode_names \<equiv> decode_slice decode_string ''''"

definition set_denied :: "string \<Rightarrow> json \<Rightarrow> deniedImport \<Rightarrow> deniedImport result" where
  "set_denied f v w =
     (if f = ''reason'' then map_sum id (\<lambda>s. w\<lparr>di_Reason := s\<rparr>) (decode_string v (di_Reason w))
      else map_sum id (\<lambda>s. w\<lparr>di_Except := s\<rparr>) (decode_names v (di_Except w)))"

definition set_rules :: "string \<Rightarrow> json \<Rightarrow> rules \<Rightarrow> rules result" where
  "set_rules f v w =
     (if f = ''module'' then map_sum id (\<lambda>s. w\<lparr>r_Module := s\<rparr>) (decode_string v (r_Module w))
      else if f = ''internalEdges'' then
        map_sum id (\<lambda>m. w\<lparr>r_InternalEdges := m\<rparr>) (decode_map decode_names ([], 0) v (r_InternalEdges w))
      else if f = ''pureSegments'' then map_sum id (\<lambda>s. w\<lparr>r_PureSegments := s\<rparr>) (decode_names v (r_PureSegments w))
      else if f = ''noGoroutineSegments'' then
        map_sum id (\<lambda>s. w\<lparr>r_NoGoroutineSegments := s\<rparr>) (decode_names v (r_NoGoroutineSegments w))
      else if f = ''deniedImports'' then
        map_sum id (\<lambda>m. w\<lparr>r_DeniedImports := m\<rparr>)
          (decode_map (decode_struct set_denied [''reason'', ''except'']) \<lparr>di_Reason = '''', di_Except = ([], 0)\<rparr> v (r_DeniedImports w))
      else map_sum id (\<lambda>s. w\<lparr>r_ReservedDirNames := s\<rparr>) (decode_names v (r_ReservedDirNames w)))"

definition zero_rules :: rules where
  "zero_rules = \<lparr>r_Module = '''', r_InternalEdges = [], r_PureSegments = ([], 0), r_NoGoroutineSegments = ([], 0), r_DeniedImports = [],
     r_ReservedDirNames = ([], 0)\<rparr>"

definition decode_rules :: "json \<Rightarrow> rules result" where
  "decode_rules j =
     decode_struct set_rules [''module'', ''internalEdges'', ''pureSegments'', ''noGoroutineSegments'', ''deniedImports'', ''reservedDirNames'']
       j zero_rules"

definition loadRules :: "(string \<Rightarrow> string result) \<Rightarrow> string \<Rightarrow> rules result" where
  "loadRules read name =
     (case read name of
        Inl e \<Rightarrow> Inl (Wrapf (''reading '' @ name) [e])
      | Inr b \<Rightarrow>
          (case (case parse_json b of None \<Rightarrow> Inl (New ''json: syntax error'') | Some j \<Rightarrow> decode_rules j) of
             Inl e \<Rightarrow> Inl (Wrapf (''parsing '' @ name) [e])
           | Inr r \<Rightarrow> if r_Module r = '''' then Inl (New (name @ '' declares no module path'')) else Inr r))"

definition set_pkg :: "string \<Rightarrow> json \<Rightarrow> pkg \<Rightarrow> pkg result" where
  "set_pkg f v w =
     (if f = ''ImportPath'' then map_sum id (\<lambda>s. w\<lparr>k_ImportPath := s\<rparr>) (decode_string v (k_ImportPath w))
      else if f = ''Dir'' then map_sum id (\<lambda>s. w\<lparr>k_Dir := s\<rparr>) (decode_string v (k_Dir w))
      else if f = ''Name'' then map_sum id (\<lambda>s. w\<lparr>k_Name := s\<rparr>) (decode_string v (k_Name w))
      else if f = ''GoFiles'' then map_sum id (\<lambda>s. w\<lparr>k_GoFiles := s\<rparr>) (decode_names v (k_GoFiles w))
      else if f = ''TestGoFiles'' then map_sum id (\<lambda>s. w\<lparr>k_TestGoFiles := s\<rparr>) (decode_names v (k_TestGoFiles w))
      else if f = ''XTestGoFiles'' then map_sum id (\<lambda>s. w\<lparr>k_XTestGoFiles := s\<rparr>) (decode_names v (k_XTestGoFiles w))
      else if f = ''Imports'' then map_sum id (\<lambda>s. w\<lparr>k_Imports := s\<rparr>) (decode_names v (k_Imports w))
      else if f = ''TestImports'' then map_sum id (\<lambda>s. w\<lparr>k_TestImports := s\<rparr>) (decode_names v (k_TestImports w))
      else map_sum id (\<lambda>s. w\<lparr>k_XTestImports := s\<rparr>) (decode_names v (k_XTestImports w)))"

definition zero_pkg :: pkg where
  "zero_pkg = \<lparr>k_ImportPath = '''', k_Dir = '''', k_Name = '''', k_GoFiles = ([], 0), k_TestGoFiles = ([], 0), k_XTestGoFiles = ([], 0),
     k_Imports = ([], 0), k_TestImports = ([], 0), k_XTestImports = ([], 0)\<rparr>"

definition decode_pkg :: "json \<Rightarrow> pkg result" where
  "decode_pkg j =
     decode_struct set_pkg
       [''ImportPath'', ''Dir'', ''Name'', ''GoFiles'', ''TestGoFiles'', ''XTestGoFiles'', ''Imports'', ''TestImports'', ''XTestImports''] j zero_pkg"

text \<open>
  The loop over the decoder: \<^verbatim>\<open>More\<close> looks at the next byte that is not white space.
\<close>

function decode_stream :: "string \<Rightarrow> pkg list result" where
  "decode_stream s =
     (case skip_space s of
        [] \<Rightarrow> Inr []
      | c # _ \<Rightarrow>
          if c = CHR '']'' \<or> c = CHR ''}'' then Inr []
          else case parse_value 0 s of
            None \<Rightarrow> Inl (Wrapf ''decoding go list output'' [New ''json: syntax error''])
          | Some (j, rest) \<Rightarrow>
              (case decode_pkg j of
                 Inl e \<Rightarrow> Inl (Wrapf ''decoding go list output'' [e])
               | Inr p \<Rightarrow> map_sum id (\<lambda>ps. p # ps) (decode_stream rest)))"
  by pat_completeness auto
termination
  by (relation "measure length") (auto dest: parse_shorter(1))

declare decode_stream.simps [simp del]

definition listPackages :: "string result \<Rightarrow> pkg list result" where
  "listPackages output = (case output of Inl e \<Rightarrow> Inl (Wrapf ''go list'' [e]) | Inr out \<Rightarrow> decode_stream out)"

section \<open>The checks\<close>

definition trim_prefix :: "string \<Rightarrow> string \<Rightarrow> string" where
  "trim_prefix s p = (if has_prefix s p then drop (length p) s else s)"

definition relative :: "string \<Rightarrow> string \<Rightarrow> string" where
  "relative module importPath =
     (if importPath = module then ''.'' else trim_prefix (trim_prefix importPath module) ''/'')"

fun check_edges :: "rules \<Rightarrow> string \<Rightarrow> string list \<Rightarrow> string list \<Rightarrow> string list" where
  "check_edges r rel seen [] = []"
| "check_edges r rel seen (imp # imps) =
     (if \<not> has_prefix imp (r_Module r) then check_edges r rel seen imps
      else let target = relative (r_Module r) imp in
        if target = rel \<or> target \<in> set seen then check_edges r rel seen imps
        else case map_of (r_InternalEdges r) rel of
          None \<Rightarrow>
            (rel @ '' imports '' @ target @ '', but '' @ rel @ '' declares no internal edges in arch.json'') # check_edges r rel (target # seen) imps
        | Some allowed \<Rightarrow>
            (if target \<in> set (elements allowed) then []
             else [rel @ '' imports '' @ target @ '', which is not a declared edge of '' @ rel])
            @ check_edges r rel (target # seen) imps)"

definition checkEdges :: "rules \<Rightarrow> pkg \<Rightarrow> string \<Rightarrow> string list" where
  "checkEdges r p rel = check_edges r rel [] (allImports p)"

definition checkDeniedImports :: "rules \<Rightarrow> pkg \<Rightarrow> string \<Rightarrow> string list" where
  "checkDeniedImports r p rel =
     concat (map (\<lambda>imp. concat (map (\<lambda>(denied, rule).
       if imp \<noteq> denied \<and> \<not> has_prefix imp (denied @ ''/'') then []
       else if rel \<in> set (elements (di_Except rule)) then []
       else [rel @ '' imports '' @ imp @ '': '' @ di_Reason rule]) (r_DeniedImports r))) (allImports p))"

definition checkNaming :: "rules \<Rightarrow> pkg \<Rightarrow> string \<Rightarrow> string list" where
  "checkNaming r p rel =
     concat (map (\<lambda>seg. if seg \<in> set (elements (r_ReservedDirNames r))
                       then [rel @ '' uses reserved directory name '' @ seg @ ''; rule 12 prohibits it''] else [])
       (split_on (CHR ''/'') rel))
     @ (if CHR ''_'' \<in> set (k_Name p) then [''package '' @ k_Name p @ '' in '' @ rel @ '' contains an underscore; rule 12 prohibits it''] else [])"

text \<open>The syntax the rules read: the nodes of a file in the order of the visit, with their lines.\<close>

datatype goexpr = SelectorExpr goexpr string | Ident string | OtherExpr

datatype node = FuncType int "goexpr list option" | GoStmt int | OtherNode

definition signatureTakesContext :: "goexpr list option \<Rightarrow> bool" where
  "signatureTakesContext params =
     (case params of
        None \<Rightarrow> False
      | Some types \<Rightarrow> list_ex (\<lambda>t. case t of SelectorExpr (Ident x) sel \<Rightarrow> x = ''context'' \<and> sel = ''Context'' | _ \<Rightarrow> False) types)"

definition path_base :: "string \<Rightarrow> string" where
  "path_base p =
     (if p = '''' then ''.''
      else let q = rev (dropWhile (\<lambda>c. c = CHR ''/'') (rev p)) in
        if q = '''' then ''/'' else last (split_on (CHR ''/'') q))"

definition hasFinalSegment :: "string \<Rightarrow> string list \<Rightarrow> bool" where
  "hasFinalSegment rel segments \<longleftrightarrow> path_base rel \<in> set segments"

definition positionOf :: "int \<Rightarrow> string \<Rightarrow> string \<Rightarrow> string" where
  "positionOf line rel file = rel @ ''/'' @ file @ '':'' @ show_int line"

fun inspect :: "bool \<Rightarrow> bool \<Rightarrow> string \<Rightarrow> string \<Rightarrow> node \<Rightarrow> string list" where
  "inspect pure noGoroutine rel name (FuncType line params) =
     (if pure \<and> signatureTakesContext params
      then [positionOf line rel name @ '': a function accepts context.Context; rule 4 reserves that for app/, because a context signals input or output'']
      else [])"
| "inspect pure noGoroutine rel name (GoStmt line) =
     (if noGoroutine then [positionOf line rel name @ '': starts a goroutine; rule 7 places worker loops in a driving adapter''] else [])"
| "inspect pure noGoroutine rel name OtherNode = []"

fun check_files :: "(string \<Rightarrow> string \<Rightarrow> node list result) \<Rightarrow> bool \<Rightarrow> bool \<Rightarrow> string \<Rightarrow> string \<Rightarrow> string list \<Rightarrow> string list result" where
  "check_files parse pure noGoroutine dir rel [] = Inr []"
| "check_files parse pure noGoroutine dir rel (name # names) =
     (case parse dir name of
        Inl e \<Rightarrow> Inl (Wrapf (''parsing '' @ name) [e])
      | Inr nodes \<Rightarrow>
          map_sum id (\<lambda>fs. concat (map (inspect pure noGoroutine rel name) nodes) @ fs) (check_files parse pure noGoroutine dir rel names))"

definition checkSource :: "(string \<Rightarrow> string \<Rightarrow> node list result) \<Rightarrow> rules \<Rightarrow> pkg \<Rightarrow> string \<Rightarrow> string list result" where
  "checkSource parse r p rel =
     (let pure = hasFinalSegment rel (elements (r_PureSegments r));
          noGoroutine = hasFinalSegment rel (elements (r_NoGoroutineSegments r)) in
      if \<not> pure \<and> \<not> noGoroutine then Inr []
      else check_files parse pure noGoroutine (k_Dir p) rel (elements (k_GoFiles p)))"

section \<open>The command\<close>

fun check_packages :: "(string \<Rightarrow> string \<Rightarrow> node list result) \<Rightarrow> rules \<Rightarrow> pkg list \<Rightarrow> string list result" where
  "check_packages parse r [] = Inr []"
| "check_packages parse r (p # ps) =
     (let rel = relative (r_Module r) (k_ImportPath p) in
      if rel = '''' \<or> has_prefix rel ''tools/'' then check_packages parse r ps
      else bind_result (checkSource parse r p rel) (\<lambda>f.
        map_sum id (\<lambda>fs. checkEdges r p rel @ checkDeniedImports r p rel @ checkNaming r p rel @ f @ fs) (check_packages parse r ps)))"

text \<open>What the command prints of the violations, and the number of packages it reports or its error.\<close>

definition run :: "(string \<Rightarrow> string result) \<Rightarrow> string result \<Rightarrow> (string \<Rightarrow> string \<Rightarrow> node list result) \<Rightarrow> string list \<times> nat result" where
  "run read output parse =
     (case bind_result (loadRules read ''arch.json'') (\<lambda>r.
        bind_result (listPackages output) (\<lambda>packages.
          map_sum id (\<lambda>findings. (packages, findings)) (check_packages parse r packages))) of
        Inl e \<Rightarrow> ([], Inl e)
      | Inr (packages, findings) \<Rightarrow>
          if findings \<noteq> [] then (sort findings, Inl (New ''boundaries declared in arch.json are not satisfied''))
          else ([], Inr (length packages)))"

section \<open>The boundaries\<close>

text \<open>
  What the rules ask for, without the checks: where a package lies in the module, the segments of its path, and the four kinds of boundary. A
  package below \<^verbatim>\<open>tools\<close> has none.
\<close>

definition in_module :: "string \<Rightarrow> string \<Rightarrow> string \<Rightarrow> bool" where
  "in_module module rel importPath \<longleftrightarrow> importPath = module \<and> rel = ''.'' \<or> importPath = module @ ''/'' @ rel"

definition path_segment :: "string \<Rightarrow> string \<Rightarrow> bool" where
  "path_segment rel seg \<longleftrightarrow> CHR ''/'' \<notin> set seg \<and> (\<exists>before after. ''/'' @ rel @ ''/'' = before @ ''/'' @ seg @ ''/'' @ after)"

definition final_segment :: "string \<Rightarrow> string \<Rightarrow> bool" where
  "final_segment rel seg \<longleftrightarrow> CHR ''/'' \<notin> set seg \<and> (\<exists>before. ''/'' @ rel = before @ ''/'' @ seg)"

definition edges_hold :: "rules \<Rightarrow> pkg \<Rightarrow> string \<Rightarrow> bool" where
  "edges_hold r p rel \<longleftrightarrow>
     (\<forall>imp \<in> set (allImports p). \<forall>target. in_module (r_Module r) target imp \<and> target \<noteq> rel \<longrightarrow>
        (\<exists>allowed. map_of (r_InternalEdges r) rel = Some allowed \<and> target \<in> set (elements allowed)))"

definition denials_hold :: "rules \<Rightarrow> pkg \<Rightarrow> string \<Rightarrow> bool" where
  "denials_hold r p rel \<longleftrightarrow>
     (\<forall>imp \<in> set (allImports p). \<forall>(denied, rule) \<in> set (r_DeniedImports r).
        imp = denied \<or> (\<exists>below. imp = denied @ ''/'' @ below) \<longrightarrow> rel \<in> set (elements (di_Except rule)))"

definition names_hold :: "rules \<Rightarrow> pkg \<Rightarrow> string \<Rightarrow> bool" where
  "names_hold r p rel \<longleftrightarrow> (\<forall>seg. path_segment rel seg \<longrightarrow> seg \<notin> set (elements (r_ReservedDirNames r))) \<and> CHR ''_'' \<notin> set (k_Name p)"

definition syntax_holds :: "(string \<Rightarrow> string \<Rightarrow> node list result) \<Rightarrow> rules \<Rightarrow> pkg \<Rightarrow> string \<Rightarrow> bool" where
  "syntax_holds parse r p rel \<longleftrightarrow>
     (\<forall>seg. final_segment rel seg \<longrightarrow> seg \<in> set (elements (r_PureSegments r)) \<union> set (elements (r_NoGoroutineSegments r)) \<longrightarrow>
        (\<forall>name \<in> set (elements (k_GoFiles p)). \<exists>nodes. parse (k_Dir p) name = Inr nodes
           \<and> (seg \<in> set (elements (r_PureSegments r)) \<longrightarrow>
                (\<forall>line types. FuncType line (Some types) \<in> set nodes \<longrightarrow> SelectorExpr (Ident ''context'') ''Context'' \<notin> set types))
           \<and> (seg \<in> set (elements (r_NoGoroutineSegments r)) \<longrightarrow> (\<forall>line. GoStmt line \<notin> set nodes))))"

definition boundaries_kept :: "(string \<Rightarrow> string \<Rightarrow> node list result) \<Rightarrow> rules \<Rightarrow> pkg \<Rightarrow> string \<Rightarrow> bool" where
  "boundaries_kept parse r p rel \<longleftrightarrow>
     (\<exists>below. rel = ''tools/'' @ below) \<or> edges_hold r p rel \<and> denials_hold r p rel \<and> names_hold r p rel \<and> syntax_holds parse r p rel"

section \<open>What the checks decide\<close>

lemma has_prefix_iff: "has_prefix s p \<longleftrightarrow> (\<exists>t. s = p @ t)"
  by (auto simp: has_prefix_def) (metis append_take_drop_id)

lemma relative_in_module: "in_module module rel path \<Longrightarrow> relative module path = rel \<and> has_prefix path module"
  by (auto simp: in_module_def relative_def trim_prefix_def has_prefix_def)

lemma has_segment: "path_segment rel seg \<longleftrightarrow> seg \<in> set (split_on (CHR ''/'') rel)"
proof
  assume "path_segment rel seg"
  then obtain u v where s: "CHR ''/'' \<notin> set seg" and uv: "''/'' @ rel @ ''/'' = u @ ''/'' @ seg @ ''/'' @ v" by (auto simp: path_segment_def)
  from uv have "split_on (CHR ''/'') ([] @ CHR ''/'' # rel @ CHR ''/'' # []) = split_on (CHR ''/'') (u @ CHR ''/'' # seg @ CHR ''/'' # v)" by simp
  then have e: "[] # split_on (CHR ''/'') rel @ [[]] = split_on (CHR ''/'') u @ seg # split_on (CHR ''/'') v"
    unfolding split_on_middle split_on_atom[OF s] by simp
  obtain x us where us: "split_on (CHR ''/'') u = x # us" by (cases "split_on (CHR ''/'') u") auto
  obtain vs y where vs: "split_on (CHR ''/'') v = vs @ [y]" by (cases "split_on (CHR ''/'') v" rule: rev_cases) auto
  from e have "split_on (CHR ''/'') rel = us @ seg # vs" unfolding us vs by simp
  then show "seg \<in> set (split_on (CHR ''/'') rel)" by simp
next
  assume a: "seg \<in> set (split_on (CHR ''/'') rel)"
  then obtain us vs where uv: "split_on (CHR ''/'') rel = us @ seg # vs" by (auto simp: in_set_conv_decomp)
  have j: "join_on (CHR ''/'') (us @ seg # vs) = rel" using join_split[of "CHR ''/''" rel] unfolding uv .
  have "''/'' @ join_on (CHR ''/'') (us @ seg # vs) @ ''/'' = (if us = [] then [] else ''/'' @ join_on (CHR ''/'') us) @ ''/'' @ seg @ ''/''
      @ (if vs = [] then [] else join_on (CHR ''/'') vs @ ''/'')"
    using join_on_append[of us "seg # vs" "CHR ''/''"] join_on_append[of "[seg]" vs "CHR ''/''"] by (cases "us = []"; cases "vs = []") auto
  then show "path_segment rel seg" unfolding path_segment_def j using split_on_no_sep[OF a] by blast
qed

lemma has_final_segment:
  assumes "rel \<noteq> ''''" "last rel \<noteq> CHR ''/''"
  shows "final_segment rel seg \<longleftrightarrow> path_base rel = seg"
proof -
  have "dropWhile (\<lambda>c. c = CHR ''/'') (rev rel) = rev rel" using assms by (cases rel rule: rev_cases) auto
  then have b: "path_base rel = last (split_on (CHR ''/'') rel)" using assms(1) by (simp add: path_base_def Let_def)
  obtain us x where us: "split_on (CHR ''/'') rel = us @ [x]" by (cases "split_on (CHR ''/'') rel" rule: rev_cases) auto
  have x: "CHR ''/'' \<notin> set x" using split_on_no_sep[of x "CHR ''/''" rel] us by simp
  have j: "join_on (CHR ''/'') (us @ [x]) = rel" using join_split[of "CHR ''/''" rel] unfolding us .
  have "''/'' @ join_on (CHR ''/'') (us @ [x]) = (if us = [] then [] else ''/'' @ join_on (CHR ''/'') us) @ ''/'' @ x"
    using join_on_append[of us "[x]" "CHR ''/''"] by (cases "us = []") auto
  then have "final_segment rel x" unfolding final_segment_def j using x by blast
  moreover have "seg = x" if f: "final_segment rel seg"
  proof -
    from f obtain u where u: "CHR ''/'' \<notin> set seg" "''/'' @ rel = u @ ''/'' @ seg" by (auto simp: final_segment_def)
    then have "split_on (CHR ''/'') ([] @ CHR ''/'' # rel) = split_on (CHR ''/'') (u @ CHR ''/'' # seg)" by simp
    then have "[] # us @ [x] = split_on (CHR ''/'') u @ [seg]" unfolding split_on_middle split_on_atom[OF u(1)] us by simp
    then have "([] # us) @ [x] = split_on (CHR ''/'') u @ [seg]" by simp
    then show ?thesis unfolding append1_eq_conv by simp
  qed
  ultimately show ?thesis using b us by auto
qed

text \<open>
  Every import that starts with the module's path is the module's own. It fails when a sibling module's path continues the module's own last
  segment, as in \<open>sibling_counts_as_internal\<close> below.
\<close>

definition no_sibling :: "rules \<Rightarrow> pkg \<Rightarrow> bool" where
  "no_sibling r p \<longleftrightarrow> (\<forall>imp \<in> set (allImports p). \<forall>rest. imp = r_Module r @ rest \<longrightarrow> (\<exists>target. in_module (r_Module r) target imp))"

lemma check_edges_empty:
  "check_edges r rel seen imps = [] \<longleftrightarrow>
     (\<forall>imp \<in> set imps. has_prefix imp (r_Module r) \<and> relative (r_Module r) imp \<noteq> rel \<and> relative (r_Module r) imp \<notin> set seen \<longrightarrow>
        (\<exists>allowed. map_of (r_InternalEdges r) rel = Some allowed \<and> relative (r_Module r) imp \<in> set (elements allowed)))"
proof (induction imps arbitrary: seen)
  case Nil
  then show ?case by simp
next
  case (Cons imp imps)
  then show ?case by (cases "map_of (r_InternalEdges r) rel") (auto simp: Let_def)
qed

lemma checkEdges_sound: "checkEdges r p rel = [] \<Longrightarrow> edges_hold r p rel"
  unfolding checkEdges_def check_edges_empty edges_hold_def using relative_in_module by fastforce

lemma checkEdges_complete: "edges_hold r p rel \<Longrightarrow> no_sibling r p \<Longrightarrow> checkEdges r p rel = []"
  unfolding checkEdges_def check_edges_empty edges_hold_def no_sibling_def has_prefix_iff using relative_in_module by metis

lemma checkDeniedImports_empty: "checkDeniedImports r p rel = [] \<longleftrightarrow> denials_hold r p rel"
  by (fastforce simp: checkDeniedImports_def denials_hold_def has_prefix_iff split: if_splits)

lemma checkNaming_empty: "checkNaming r p rel = [] \<longleftrightarrow> names_hold r p rel"
  by (auto simp: checkNaming_def names_hold_def has_segment)

lemma takes_context: "signatureTakesContext params \<longleftrightarrow> (\<exists>types. params = Some types \<and> SelectorExpr (Ident ''context'') ''Context'' \<in> set types)"
proof -
  have "(case t of SelectorExpr (Ident x) sel \<Rightarrow> x = ''context'' \<and> sel = ''Context'' | _ \<Rightarrow> False) \<longleftrightarrow> t = SelectorExpr (Ident ''context'') ''Context''" for t
    by (auto split: goexpr.splits)
  then show ?thesis by (cases params) (auto simp: signatureTakesContext_def list_ex_iff)
qed

lemma inspect_empty:
  "inspect pure noGoroutine rel name n = [] \<longleftrightarrow>
     (pure \<longrightarrow> (\<forall>line types. n = FuncType line (Some types) \<longrightarrow> SelectorExpr (Ident ''context'') ''Context'' \<notin> set types))
     \<and> (noGoroutine \<longrightarrow> (\<forall>line. n \<noteq> GoStmt line))"
  by (cases n) (auto simp: takes_context)

lemma map_sum_Inr_iff: "map_sum id g r = Inr y \<longleftrightarrow> (\<exists>x. r = Inr x \<and> g x = y)"
  by (cases r) auto

lemma check_files_empty:
  "check_files parse pure noGoroutine dir rel names = Inr [] \<longleftrightarrow>
     (\<forall>name \<in> set names. \<exists>nodes. parse dir name = Inr nodes \<and> (\<forall>n \<in> set nodes. inspect pure noGoroutine rel name n = []))"
proof (induction names)
  case Nil
  then show ?case by simp
next
  case (Cons name names)
  then show ?case by (cases "parse dir name") (auto simp: map_sum_Inr_iff)
qed

lemma nodes_clean:
  "(\<forall>n \<in> set nodes. inspect pure noGoroutine rel name n = []) \<longleftrightarrow>
     (pure \<longrightarrow> (\<forall>line types. FuncType line (Some types) \<in> set nodes \<longrightarrow> SelectorExpr (Ident ''context'') ''Context'' \<notin> set types))
     \<and> (noGoroutine \<longrightarrow> (\<forall>line. GoStmt line \<notin> set nodes))"
  unfolding inspect_empty by blast

lemma checkSource_empty:
  assumes "rel \<noteq> ''''" "last rel \<noteq> CHR ''/''"
  shows "checkSource parse r p rel = Inr [] \<longleftrightarrow> syntax_holds parse r p rel"
proof -
  have s: "syntax_holds parse r p rel \<longleftrightarrow> (path_base rel \<in> set (elements (r_PureSegments r)) \<or> path_base rel \<in> set (elements (r_NoGoroutineSegments r)) \<longrightarrow>
      (\<forall>name \<in> set (elements (k_GoFiles p)). \<exists>nodes. parse (k_Dir p) name = Inr nodes
         \<and> (\<forall>n \<in> set nodes. inspect (path_base rel \<in> set (elements (r_PureSegments r))) (path_base rel \<in> set (elements (r_NoGoroutineSegments r))) rel name n = [])))"
    unfolding syntax_holds_def has_final_segment[OF assms] nodes_clean by simp
  show ?thesis
    unfolding s checkSource_def hasFinalSegment_def Let_def
    by (cases "path_base rel \<in> set (elements (r_PureSegments r))"; cases "path_base rel \<in> set (elements (r_NoGoroutineSegments r))")
      (simp_all add: check_files_empty)
qed

lemma check_packages_empty:
  "check_packages parse r ps = Inr [] \<longleftrightarrow>
     (\<forall>p \<in> set ps. let rel = relative (r_Module r) (k_ImportPath p) in rel = '''' \<or> has_prefix rel ''tools/''
        \<or> checkEdges r p rel = [] \<and> checkDeniedImports r p rel = [] \<and> checkNaming r p rel = [] \<and> checkSource parse r p rel = Inr [])"
proof (induction ps)
  case Nil
  then show ?case by simp
next
  case (Cons p ps)
  let ?rel = "relative (r_Module r) (k_ImportPath p)"
  have "check_packages parse r (p # ps) = Inr [] \<longleftrightarrow>
      (?rel = '''' \<or> has_prefix ?rel ''tools/'' \<or> checkEdges r p ?rel = [] \<and> checkDeniedImports r p ?rel = []
        \<and> checkNaming r p ?rel = [] \<and> checkSource parse r p ?rel = Inr []) \<and> check_packages parse r ps = Inr []"
    by (auto simp: Let_def map_sum_Inr_iff)
  then show ?case by (simp add: Cons.IH Let_def)
qed

lemma run_passes:
  assumes "loadRules read ''arch.json'' = Inr r" "listPackages output = Inr packages"
  shows "run read output parse = ([], Inr n) \<longleftrightarrow> n = length packages \<and> check_packages parse r packages = Inr []"
    and "snd (run read output parse) = Inr n \<Longrightarrow> fst (run read output parse) = []"
  using assms by (auto simp: run_def map_sum_Inr_iff split: sum.splits)


text \<open>
  Two limits of the rules. A module whose path merely starts with the path of this one counts as internal; and a context that is imported under
  another name is not seen.
\<close>

lemma sibling_counts_as_internal:
  "check_edges (zero_rules\<lparr>r_Module := ''x/foo'', r_InternalEdges := [(''id'', ([], 0))]\<rparr>) ''id'' [] [''x/foobar/baz'']
     = [''id imports bar/baz, which is not a declared edge of id'']"
  by code_simp

lemma alias_not_seen: "\<not> signatureTakesContext (Some [SelectorExpr (Ident ''stdctx'') ''Context''])"
  by code_simp

definition sample_arch :: json where
  "sample_arch = JObj [(''module'', JStr ''m''), (''internalEdges'', JObj [(''a'', JArr [JStr ''b''])]), (''pureSegments'', JArr [JStr ''a''])]"

definition sample_listing :: json where
  "sample_listing = JObj [(''ImportPath'', JStr ''m/a''), (''Name'', JStr ''a''), (''GoFiles'', JArr [JStr ''f.go'']), (''Imports'', JArr [JStr ''m/b''])]"

definition sample_source :: "string \<Rightarrow> string \<Rightarrow> node list result" where
  "sample_source dir name = Inr [OtherNode, FuncType 3 (Some [Ident ''int'']), GoStmt 4]"

definition sample_rules :: rules where
  "sample_rules = zero_rules\<lparr>r_Module := ''m'', r_InternalEdges := [(''a'', ([''b''], 1))], r_PureSegments := ([''a''], 1)\<rparr>"

definition sample_package :: pkg where
  "sample_package = zero_pkg\<lparr>k_ImportPath := ''m/a'', k_Name := ''a'', k_GoFiles := ([''f.go''], 1), k_Imports := ([''m/b''], 1)\<rparr>"

lemma sample_loaded: "loadRules (\<lambda>_. Inr (write_json sample_arch)) ''arch.json'' = Inr sample_rules"
proof -
  have u: "valid_utf8 ''module''" "valid_utf8 ''m''" "valid_utf8 ''internalEdges''" "valid_utf8 ''a''" "valid_utf8 ''b''" "valid_utf8 ''pureSegments''"
    by code_simp+
  have "parse_json (write_json sample_arch) = Some sample_arch"
    by (rule parse_write) (simp add: sample_arch_def u maxNestingDepth_def)
  moreover have "decode_rules sample_arch = Inr sample_rules" by code_simp
  moreover have "r_Module sample_rules \<noteq> ''''" by (simp add: sample_rules_def)
  ultimately show ?thesis by (simp add: loadRules_def)
qed

lemma sample_listed: "listPackages (Inr (write_json sample_listing)) = Inr [sample_package]"
proof -
  have u: "valid_utf8 ''ImportPath''" "valid_utf8 ''m/a''" "valid_utf8 ''Name''" "valid_utf8 ''a''" "valid_utf8 ''GoFiles''" "valid_utf8 ''f.go''"
    "valid_utf8 ''Imports''" "valid_utf8 ''m/b''" by code_simp+
  have w: "writable 0 sample_listing" by (simp add: sample_listing_def u maxNestingDepth_def)
  have p: "parse_value 0 (write_json sample_listing) = Some (sample_listing, [])"
    using parse_write_value[OF w, of "[]"] by (simp add: ends_value_def)
  have d: "decode_pkg sample_listing = Inr sample_package" by code_simp
  obtain rest where h: "write_json sample_listing = CHR ''{'' # rest" by (simp add: sample_listing_def)
  have s: "skip_space (write_json sample_listing) = write_json sample_listing" by (simp add: h skip_space_def json_space_def)
  have "decode_stream [] = Inr []" by (simp add: decode_stream.simps skip_space_def)
  then show ?thesis
    unfolding listPackages_def h using p s
    by (simp add: decode_stream.simps[of "CHR ''{'' # rest"] h d)
qed


end
