(* ===== verification/Migrations.thy ===== *)
theory Migrations
  imports Rfc3339 Store "HOL-Library.Multiset" "HOL-Library.List_Lexorder" "HOL-Library.Char_ord"
begin

text \<open>
  \<^verbatim>\<open>src/migrations\<close>: the order of the embedded migrations, and the maintenance of the daily partitions of \<^verbatim>\<open>platform.outbox\<close> and
  \<^verbatim>\<open>platform.outbox_delivery\<close> with the two stored functions of \<^verbatim>\<open>platform/0009_per_consumer_delivery.sql\<close>. A day is its number of days since
  January 1, year 1, and a child table is known by its day.
\<close>

section \<open>The embedded migrations\<close>

record dir_entry =
  f_name :: string
  f_dir :: bool

definition has_suffix :: "string \<Rightarrow> string \<Rightarrow> bool" where
  "has_suffix s p \<longleftrightarrow> has_prefix (rev s) (rev p)"

record migration =
  m_Name :: string
  m_SQL :: string

fun read_migrations :: "(string \<Rightarrow> string result) \<Rightarrow> string list \<Rightarrow> migration list result" where
  "read_migrations read [] = Inr []"
| "read_migrations read (name # names) =
     (case read name of
        Inl e \<Rightarrow> Inl (Wrapf (''migrations: reading '' @ name) [e])
      | Inr b \<Rightarrow> map_sum id (\<lambda>ms. \<lparr>m_Name = name, m_SQL = b\<rparr> # ms) (read_migrations read names))"

definition PlatformMigrations :: "dir_entry list result \<Rightarrow> (string \<Rightarrow> string result) \<Rightarrow> migration list result" where
  "PlatformMigrations dir read =
     (case dir of
        Inl e \<Rightarrow> Inl (Wrapf ''migrations: reading platform schema'' [e])
      | Inr entries \<Rightarrow>
          (let names = sort (map f_name (filter (\<lambda>e. \<not> f_dir e \<and> has_suffix (f_name e) ''.sql'') entries)) in
           bind_result (read_migrations read names) (\<lambda>ms.
             if ms = [] then Inl (New ''migrations: the platform schema is empty'') else Inr ms)))"

section \<open>Partitioned tables\<close>

definition day_ns :: int where "day_ns = 86400 * second_ns"

definition range_from :: "int \<Rightarrow> time" where
  "range_from d = d * day_ns"

definition in_day :: "int \<Rightarrow> time \<Rightarrow> bool" where
  "in_day d t \<longleftrightarrow> range_from d \<le> t \<and> t < range_from (d + 1)"

text \<open>The child tables with their rows, and the default partition.\<close>

type_synonym 'r table = "(int \<times> 'r list) list \<times> 'r list"

definition rows :: "'r table \<Rightarrow> 'r list" where
  "rows tb = concat (map snd (fst tb)) @ snd tb"

definition days :: "'r table \<Rightarrow> int set" where
  "days tb = fst ` set (fst tb)"

text \<open>Creating the child of a day moves its rows out of the default partition and attaches it.\<close>

definition create_child :: "('r \<Rightarrow> time) \<Rightarrow> int \<Rightarrow> 'r table \<Rightarrow> 'r table" where
  "create_child created d tb =
     (if d \<in> days tb then tb
      else (fst tb @ [(d, filter (\<lambda>r. in_day d (created r)) (snd tb))], filter (\<lambda>r. \<not> in_day d (created r)) (snd tb)))"

definition drop_child :: "int \<Rightarrow> 'r table \<Rightarrow> 'r table" where
  "drop_child d tb = (filter (\<lambda>c. fst c \<noteq> d) (fst tb), snd tb)"

text \<open>PostgreSQL routes a row to the child of its day, and to the default partition when there is none.\<close>

definition insert_row :: "('r \<Rightarrow> time) \<Rightarrow> 'r \<Rightarrow> 'r table \<Rightarrow> 'r table" where
  "insert_row created r tb =
     (if \<exists>d \<in> days tb. in_day d (created r)
      then (map (\<lambda>(d, rs). (d, if in_day d (created r) then rs @ [r] else rs)) (fst tb), snd tb)
      else (fst tb, snd tb @ [r]))"

definition map_rows :: "('r \<Rightarrow> 'r) \<Rightarrow> 'r table \<Rightarrow> 'r table" where
  "map_rows f tb = (map (\<lambda>(d, rs). (d, map f rs)) (fst tb), map f (snd tb))"

record partitions =
  pt_outbox :: "outbox_row table"
  pt_delivery :: "delivery table"
  pt_tracked :: "(int \<times> time \<times> time) list"

definition empty_partitions :: partitions where
  "empty_partitions = \<lparr>pt_outbox = ([], []), pt_delivery = ([], []), pt_tracked = []\<rparr>"

section \<open>The stored functions\<close>

definition ensure_day :: "int \<Rightarrow> partitions \<Rightarrow> partitions" where
  "ensure_day d st =
     st\<lparr>pt_outbox := create_child o_created_at d (pt_outbox st),
        pt_delivery := create_child d_created_at d (pt_delivery st),
        pt_tracked := (if d \<in> fst ` set (pt_tracked st) then pt_tracked st
                       else pt_tracked st @ [(d, range_from d, range_from (d + 1))])\<rparr>"

definition date_text :: "string \<Rightarrow> int \<Rightarrow> string" where
  "date_text sep d = (let (y, mo, dd) = civil_of_days d in year_text y @ sep @ two mo @ sep @ two dd)"

definition child_name :: "int \<Rightarrow> string" where
  "child_name d = ''outbox_'' @ date_text '''' d"

definition ensure_outbox_partitions :: "int \<Rightarrow> int \<Rightarrow> partitions \<Rightarrow> string list result \<times> partitions" where
  "ensure_outbox_partitions from_day through_day st =
     (if through_day < from_day then (Inl (New ''invalid outbox partition window''), st)
      else (Inr (map child_name [from_day..through_day]), fold ensure_day [from_day..through_day] st))"

definition owed :: "int \<Rightarrow> partitions \<Rightarrow> bool" where
  "owed d st = (case map_of (fst (pt_delivery st)) d of None \<Rightarrow> False | Some ds \<Rightarrow> list_ex (\<lambda>r. \<not> d_published r) ds)"

definition untrack :: "int \<Rightarrow> partitions \<Rightarrow> partitions" where
  "untrack d st = st\<lparr>pt_tracked := filter (\<lambda>p. fst p \<noteq> d) (pt_tracked st)\<rparr>"

definition drop_candidate :: "int \<Rightarrow> string list \<times> partitions \<Rightarrow> string list \<times> partitions" where
  "drop_candidate d s =
     (case s of
        (names, st) \<Rightarrow>
          if d \<notin> days (pt_outbox st) then (names, untrack d (st\<lparr>pt_delivery := drop_child d (pt_delivery st)\<rparr>))
          else if owed d st then (names, st)
          else (names @ [child_name d],
                untrack d (st\<lparr>pt_delivery := drop_child d (pt_delivery st), pt_outbox := drop_child d (pt_outbox st)\<rparr>)))"

definition drop_candidates :: "time \<Rightarrow> partitions \<Rightarrow> int list" where
  "drop_candidates retain_after st = map fst (sort_key (\<lambda>p. fst (snd p)) (filter (\<lambda>p. snd (snd p) \<le> retain_after) (pt_tracked st)))"

definition drop_outbox_partitions :: "time \<Rightarrow> partitions \<Rightarrow> string list \<times> partitions" where
  "drop_outbox_partitions retain_after st = fold drop_candidate (drop_candidates retain_after st) ([], st)"

section \<open>The Go operations\<close>

definition day_of :: "time \<Rightarrow> int" where
  "day_of t = t div day_ns"

text \<open>\<open>failed\<close> is the error of the statement itself, which changes nothing; the days travel as texts and are compared as texts.\<close>

definition EnsureOutboxPartitions :: "tx_value \<Rightarrow> goerror option \<Rightarrow> time \<Rightarrow> time \<Rightarrow> partitions \<Rightarrow> string list result \<times> partitions" where
  "EnsureOutboxPartitions tx failed fromDay throughDay st =
     (if IsNilTx tx then (Inl (New ''migrations: a transaction handle is required''), st)
      else if fromDay = 0 \<or> throughDay = 0 then (Inl (New ''migrations: partition window is required''), st)
      else let from = date_text ''-'' (day_of fromDay); through = date_text ''-'' (day_of throughDay) in
        if through < from then (Inl (New ''migrations: partition window ends before it starts''), st)
        else case failed of
          Some e \<Rightarrow> (Inl (Wrapf ''migrations: ensuring outbox partitions'' [e]), st)
        | None \<Rightarrow>
            (case ensure_outbox_partitions (day_of fromDay) (day_of throughDay) st of
               (Inl e, st') \<Rightarrow> (Inl (Wrapf ''migrations: ensuring outbox partitions'' [e]), st')
             | (Inr names, st') \<Rightarrow> (Inr (sort names), st')))"

definition DropPublishedOutboxPartitions :: "tx_value \<Rightarrow> goerror option \<Rightarrow> time \<Rightarrow> partitions \<Rightarrow> string list result \<times> partitions" where
  "DropPublishedOutboxPartitions tx failed retainAfter st =
     (if IsNilTx tx then (Inl (New ''migrations: a transaction handle is required''), st)
      else if retainAfter = 0 then (Inl (New ''migrations: retention boundary is required''), st)
      else case failed of
        Some e \<Rightarrow> (Inl (Wrapf ''migrations: dropping published outbox partitions'' [e]), st)
      | None \<Rightarrow> (case drop_outbox_partitions retainAfter st of (names, st') \<Rightarrow> (Inr (sort names), st')))"

section \<open>The invariant of the partitions\<close>

definition wf_table :: "('r \<Rightarrow> time) \<Rightarrow> 'r table \<Rightarrow> bool" where
  "wf_table created tb \<longleftrightarrow> distinct (map fst (fst tb)) \<and> (\<forall>(d, rs) \<in> set (fst tb). \<forall>r \<in> set rs. in_day d (created r))
     \<and> (\<forall>r \<in> set (snd tb). \<forall>d \<in> days tb. \<not> in_day d (created r))"

definition lockstep :: "partitions \<Rightarrow> bool" where
  "lockstep st \<longleftrightarrow> wf_table o_created_at (pt_outbox st) \<and> wf_table d_created_at (pt_delivery st)
     \<and> days (pt_delivery st) = days (pt_outbox st) \<and> fst ` set (pt_tracked st) = days (pt_outbox st)
     \<and> (\<forall>(d, a, b) \<in> set (pt_tracked st). a = range_from d \<and> b = range_from (d + 1))"

lemma in_day_unique: "in_day d t \<Longrightarrow> in_day e t \<Longrightarrow> d = e"
proof -
  assume d: "in_day d t" and e: "in_day e t"
  then have "d * day_ns < (e + 1) * day_ns" "e * day_ns < (d + 1) * day_ns" by (auto simp: in_day_def range_from_def)
  then have "d < e + 1" "e < d + 1" by (simp_all add: day_ns_def second_ns_def)
  then show "d = e" by simp
qed

lemma in_day_of: "in_day (day_of t) t"
proof -
  have "t div day_ns * day_ns + t mod day_ns = t" "0 \<le> t mod day_ns" "t mod day_ns < day_ns" by (simp_all add: day_ns_def second_ns_def)
  then show ?thesis unfolding in_day_def range_from_def day_of_def by (simp only: distrib_right mult_1) linarith
qed

lemma days_create [simp]: "days (create_child created d tb) = insert d (days tb)"
  by (auto simp: create_child_def days_def)

lemma wf_create: "wf_table created tb \<Longrightarrow> wf_table created (create_child created d tb)"
  using in_day_unique by (fastforce simp: wf_table_def create_child_def days_def split: if_splits)

lemma mset_create: "mset (rows (create_child created d tb)) = mset (rows tb)"
  by (simp add: create_child_def rows_def)

lemma days_drop [simp]: "days (drop_child d tb) = days tb - {d}"
  by (auto simp: drop_child_def days_def)

lemma wf_drop: "wf_table created tb \<Longrightarrow> wf_table created (drop_child d tb)"
  by (auto simp: wf_table_def drop_child_def days_def distinct_map_filter)

lemma rows_iff: "r \<in> set (rows tb) \<longleftrightarrow> r \<in> set (snd tb) \<or> (\<exists>d rs. (d, rs) \<in> set (fst tb) \<and> r \<in> set rs)"
  by (force simp: rows_def)

lemma child_day: "wf_table created tb \<Longrightarrow> (d, rs) \<in> set (fst tb) \<Longrightarrow> r \<in> set rs \<Longrightarrow> d \<in> days tb \<and> in_day d (created r)"
  by (force simp: wf_table_def days_def)

lemma default_day: "wf_table created tb \<Longrightarrow> r \<in> set (snd tb) \<Longrightarrow> d \<in> days tb \<Longrightarrow> \<not> in_day d (created r)"
  by (simp add: wf_table_def)

lemma rows_drop:
  assumes w: "wf_table created tb"
  shows "r \<in> set (rows (drop_child d tb)) \<longleftrightarrow> r \<in> set (rows tb) \<and> \<not> (d \<in> days tb \<and> in_day d (created r))"
proof -
  have "(\<exists>e rs. (e, rs) \<in> set (fst tb) \<and> e \<noteq> d \<and> r \<in> set rs) \<longleftrightarrow>
      (\<exists>e rs. (e, rs) \<in> set (fst tb) \<and> r \<in> set rs) \<and> \<not> (d \<in> days tb \<and> in_day d (created r))" (is "?l = ?r")
    if "r \<notin> set (snd tb)"
  proof
    assume ?l
    then show ?r using child_day[OF w] in_day_unique by blast
  next
    assume ?r
    then show ?l using child_day[OF w] by blast
  qed
  then show ?thesis using default_day[OF w] unfolding rows_iff by (auto simp: drop_child_def)
qed

text \<open>Rows that change or are added within their days.\<close>

lemma map_children_fst: "map fst (map (\<lambda>(d, rs). (d, g d rs)) cs) = map fst cs"
  by (simp add: comp_def case_prod_unfold)

lemma days_children: "days (map (\<lambda>(d, rs). (d, g d rs)) cs, df) = fst ` set cs"
  by (force simp: days_def)

lemma wf_children:
  assumes "distinct (map fst cs)" "\<And>d rs r. (d, rs) \<in> set cs \<Longrightarrow> r \<in> set (g d rs) \<Longrightarrow> in_day d (created r)"
    "\<And>r d. r \<in> set df \<Longrightarrow> d \<in> fst ` set cs \<Longrightarrow> \<not> in_day d (created r)"
  shows "wf_table created (map (\<lambda>(d, rs). (d, g d rs)) cs, df)"
  unfolding wf_table_def days_children fst_conv snd_conv map_children_fst using assms by auto

lemma wf_distinct: "wf_table created tb \<Longrightarrow> distinct (map fst (fst tb))"
  by (simp add: wf_table_def)

lemma days_insert [simp]: "days (insert_row created r tb) = days tb"
  by (simp add: insert_row_def days_children) (simp add: days_def)

lemma wf_insert:
  assumes "wf_table created tb"
  shows "wf_table created (insert_row created r tb)"
proof (cases "\<exists>d \<in> days tb. in_day d (created r)")
  case True
  have "wf_table created (map (\<lambda>(d, rs). (d, if in_day d (created r) then rs @ [r] else rs)) (fst tb), snd tb)"
    using child_day[OF assms] default_day[OF assms]
    by (intro wf_children wf_distinct[OF assms]) (auto simp: days_def split: if_splits)
  with True show ?thesis by (simp add: insert_row_def)
next
  case False
  then show ?thesis using assms by (auto simp: wf_table_def insert_row_def days_def)
qed

lemma days_map_rows [simp]: "days (map_rows f tb) = days tb"
  by (simp add: map_rows_def days_children) (simp add: days_def)

lemma wf_map_rows:
  assumes "\<And>r. created (f r) = created r" "wf_table created tb"
  shows "wf_table created (map_rows f tb)"
  unfolding map_rows_def using child_day[OF assms(2)] default_day[OF assms(2)] assms(1)
  by (intro wf_children wf_distinct[OF assms(2)]) (fastforce simp: days_def)+

lemma lockstep_ensure_day: "lockstep st \<Longrightarrow> lockstep (ensure_day d st)"
  by (auto simp: lockstep_def ensure_day_def wf_create)

lemma lockstep_drop_candidate:
  assumes "lockstep st"
  shows "lockstep (snd (drop_candidate d (names, st)))"
  using assms by (auto simp: lockstep_def drop_candidate_def untrack_def wf_drop image_iff split: if_splits)

text \<open>
  The history of a database: events with their deliveries, changes of deliveries, and maintenance. An event and its deliveries have one
  \<^verbatim>\<open>created_at\<close>.
\<close>

inductive maintained :: "partitions \<Rightarrow> bool" where
  fresh: "maintained empty_partitions"
| appended: "maintained st \<Longrightarrow> (\<And>r. r \<in> set ds \<Longrightarrow> d_created_at r = o_created_at e) \<Longrightarrow>
    maintained (st\<lparr>pt_outbox := insert_row o_created_at e (pt_outbox st), pt_delivery := fold (insert_row d_created_at) ds (pt_delivery st)\<rparr>)"
| changed: "maintained st \<Longrightarrow> (\<And>r. d_created_at (f r) = d_created_at r) \<Longrightarrow> maintained (st\<lparr>pt_delivery := map_rows f (pt_delivery st)\<rparr>)"
| ensured: "maintained st \<Longrightarrow> EnsureOutboxPartitions tx failed a b st = (res, st') \<Longrightarrow> maintained st'"
| dropped: "maintained st \<Longrightarrow> DropPublishedOutboxPartitions tx failed t st = (res, st') \<Longrightarrow> maintained st'"

lemma lockstep_fold_ensure: "lockstep st \<Longrightarrow> lockstep (fold ensure_day ds st)"
  by (induction ds arbitrary: st) (auto simp: lockstep_ensure_day)

lemma lockstep_fold_drop: "lockstep (snd s) \<Longrightarrow> lockstep (snd (fold drop_candidate ds s))"
proof (induction ds arbitrary: s)
  case Nil
  then show ?case by simp
next
  case (Cons d ds)
  then show ?case using lockstep_drop_candidate[of "snd s" d "fst s"] by simp
qed

lemma lockstep_Ensure: "lockstep st \<Longrightarrow> EnsureOutboxPartitions tx failed a b st = (res, st') \<Longrightarrow> lockstep st'"
  by (auto simp: EnsureOutboxPartitions_def ensure_outbox_partitions_def Let_def lockstep_fold_ensure split: if_splits option.splits)

lemma lockstep_Drop: "lockstep st \<Longrightarrow> DropPublishedOutboxPartitions tx failed t st = (res, st') \<Longrightarrow> lockstep st'"
  using lockstep_fold_drop[of "([], st)"]
  by (auto simp: DropPublishedOutboxPartitions_def drop_outbox_partitions_def split: if_splits option.splits prod.splits) (metis snd_conv)

lemma maintained_lockstep: "maintained st \<Longrightarrow> lockstep st"
proof (induction rule: maintained.induct)
  case fresh
  then show ?case by (simp add: lockstep_def empty_partitions_def wf_table_def days_def)
next
  case (appended st ds e)
  have "wf_table d_created_at (fold (insert_row d_created_at) ds tb) \<and> days (fold (insert_row d_created_at) ds tb) = days tb"
    if "wf_table d_created_at tb" for tb
    using that by (induction ds arbitrary: tb) (auto simp: wf_insert)
  then show ?case using appended.IH by (auto simp: lockstep_def wf_insert)
next
  case (changed st f)
  then show ?case by (auto simp: lockstep_def wf_map_rows)
next
  case (ensured st tx failed a b res st')
  then show ?case using lockstep_Ensure by blast
next
  case (dropped st tx failed t res st')
  then show ?case using lockstep_Drop by blast
qed

section \<open>What maintenance keeps\<close>

lemma rows_fold_ensure:
  "mset (rows (pt_outbox (fold ensure_day ds st))) = mset (rows (pt_outbox st))
   \<and> mset (rows (pt_delivery (fold ensure_day ds st))) = mset (rows (pt_delivery st))
   \<and> days (pt_outbox (fold ensure_day ds st)) = set ds \<union> days (pt_outbox st)"
  by (induction ds arbitrary: st) (auto simp: ensure_day_def mset_create)

text \<open>
  C38: Creating partitions ahead of time never touches an event: in every state the appends, the dispatchers and the maintenance can reach, the rows of
  the two tables are the same before and after, each day of the window has its partition in both tables, and no row of those days is left in a
  default partition. A refused or failed call changes nothing.
\<close>

theorem ensure_keeps_rows:
  assumes "maintained st" "EnsureOutboxPartitions tx failed fromDay throughDay st = (res, st')"
  shows "mset (rows (pt_outbox st')) = mset (rows (pt_outbox st)) \<and> mset (rows (pt_delivery st')) = mset (rows (pt_delivery st))
    \<and> (case res of
         Inl e \<Rightarrow> st' = st
       | Inr names \<Rightarrow>
           names = sort (map child_name [day_of fromDay..day_of throughDay])
           \<and> {day_of fromDay..day_of throughDay} \<subseteq> days (pt_outbox st') \<inter> days (pt_delivery st')
           \<and> (\<forall>d \<in> {day_of fromDay..day_of throughDay}.
                (\<forall>r \<in> set (snd (pt_outbox st')). \<not> in_day d (o_created_at r)) \<and> (\<forall>r \<in> set (snd (pt_delivery st')). \<not> in_day d (d_created_at r))))"
proof -
  have l: "lockstep st'" using lockstep_Ensure[OF maintained_lockstep[OF assms(1)] assms(2)] .
  have cases: "st' = st \<and> (\<exists>e. res = Inl e)
      \<or> st' = fold ensure_day [day_of fromDay..day_of throughDay] st \<and> res = Inr (sort (map child_name [day_of fromDay..day_of throughDay]))"
    using assms(2) by (auto simp: EnsureOutboxPartitions_def ensure_outbox_partitions_def Let_def split: if_splits option.splits)
  then show ?thesis
  proof
    assume "st' = st \<and> (\<exists>e. res = Inl e)"
    then show ?thesis by auto
  next
    assume r: "st' = fold ensure_day [day_of fromDay..day_of throughDay] st \<and> res = Inr (sort (map child_name [day_of fromDay..day_of throughDay]))"
    have d: "{day_of fromDay..day_of throughDay} \<subseteq> days (pt_outbox st')" using r rows_fold_ensure[of "[day_of fromDay..day_of throughDay]" st] by auto
    have e: "days (pt_delivery st') = days (pt_outbox st')" "wf_table o_created_at (pt_outbox st')" "wf_table d_created_at (pt_delivery st')"
      using l by (auto simp: lockstep_def)
    show ?thesis
      using r rows_fold_ensure[of "[day_of fromDay..day_of throughDay]" st] d e(1) default_day[OF e(2)] default_day[OF e(3)] by auto
  qed
qed

text \<open>What is still owed of a day, and the days a list of candidates loses.\<close>

definition owes :: "int \<Rightarrow> partitions \<Rightarrow> bool" where
  "owes d st \<longleftrightarrow> (\<exists>r \<in> set (rows (pt_delivery st)). in_day d (d_created_at r) \<and> \<not> d_published r)"

definition settled :: "int list \<Rightarrow> partitions \<Rightarrow> int set" where
  "settled ds st = {d \<in> set ds. d \<in> days (pt_outbox st) \<and> \<not> owes d st}"

lemma owed_iff:
  assumes "lockstep st" "d \<in> days (pt_outbox st)"
  shows "owed d st \<longleftrightarrow> owes d st"
proof -
  have w: "wf_table d_created_at (pt_delivery st)" and k: "d \<in> days (pt_delivery st)" using assms by (auto simp: lockstep_def)
  obtain rs where rs: "map_of (fst (pt_delivery st)) d = Some rs" "(d, rs) \<in> set (fst (pt_delivery st))"
    using k map_of_SomeD map_of_eq_None_iff[of "fst (pt_delivery st)" d] by (fastforce simp: days_def)
  have "r \<in> set rs \<longleftrightarrow> r \<in> set (rows (pt_delivery st)) \<and> in_day d (d_created_at r)" for r
  proof
    assume "r \<in> set rs"
    then show "r \<in> set (rows (pt_delivery st)) \<and> in_day d (d_created_at r)" using rs(2) child_day[OF w] by (auto simp: rows_iff)
  next
    assume r: "r \<in> set (rows (pt_delivery st)) \<and> in_day d (d_created_at r)"
    then obtain e rs' where e: "(e, rs') \<in> set (fst (pt_delivery st))" "r \<in> set rs'" using default_day[OF w] k by (auto simp: rows_iff)
    then have "e = d" using r child_day[OF w e] in_day_unique by blast
    then have "rs' = rs" using map_of_is_SomeI[OF wf_distinct[OF w]] e(1) rs(1) by fastforce
    with e(2) show "r \<in> set rs" by simp
  qed
  then show ?thesis using rs(1) by (auto simp: owed_def owes_def list_ex_iff)
qed

definition remain :: "int set \<Rightarrow> partitions \<Rightarrow> partitions \<Rightarrow> bool" where
  "remain gone st st' \<longleftrightarrow> days (pt_outbox st') = days (pt_outbox st) - gone
     \<and> (\<forall>r. r \<in> set (rows (pt_outbox st')) \<longleftrightarrow> r \<in> set (rows (pt_outbox st)) \<and> \<not> (\<exists>d \<in> gone. in_day d (o_created_at r)))
     \<and> (\<forall>r. r \<in> set (rows (pt_delivery st')) \<longleftrightarrow> r \<in> set (rows (pt_delivery st)) \<and> \<not> (\<exists>d \<in> gone. in_day d (d_created_at r)))"

lemma remain_one:
  assumes "lockstep st"
  shows "remain (settled [d] st) st (snd (drop_candidate d (names, st)))"
proof (cases "d \<in> days (pt_outbox st)")
  case False
  have "drop_child d (pt_delivery st) = pt_delivery st"
  proof -
    have "d \<notin> fst ` set (fst (pt_delivery st))" using False assms by (simp add: lockstep_def days_def)
    then have "filter (\<lambda>c. fst c \<noteq> d) (fst (pt_delivery st)) = fst (pt_delivery st)" by (force simp: filter_id_conv)
    then show ?thesis by (simp add: drop_child_def)
  qed
  moreover have "settled [d] st = {}" using False by (auto simp: settled_def)
  ultimately show ?thesis using False by (simp add: remain_def drop_candidate_def untrack_def)
next
  case True
  have w: "wf_table o_created_at (pt_outbox st)" "wf_table d_created_at (pt_delivery st)" "days (pt_delivery st) = days (pt_outbox st)"
    using assms by (auto simp: lockstep_def)
  have "settled [d] st = (if owes d st then {} else {d})" using True by (auto simp: settled_def)
  then show ?thesis
    using True owed_iff[OF assms True] rows_drop[OF w(1), of _ d] rows_drop[OF w(2), of _ d] w(3)
    by (cases "owes d st") (simp_all add: remain_def drop_candidate_def untrack_def)
qed

lemma settled_Cons:
  assumes "remain (settled [d] st) st st1"
  shows "settled (d # ds) st = settled [d] st \<union> settled ds st1"
proof -
  have "owes e st1 = owes e st" if "e \<notin> settled [d] st" for e
    using assms that in_day_unique unfolding owes_def remain_def by blast
  then have "e \<in> settled ds st1 \<longleftrightarrow> e \<in> set ds \<and> e \<in> days (pt_outbox st) \<and> \<not> owes e st" if "e \<notin> settled [d] st" for e
    using assms that by (auto simp: settled_def remain_def)
  moreover have "settled (d # ds) st = settled [d] st \<union> {e \<in> set ds. e \<in> days (pt_outbox st) \<and> \<not> owes e st}"
    by (auto simp: settled_def)
  moreover have "settled ds st1 \<inter> settled [d] st = {}" using assms by (auto simp: settled_def remain_def)
  ultimately show ?thesis by blast
qed

lemma remain_trans:
  assumes "remain (settled [d] st) st st1" "remain (settled ds st1) st1 st'"
  shows "remain (settled (d # ds) st) st st'"
proof -
  have s: "settled (d # ds) st = settled [d] st \<union> settled ds st1" by (rule settled_Cons[OF assms(1)])
  show ?thesis using assms unfolding remain_def s by auto
qed

lemma names_one:
  assumes "lockstep st"
  shows "set (fst (drop_candidate d (names, st))) = set names \<union> child_name ` settled [d] st"
  using owed_iff[OF assms, of d] by (auto simp: drop_candidate_def settled_def)

lemma remain_fold: "lockstep (snd s) \<Longrightarrow> remain (settled ds (snd s)) (snd s) (snd (fold drop_candidate ds s))"
proof (induction ds arbitrary: s)
  case Nil
  then show ?case by (simp add: remain_def settled_def)
next
  case (Cons d ds)
  have one: "remain (settled [d] (snd s)) (snd s) (snd (drop_candidate d s))" using remain_one[OF Cons.prems, of d "fst s"] by simp
  have "lockstep (snd (drop_candidate d s))" using lockstep_drop_candidate[OF Cons.prems, of d "fst s"] by simp
  from remain_trans[OF one Cons.IH[OF this]] show ?case by simp
qed

lemma names_fold:
  "lockstep (snd s) \<Longrightarrow> set (fst (fold drop_candidate ds s)) = set (fst s) \<union> child_name ` settled ds (snd s)"
proof (induction ds arbitrary: s)
  case Nil
  then show ?case by (simp add: settled_def)
next
  case (Cons d ds)
  have one: "remain (settled [d] (snd s)) (snd s) (snd (drop_candidate d s))" using remain_one[OF Cons.prems, of d "fst s"] by simp
  have "lockstep (snd (drop_candidate d s))" using lockstep_drop_candidate[OF Cons.prems, of d "fst s"] by simp
  from Cons.IH[OF this] names_one[OF Cons.prems, of d "fst s"] settled_Cons[OF one, of ds] show ?case by auto
qed

lemma settled_candidates:
  assumes "lockstep st"
  shows "settled (drop_candidates retainAfter st) st
    = {d \<in> days (pt_outbox st). range_from (d + 1) \<le> retainAfter \<and> \<not> owes d st}"
proof -
  have "d \<in> set (drop_candidates retainAfter st) \<longleftrightarrow> d \<in> days (pt_outbox st) \<and> range_from (d + 1) \<le> retainAfter" for d
    using assms unfolding drop_candidates_def lockstep_def by (force simp: image_iff)
  then show ?thesis by (auto simp: settled_def)
qed

text \<open>
  C6: Dropping old partitions drops what is settled and never loses work. In every state the appends, the dispatchers and the maintenance can reach, the
  days that go are exactly the days with a partition that ended at or before the retention boundary and on which every delivery is published; the names
  reported are theirs; the rows that remain, in both tables, are exactly those not created on such a day: an event whose delivery to some consumer is
  still owed stays, with that delivery, and so does every row created at or after the boundary.
\<close>

theorem drop_keeps_owed:
  assumes "maintained st" "DropPublishedOutboxPartitions tx failed retainAfter st = (Inr names, st')"
    and "gone = {d \<in> days (pt_outbox st). range_from (d + 1) \<le> retainAfter
      \<and> (\<forall>r \<in> set (rows (pt_delivery st)). in_day d (d_created_at r) \<longrightarrow> d_published r)}"
  shows "days (pt_outbox st') = days (pt_outbox st) - gone \<and> set names = child_name ` gone
    \<and> (\<forall>e. e \<in> set (rows (pt_outbox st')) \<longleftrightarrow> e \<in> set (rows (pt_outbox st)) \<and> \<not> (\<exists>d \<in> gone. in_day d (o_created_at e)))
    \<and> (\<forall>r. r \<in> set (rows (pt_delivery st')) \<longleftrightarrow> r \<in> set (rows (pt_delivery st)) \<and> \<not> (\<exists>d \<in> gone. in_day d (d_created_at r)))
    \<and> (\<forall>r \<in> set (rows (pt_delivery st)). \<not> d_published r \<longrightarrow> r \<in> set (rows (pt_delivery st'))
        \<and> (\<forall>e \<in> set (rows (pt_outbox st)). o_created_at e = d_created_at r \<longrightarrow> e \<in> set (rows (pt_outbox st'))))
    \<and> (\<forall>e \<in> set (rows (pt_outbox st)). retainAfter \<le> o_created_at e \<longrightarrow> e \<in> set (rows (pt_outbox st')))"
proof -
  have l: "lockstep st" using maintained_lockstep[OF assms(1)] .
  let ?ds = "drop_candidates retainAfter st"
  have d: "set names = set (fst (fold drop_candidate ?ds ([], st)))" "st' = snd (fold drop_candidate ?ds ([], st))"
    using assms(2) by (auto simp: DropPublishedOutboxPartitions_def drop_outbox_partitions_def split: if_splits option.splits prod.splits)
  have gone: "settled ?ds st = gone" unfolding settled_candidates[OF l] assms(3) owes_def by blast
  have r: "remain gone st st'" using remain_fold[of "([], st)" ?ds] l d(2) gone by simp
  have n: "set names = child_name ` gone" using names_fold[of "([], st)" ?ds] l d(1) gone by simp
  have o: "\<not> (\<exists>d \<in> gone. in_day d (d_created_at r))" if "r \<in> set (rows (pt_delivery st))" "\<not> d_published r" for r
    using that by (auto simp: assms(3))
  have late: "\<not> (\<exists>d \<in> gone. in_day d t)" if "retainAfter \<le> t" for t using that by (force simp: assms(3) in_day_def)
  show ?thesis by (intro conjI ballI impI) (use r n o late in \<open>auto simp: remain_def\<close>)
qed

text \<open>A day with a published and a day with an owed delivery, both before the boundary.\<close>

definition sample_outbox :: "time \<Rightarrow> outbox_row" where
  "sample_outbox t = \<lparr>o_created_at = t, o_event_id = ''e'', o_sequence = 1, o_event_type = ''t'', o_aggregate_id = ''a'', o_priority = 0,
     o_payload = JNull, o_envelope = JNull\<rparr>"

definition sample_owed :: "time \<Rightarrow> bool \<Rightarrow> delivery" where
  "sample_owed t published = \<lparr>d_created_at = t, d_event_id = ''e'', d_consumer = ''c'', d_sequence = 1, d_event_type = ''t'', d_priority = 0,
     d_published = published, d_published_at = None, d_attempts = 0, d_last_error = None, d_failure_class = None, d_first_failed_at = None,
     d_next_attempt_at = None, d_lease_id = None, d_leased_until = None\<rparr>"

definition sample_partitions :: partitions where
  "sample_partitions = snd (EnsureOutboxPartitions (TxValue Pointer False) None day_ns (2 * day_ns)
     (empty_partitions\<lparr>pt_outbox := ([], [sample_outbox (day_ns + 1), sample_outbox (2 * day_ns + 1)]),
        pt_delivery := ([], [sample_owed (day_ns + 1) True, sample_owed (2 * day_ns + 1) False])\<rparr>))"

lemma sample_appended:
  "maintained (empty_partitions\<lparr>pt_outbox := ([], [sample_outbox (day_ns + 1), sample_outbox (2 * day_ns + 1)]),
     pt_delivery := ([], [sample_owed (day_ns + 1) True, sample_owed (2 * day_ns + 1) False])\<rparr>)"
proof -
  have "maintained (empty_partitions\<lparr>pt_outbox := ([], [sample_outbox (day_ns + 1)]), pt_delivery := ([], [sample_owed (day_ns + 1) True])\<rparr>)"
    using appended[OF fresh, of "[sample_owed (day_ns + 1) True]" "sample_outbox (day_ns + 1)"]
    by (simp add: insert_row_def days_def empty_partitions_def sample_owed_def sample_outbox_def)
  from appended[OF this, of "[sample_owed (2 * day_ns + 1) False]" "sample_outbox (2 * day_ns + 1)"]
  show ?thesis by (simp add: insert_row_def days_def empty_partitions_def sample_owed_def sample_outbox_def)
qed

lemma sample_maintained: "maintained sample_partitions"
proof -
  obtain res st' where e: "EnsureOutboxPartitions (TxValue Pointer False) None day_ns (2 * day_ns)
     (empty_partitions\<lparr>pt_outbox := ([], [sample_outbox (day_ns + 1), sample_outbox (2 * day_ns + 1)]),
        pt_delivery := ([], [sample_owed (day_ns + 1) True, sample_owed (2 * day_ns + 1) False])\<rparr>) = (res, st')" by fastforce
  from ensured[OF sample_appended e] e show ?thesis by (simp add: sample_partitions_def)
qed

theorem ensure_keeps_rows_witness:
  "mset (rows (pt_delivery sample_partitions)) = {#sample_owed (day_ns + 1) True, sample_owed (2 * day_ns + 1) False#}"
proof -
  obtain res st' where e: "EnsureOutboxPartitions (TxValue Pointer False) None day_ns (2 * day_ns)
     (empty_partitions\<lparr>pt_outbox := ([], [sample_outbox (day_ns + 1), sample_outbox (2 * day_ns + 1)]),
        pt_delivery := ([], [sample_owed (day_ns + 1) True, sample_owed (2 * day_ns + 1) False])\<rparr>) = (res, st')" by fastforce
  from ensure_keeps_rows[OF sample_appended e] e show ?thesis by (simp add: sample_partitions_def rows_def)
qed

theorem drop_keeps_owed_witness:
  "\<exists>st'. DropPublishedOutboxPartitions (TxValue Pointer False) None (9 * day_ns) sample_partitions = (Inr [''outbox_00010102''], st')
     \<and> sample_owed (2 * day_ns + 1) False \<in> set (rows (pt_delivery st')) \<and> sample_outbox (2 * day_ns + 1) \<in> set (rows (pt_outbox st'))"
proof -
  have n: "fst (DropPublishedOutboxPartitions (TxValue Pointer False) None (9 * day_ns) sample_partitions) = Inr [''outbox_00010102'']" by code_simp
  obtain res st' where d: "DropPublishedOutboxPartitions (TxValue Pointer False) None (9 * day_ns) sample_partitions = (res, st')" by fastforce
  then have "DropPublishedOutboxPartitions (TxValue Pointer False) None (9 * day_ns) sample_partitions = (Inr [''outbox_00010102''], st')" using n by simp
  note k = drop_keeps_owed[OF sample_maintained this refl, THEN conjunct2, THEN conjunct2, THEN conjunct2, THEN conjunct2, THEN conjunct1, rule_format]
  have m: "sample_owed (2 * day_ns + 1) False \<in> set (rows (pt_delivery sample_partitions))"
    "sample_outbox (2 * day_ns + 1) \<in> set (rows (pt_outbox sample_partitions))" by code_simp+
  have "sample_owed (2 * day_ns + 1) False \<in> set (rows (pt_delivery st')) \<and> sample_outbox (2 * day_ns + 1) \<in> set (rows (pt_outbox st'))"
    using k[OF m(1)] m(2) by (simp add: sample_owed_def sample_outbox_def)
  then show ?thesis using d n by auto
qed

section \<open>The order of the migrations\<close>

lemma read_migrations_Inr:
  "read_migrations read names = Inr ms \<Longrightarrow> map m_Name ms = names \<and> (\<forall>m \<in> set ms. read (m_Name m) = Inr (m_SQL m))"
proof (induction names arbitrary: ms)
  case Nil
  then show ?case by simp
next
  case (Cons name names)
  then obtain b ms' where "read name = Inr b" "read_migrations read names = Inr ms'" "ms = \<lparr>m_Name = name, m_SQL = b\<rparr> # ms'"
    by (cases "read name"; cases "read_migrations read names") auto
  with Cons.IH show ?case by simp
qed

text \<open>The set is applied in the order of the file names, and no SQL file of the directory is left out.\<close>

lemma PlatformMigrations_ordered:
  assumes "PlatformMigrations (Inr entries) read = Inr ms"
  shows "ms \<noteq> []" "sorted (map m_Name ms)" "\<forall>m \<in> set ms. read (m_Name m) = Inr (m_SQL m)"
    "mset (map m_Name ms) = mset (map f_name (filter (\<lambda>e. \<not> f_dir e \<and> has_suffix (f_name e) ''.sql'') entries))"
proof -
  let ?names = "sort (map f_name (filter (\<lambda>e. \<not> f_dir e \<and> has_suffix (f_name e) ''.sql'') entries))"
  have r: "read_migrations read ?names = Inr ms" "ms \<noteq> []" using assms by (auto simp: PlatformMigrations_def Let_def split: if_splits)
  note n = read_migrations_Inr[OF r(1)]
  then have m: "map m_Name ms = ?names" by simp
  show "ms \<noteq> []" by (rule r(2))
  show "\<forall>m \<in> set ms. read (m_Name m) = Inr (m_SQL m)" using n by simp
  show "sorted (map m_Name ms)" unfolding m by simp
  show "mset (map m_Name ms) = mset (map f_name (filter (\<lambda>e. \<not> f_dir e \<and> has_suffix (f_name e) ''.sql'') entries))" unfolding m by simp
qed

end
