(* ===== verification/Dbtest.thy ===== *)
theory Dbtest
  imports Decimal
begin

text \<open>
  \<^verbatim>\<open>src/db/dbtest\<close>: the transaction that records statements instead of running them, and its result cursor. A value is \<open>None\<close> for nil. What
  reflection finds of a destination is a \<open>dest\<close>; \<open>put ty v\<close> is the value a pointer to \<open>ty\<close> receives when \<open>v\<close> can be assigned or converted to it.
\<close>

record 'v call =
  c_SQL :: string
  c_Args :: "'v option list"

datatype 'ty dest = NilDest | NotPointer | NilPointer | Into 'ty

text \<open>The writes of a scan, by destination, and its result: a failed scan has made the writes before.\<close>

fun scan_from :: "('ty \<Rightarrow> 'v \<Rightarrow> 'v option) \<Rightarrow> nat \<Rightarrow> 'v option list \<Rightarrow> 'ty dest list \<Rightarrow> (nat \<times> 'v option) list \<times> unit result" where
  "scan_from put i (v # vs) (d # ds) =
     (case d of
        NilDest \<Rightarrow> scan_from put (Suc i) vs ds
      | Into ty \<Rightarrow>
          (case v of
             None \<Rightarrow> map_prod (\<lambda>ws. (i, None) # ws) id (scan_from put (Suc i) vs ds)
           | Some x \<Rightarrow>
               (case put ty x of
                  Some y \<Rightarrow> map_prod (\<lambda>ws. (i, Some y) # ws) id (scan_from put (Suc i) vs ds)
                | None \<Rightarrow> ([], Inl (New (''dbtest: Scan value '' @ show_nat i @ '' cannot populate its destination'')))))
      | _ \<Rightarrow> ([], Inl (New (''dbtest: Scan destination '' @ show_nat i @ '' is not a non-nil pointer''))))"
| "scan_from put i _ _ = ([], Inr ())"

definition scan :: "('ty \<Rightarrow> 'v \<Rightarrow> 'v option) \<Rightarrow> 'v option list \<Rightarrow> 'ty dest list \<Rightarrow> (nat \<times> 'v option) list \<times> unit result" where
  "scan put values dests =
     (if length dests \<noteq> length values
      then ([], Inl (New (''dbtest: Scan has '' @ show_nat (length dests) @ '' destinations for '' @ show_nat (length values) @ '' values'')))
      else scan_from put 0 values dests)"

section \<open>The cursor\<close>

record 'v cursor =
  w_values :: "'v option list list"
  w_err :: "goerror option"
  w_current :: nat
  w_closed :: bool

definition Close :: "'v cursor \<Rightarrow> 'v cursor" where
  "Close w = w\<lparr>w_closed := True\<rparr>"

definition Err :: "'v cursor \<Rightarrow> goerror option" where
  "Err w = (if w_closed w then w_err w else None)"

definition Next :: "'v cursor \<Rightarrow> bool \<times> 'v cursor" where
  "Next w =
     (if w_closed w \<or> length (w_values w) \<le> w_current w then (False, Close w)
      else (True, w\<lparr>w_current := Suc (w_current w)\<rparr>))"

definition Scan_rows :: "('ty \<Rightarrow> 'v \<Rightarrow> 'v option) \<Rightarrow> 'ty dest list \<Rightarrow> 'v cursor \<Rightarrow> ((nat \<times> 'v option) list \<times> unit result) \<times> 'v cursor" where
  "Scan_rows put dests w =
     (if w_current w = 0 \<or> length (w_values w) < w_current w
      then (([], Inl (New ''dbtest: Scan called without a current row'')), Close w)
      else case scan put (w_values w ! (w_current w - 1)) dests of
        (ws, Inl e) \<Rightarrow> ((ws, Inl e), Close w)
      | (ws, Inr _) \<Rightarrow> ((ws, Inr ()), w))"

definition Values :: "'v cursor \<Rightarrow> 'v option list result" where
  "Values w =
     (if w_current w = 0 \<or> length (w_values w) < w_current w then Inl (New ''dbtest: Values called without a current row'')
      else Inr (w_values w ! (w_current w - 1)))"

section \<open>The transaction\<close>

record 'v fake_tx =
  t_ExecErr :: "goerror option"
  t_Tag :: string
  t_RowValues :: "'v option list"
  t_RowErr :: "goerror option"
  t_Rows :: "'v option list list"
  t_QueryErr :: "goerror option"
  t_RowsErr :: "goerror option"
  t_calls :: "'v call list"

definition record_call :: "string \<Rightarrow> 'v option list \<Rightarrow> 'v fake_tx \<Rightarrow> 'v fake_tx" where
  "record_call sql args t = t\<lparr>t_calls := t_calls t @ [\<lparr>c_SQL = sql, c_Args = args\<rparr>]\<rparr>"

definition Exec :: "string \<Rightarrow> 'v option list \<Rightarrow> 'v fake_tx \<Rightarrow> string result \<times> 'v fake_tx" where
  "Exec sql args t = (case t_ExecErr t of Some e \<Rightarrow> Inl e | None \<Rightarrow> Inr (t_Tag t), record_call sql args t)"

record 'v fake_row =
  w_row :: "'v option list"
  w_row_err :: "goerror option"

definition QueryRow :: "string \<Rightarrow> 'v option list \<Rightarrow> 'v fake_tx \<Rightarrow> 'v fake_row \<times> 'v fake_tx" where
  "QueryRow sql args t = (\<lparr>w_row = t_RowValues t, w_row_err = t_RowErr t\<rparr>, record_call sql args t)"

definition Scan_row :: "('ty \<Rightarrow> 'v \<Rightarrow> 'v option) \<Rightarrow> 'ty dest list \<Rightarrow> 'v fake_row \<Rightarrow> (nat \<times> 'v option) list \<times> unit result" where
  "Scan_row put dests r = (case w_row_err r of Some e \<Rightarrow> ([], Inl e) | None \<Rightarrow> scan put (w_row r) dests)"

definition Query :: "string \<Rightarrow> 'v option list \<Rightarrow> 'v fake_tx \<Rightarrow> 'v cursor result \<times> 'v fake_tx" where
  "Query sql args t =
     (case t_QueryErr t of
        Some e \<Rightarrow> Inl e
      | None \<Rightarrow> Inr \<lparr>w_values = t_Rows t, w_err = t_RowsErr t, w_current = 0, w_closed = False\<rparr>,
      record_call sql args t)"

definition CommandTag :: "int \<Rightarrow> string" where
  "CommandTag rowsAffected = ''UPDATE '' @ show_int rowsAffected"

definition Calls :: "'v fake_tx \<Rightarrow> 'v call list" where
  "Calls t = t_calls t"

text \<open>\<^verbatim>\<open>Only\<close>: the failure it reports to the test, and the call it returns.\<close>

definition Only :: "'v fake_tx \<Rightarrow> string option \<times> 'v call" where
  "Only t =
     (if length (t_calls t) \<noteq> 1
      then (Some (''expected exactly one statement, got '' @ show_nat (length (t_calls t))), \<lparr>c_SQL = '''', c_Args = []\<rparr>)
      else (None, t_calls t ! 0))"

definition ExecOutsideTransaction :: "unit result \<Rightarrow> (string \<Rightarrow> unit result) \<Rightarrow> string \<Rightarrow> unit result" where
  "ExecOutsideTransaction connected exec statement =
     (case connected of
        Inl e \<Rightarrow> Inl (Wrapf (''dbtest: connecting for '' @ statement) [e])
      | Inr _ \<Rightarrow> (case exec statement of Inl e \<Rightarrow> Inl (Wrapf (''dbtest: '' @ statement) [e]) | Inr _ \<Rightarrow> Inr ()))"

section \<open>Reading a result\<close>

text \<open>The loop every caller writes: scan while there is a row, then ask for the error.\<close>

function drain :: "('ty \<Rightarrow> 'v \<Rightarrow> 'v option) \<Rightarrow> 'ty dest list \<Rightarrow> 'v cursor \<Rightarrow> (nat \<times> 'v option) list list result \<times> 'v cursor" where
  "drain put dests w =
     (case Next w of
        (False, w') \<Rightarrow> (case Err w' of Some e \<Rightarrow> Inl e | None \<Rightarrow> Inr [], w')
      | (True, w') \<Rightarrow>
          (case Scan_rows put dests w' of
             ((ws, Inl e), w'') \<Rightarrow> (Inl e, w'')
           | ((ws, Inr _), w'') \<Rightarrow> map_prod (map_sum id (\<lambda>rs. ws # rs)) id (drain put dests w'')))"
  by pat_completeness auto
termination
proof (relation "measure (\<lambda>(put, dests, w). length (w_values w) - w_current w)", goal_cases)
  case 1
  then show ?case by simp
next
  case (2 put dests w b w' s w'' ws r u)
  then show ?case by (auto simp: Next_def Scan_rows_def split: if_splits prod.splits sum.splits)
qed

declare drain.simps [simp del]

lemma drain_rest:
  assumes "\<not> w_closed w" "w_current w \<le> length (w_values w)" "\<forall>row \<in> set (w_values w). snd (scan put row dests) = Inr ()"
  shows "drain put dests w =
    (case w_err w of Some e \<Rightarrow> Inl e | None \<Rightarrow> Inr (map (\<lambda>row. fst (scan put row dests)) (drop (w_current w) (w_values w))),
     w\<lparr>w_current := length (w_values w), w_closed := True\<rparr>)"
  using assms
proof (induction "length (w_values w) - w_current w" arbitrary: w)
  case 0
  then have "drop (w_current w) (w_values w) = []" by simp
  with 0 show ?case by (simp add: drain.simps[of _ _ w] Next_def Err_def Close_def split: option.split)
next
  case (Suc n)
  let ?w = "w\<lparr>w_current := Suc (w_current w)\<rparr>" and ?row = "w_values w ! w_current w"
  have less: "w_current w < length (w_values w)" using Suc.hyps(2) by simp
  have "snd (scan put ?row dests) = Inr ()" using Suc.prems(3) less by simp
  then have s: "scan put ?row dests = (fst (scan put ?row dests), Inr ())" by (metis prod.collapse)
  have "Next w = (True, ?w)" using Suc.prems(1) less by (simp add: Next_def)
  moreover have "Scan_rows put dests ?w = ((fst (scan put ?row dests), Inr ()), ?w)"
    using less by (simp add: Scan_rows_def, subst s, simp)
  ultimately have "drain put dests w = map_prod (map_sum id (\<lambda>rs. fst (scan put ?row dests) # rs)) id (drain put dests ?w)"
    by (simp add: drain.simps[of _ _ w])
  also have "drain put dests ?w =
    (case w_err w of Some e \<Rightarrow> Inl e | None \<Rightarrow> Inr (map (\<lambda>row. fst (scan put row dests)) (drop (Suc (w_current w)) (w_values w))),
     w\<lparr>w_current := length (w_values w), w_closed := True\<rparr>)"
    using Suc.hyps(1)[of ?w] Suc.hyps(2) Suc.prems less by (simp split: option.splits)
  finally show ?case using less by (simp add: Cons_nth_drop_Suc[symmetric] split: option.splits)
qed

text \<open>
  A query is recorded, and a caller that reads its result gets every configured row, in order, or the configured error after them: a fake result
  cannot end early without one.
\<close>

lemma query_reads_all:
  assumes "Query sql args t = (Inr w, t')" "\<forall>row \<in> set (t_Rows t). snd (scan put row dests) = Inr ()"
  shows "fst (drain put dests w) =
      (case t_RowsErr t of Some e \<Rightarrow> Inl e | None \<Rightarrow> Inr (map (\<lambda>row. fst (scan put row dests)) (t_Rows t)))"
    "w_closed (snd (drain put dests w))" "Calls t' = Calls t @ [\<lparr>c_SQL = sql, c_Args = args\<rparr>]"
  using assms drain_rest[of w put dests]
  by (auto simp: Query_def record_call_def Calls_def split: option.splits)

text \<open>After the last row the cursor still has one: a scan past the end reads the last row again.\<close>

lemma scan_past_the_end:
  assumes "w_values w \<noteq> []" "w_current w = length (w_values w)" "scan put (last (w_values w)) dests = (ws, Inr ())"
  shows "fst (Next w) = False" "fst (Scan_rows put dests (snd (Next w))) = (ws, Inr ())"
  using assms by (auto simp: Next_def Close_def Scan_rows_def last_conv_nth)

end
