(* ===== verification/Spec2Isabelle.thy ===== *)
theory Spec2Isabelle
  imports Prelude Uuid EventType Decimal GoTime Rfc3339 Json Jsonb Envelope Float64 Dispatch Db Redact Store Outbox Dispatcher Delivery
    Guarantees Producing Maintenance Preflight Inbox Idempotency Withhold Base64 JsonText JsonWrite Jwks Verify
    Observability Httpapi Clientauth Httpdelivery JsonDecode Schemacheck Archcheck Migrations Dbtest
begin

text \<open>
  A verification development of foundation-platform, the Go library two control planes share (\<^verbatim>\<open>src/README.md\<close>). The library has no deployable of its
  own: a host appends events to a transactional outbox, runs dispatchers that deliver them to named consumers at least once, guards its consumers
  against repeats, replays idempotent requests, verifies the access tokens it receives and obtains the ones it sends, and serves HTTP behind one chain
  of middleware. Two commands gate its event schemas and its package graph.

  \<^bold>\<open>How the parts meet.\<close> A producer opens a transaction (\<^verbatim>\<open>db\<close>), changes its own tables and calls \<^verbatim>\<open>outbox.Append\<close> with an envelope (\<^verbatim>\<open>event\<close>, \<^verbatim>\<open>id\<close>):
  the event and one delivery per subscribed consumer are written with the change. A dispatcher claims due deliveries under a lease, rebuilds the
  envelope, and hands it to a publisher (\<^verbatim>\<open>outbox/httpdelivery\<close>), which authenticates with a token of \<^verbatim>\<open>clientauth\<close> and classifies the answer; the
  dispatcher records a receipt, a retry or a dead letter, fenced by its lease. The consumer receives the call through \<^verbatim>\<open>httpapi\<close>, checks the token
  with \<^verbatim>\<open>verify\<close>, and applies the event behind \<^verbatim>\<open>inbox.Guard\<close>. \<^verbatim>\<open>observability\<close> carries one correlation identifier through all of it and \<^verbatim>\<open>redact\<close> keeps
  credentials out of logs. \<^verbatim>\<open>migrations\<close> owns the schema and the daily partitions.

  \<^bold>\<open>Shared theories.\<close>
  \<^item> \<open>Prelude\<close>: Go errors as a tree with \<^verbatim>\<open>errors.Is\<close>, results as sums, strings as bytes with \<^verbatim>\<open>strings.TrimSpace\<close> and \<^verbatim>\<open>strings.Split\<close>.
  \<^item> \<open>Decimal\<close>, \<open>GoTime\<close>, \<open>Rfc3339\<close>, \<open>Float64\<close>: \<^verbatim>\<open>strconv\<close>, civil dates, RFC 3339 texts, the rounding of the backoff; round trips are
    interpretations of the locale \<open>text_codec\<close> (integers, times, identifiers, JSON texts).
  \<^item> \<open>Json\<close>, \<open>JsonText\<close>, \<open>JsonWrite\<close>, \<open>JsonDecode\<close>, \<open>Base64\<close>: \<^verbatim>\<open>encoding/json\<close> (struct fields, UTF-8 coercion, the parser, the printer, slices) and
    \<^verbatim>\<open>base64.RawURLEncoding\<close>. A \<^verbatim>\<open>json.RawMessage\<close> is a document tree; texts are parsed where the code parses them.
  \<^item> \<open>Jsonb\<close>: what a \<^verbatim>\<open>jsonb\<close> column keeps of a document. Members are kept once, the last value winning, in the order of the column, and numbers lose their
    exponent; the normal form denotes the same document. The statements of \<open>Outbox\<close> and \<open>Idempotency\<close> store it. The order of members is the locale
    \<open>key_order\<close>, interpreted on the order of the column and on that of Go's encoder.
  \<^item> \<open>Store\<close>: the platform tables as one record of row lists, statements as functions on it, and what surrounds a transaction: the clock, the
    statements that fail, the locks of others. A transaction is one step, as PostgreSQL's row locks and conditional updates make it.

  \<^bold>\<open>Components, their theories and what is shown.\<close>
  \<^item> \<^verbatim>\<open>src/id\<close>: \<open>Uuid\<close>. The generator's state, UUIDv7 layout, text and order: strictly increasing identifiers, termination of generation, \<^verbatim>\<open>Parse\<close> exactly
    inverts \<^verbatim>\<open>String\<close>.
  \<^item> \<^verbatim>\<open>src/event\<close>: \<open>EventType\<close>, \<open>Envelope\<close>. The grammar of type names, and the JSON round trip and validation of envelopes.
  \<^item> \<^verbatim>\<open>src/db\<close>: \<open>Db\<close>. \<^verbatim>\<open>InTx\<close> with its binder, panics and lost commits; the contract a transaction runner gives its callers is the locale \<open>transactor\<close>,
    interpreted on the store and on the consumer's state. \<^verbatim>\<open>src/db/dbtest\<close>: \<open>Dbtest\<close>, the recording transaction and its cursor.
  \<^item> \<^verbatim>\<open>src/outbox\<close>: \<open>Dispatch\<close> (classification, evidence, delays), \<open>Outbox\<close> (append and subscriptions), \<open>Dispatcher\<close> (claim, settle, release, the loop),
    \<open>Delivery\<close> (the step relation of committed transactions and its invariant), \<open>Guarantees\<close> and \<open>Producing\<close> (the theorems), \<open>Maintenance\<close>,
    \<open>Preflight\<close>. In every state any interleaving of producers, subscription changes and workers can reach, each delivery is owed, published with a
    receipt, dead-lettered with an incident or abandoned; a worker without its lease writes nothing; an undisturbed cycle closes whatever is
    due; what is published is what was appended, with its data in the normal form of its column. \<open>dispatchOnce_refines_steps\<close> shows that the detailed cycle implements the step relation.
  \<^item> \<^verbatim>\<open>src/outbox/httpdelivery\<close>: \<open>Httpdelivery\<close>. The mapping from answers to published, retried and dead-lettered, with the credential as the locale
    \<open>token_source\<close>, interpreted on the static token and on the cache of \<open>Clientauth\<close>.
  \<^item> \<^verbatim>\<open>src/inbox\<close>: \<open>Inbox\<close>. At-least-once delivery applies an effect exactly once.
  \<^item> \<^verbatim>\<open>src/idempotency\<close>: \<open>Idempotency\<close>, \<open>Withhold\<close>. One execution per key, a replay that says what the completed response said for the retention, and no withheld secret in a replay.
  \<^item> \<^verbatim>\<open>src/verify\<close>: \<open>Jwks\<close>, \<open>Verify\<close>. What is accepted was signed by the issuer's key for this resource and is in time, and a token
    the issuer makes is accepted; the seconds where \<^verbatim>\<open>time.Unix\<close> wraps are left out in both. The key source is the locale \<open>key_source\<close>, interpreted on the fetched cache
    and on static keys, under any interleaving of fetches.
  \<^item> \<^verbatim>\<open>src/clientauth\<close>: \<open>Clientauth\<close>. The assertion a client signs is a token \<open>Verify\<close> accepts; the token cache never hands out a stale token.
  \<^item> \<^verbatim>\<open>src/observability\<close>, \<^verbatim>\<open>src/redact\<close>: \<open>Observability\<close>, \<open>Redact\<close>. Correlation end to end, identity on every signal, redaction of log records.
  \<^item> \<^verbatim>\<open>src/httpapi\<close>: \<open>Httpapi\<close>. A handler maps a request and the world to the operations on its response writer, how it ends and the world after. A panic
    gives one complete problem response, an orderly response is served unchanged, and load is shed at the configured capacity, before any stage runs.
  \<^item> \<^verbatim>\<open>src/migrations\<close>: \<open>Migrations\<close>. The order of the set, and partition maintenance with its stored functions: no row is lost by creating partitions,
    and dropping them removes exactly the settled days.
  \<^item> \<^verbatim>\<open>src/tools\<close>: \<open>Schemacheck\<close>, \<open>Archcheck\<close>. What a passing registry means for paths, and for documents by the keywords the check reads; that the
    other command's passing run means the boundaries are kept, and the converse where no sibling module shares the path's beginning.

  \<^bold>\<open>Numbers, bounds and termination.\<close> Durations and the in-flight counter are 64-bit words and wrap as in Go; times are integers, with the saturation of
  \<^verbatim>\<open>time.Sub\<close> and the wrap-around of \<^verbatim>\<open>time.Unix\<close> written out; Go's \<^verbatim>\<open>int\<close> is an integer where it counts rows or attempts. Every definition is total: loops are
  recursions with a measure, and loops that wait on the outside (the generator's clock, a dispatcher's passes) consume a list of readings, with a
  theorem that says when they return. No fuel is used.

  \<^bold>\<open>Arguments of the model.\<close> SHA-256, RSASSA-PSS, the PEM and ASN.1 decoders, \<^verbatim>\<open>url.Parse\<close>, random bytes, clocks, HTTP answers, the parser of Go source, the
  output of \<^verbatim>\<open>go list\<close>, the file system and the creation of OpenTelemetry instruments are arguments; a theorem that relies on one of them states what it
  relies on. The texts of errors are shortened: what \<^verbatim>\<open>errors.Is\<close> finds in them is kept.

  \<^bold>\<open>Not modelled.\<close> \<^verbatim>\<open>Telemetry.Inject\<close>, which only forwards to the propagator; the flag parsing and printing of the two commands; the pool statistics
  and wire protocol of pgx; host code that resolves or waives dead letters; the SQL of the schema beyond the constraints, statements and stored functions the Go
  code relies on; \<^verbatim>\<open>src/e2e\<close> and the fixtures, which are test code. Postgres isolation is represented by atomic transactions over one store, and process
  crashes by histories that stop after any committed transaction.
\<close>

end
